(* ===== verification/OC_Prelude.thy ===== *)
theory OC_Prelude
  imports Main "HOL-Library.Word" "HOL-Library.Product_Lexorder"
begin

text \<open>
  Shared vocabulary of the development: the error codes and result type of the
  Rust crates, the checked and saturating integer operations of the Rust
  standard library, the small SQL vocabulary (\<open>ORDER BY\<close>, \<open>LIMIT\<close>, \<open>MIN\<close>) used
  by the scheduler store, and the generic notion of a component driven by a
  sequence of events together with the locale that lifts a one-step invariant
  to whole runs.
\<close>

section \<open>Named collections\<close>

named_theorems rust_arith \<open>checked and saturating arithmetic of the Rust standard library\<close>
named_theorems result_simps \<open>case analysis of fallible computations\<close>

section \<open>Error codes and results\<close>

text \<open>
  The codes of \<open>crates/core/src/error.rs\<close> that the modelled code returns. Messages
  are fixed strings chosen by the code and are not modelled.
\<close>

datatype error_code =
    ConfigInvalid
  | RuntimeInvalid
  | ConfigCompileFailed
  | SchemaTooNew
  | MasterKeyMismatch
  | CacheEntryCorrupt
  | RuntimeExitedBeforeReady
  | RuntimeExitedInFlight
  | PathInvalid
  | LimitInvalid
  | Internal
  | AdmissionBusy
  | StoragePressure
  | PlatformUnavailable
  | VersionNotReady
  | VersionReferenced
  | ResourceNotReady
  | ResourceReferenced
  | CronExpressionInvalid
  | CronExpressionUnsupported
  | WorkflowDurationInvalid
  | WorkflowStepConfigUnsupported
  | WorkflowInstanceIdInvalid
  | WorkflowNotReady
  | WorkflowInvariantViolation
  | WorkflowInstanceNotFound
  | WorkflowInstanceStateConflict
  | WorkflowInstanceBusy
  | WorkflowRunStale
  | WorkflowStepStale
  | WorkflowNonDeterministic
  | WorkflowExecutionFailed
  | WorkflowMethodUnsupported
  | WorkflowSerializationUnsupported
  | WorkflowPayloadTooLarge
  | WorkflowResultTooLarge
  | WorkflowStateQuotaExceeded
  | WorkflowStepLimitExceeded
  | WorkflowStepTimeout
  | WorkflowStepRetriesExhausted
  | WorkflowNonRetryable
  | WorkflowEventTimeout
  | WorkflowEventTypeInvalid
  | WorkflowEventQueueFull
  | WorkflowRuntimeUnavailable
  | ArtifactIntegrityError
  | SchedulerInternalProtocolError
  | SchedulerCorrupt
  | SchedulerUnavailable
  | SchedulerBusy
  | SchedulerTaskFailed
  | QueueNotFound
  | QueueNotReady
  | QueueConfigPending
  | QueueInvalidMessage
  | QueueMessageTooLarge
  | QueueBatchLimitExceeded
  | QueueBacklogLimitExceeded
  | QueueDelayInvalid
  | QueueRetryDelayInvalid
  | QueueDispositionInvalid
  | QueueInvariantViolation
  | QueueStorageUnavailable
  | IdempotencyConflict

text \<open>\<open>Result<T, PlatformError>\<close>: \<open>Inl\<close> carries the code, \<open>Inr\<close> the value.\<close>

type_synonym 'a result = "error_code + 'a"

definition rbind :: "'a result \<Rightarrow> ('a \<Rightarrow> 'b result) \<Rightarrow> 'b result" where
  "rbind m f = (case m of Inl e \<Rightarrow> Inl e | Inr x \<Rightarrow> f x)"

definition ok_or :: "error_code \<Rightarrow> 'a option \<Rightarrow> 'a result" where
  "ok_or e v = (case v of None \<Rightarrow> Inl e | Some x \<Rightarrow> Inr x)"

lemma rbind_simps [simp]:
  "rbind (Inl e) f = Inl e"
  "rbind (Inr x) f = f x"
  by (simp_all add: rbind_def)

lemma rbind_Inr_iff [result_simps]:
  "rbind m f = Inr y \<longleftrightarrow> (\<exists>x. m = Inr x \<and> f x = Inr y)"
  by (cases m) simp_all

lemma rbind_Inl_iff [result_simps]:
  "rbind m f = Inl e \<longleftrightarrow> m = Inl e \<or> (\<exists>x. m = Inr x \<and> f x = Inl e)"
  by (cases m) auto

lemma ok_or_simps [simp]:
  "ok_or e None = Inl e"
  "ok_or e (Some x) = Inr x"
  by (simp_all add: ok_or_def)

lemma ok_or_Inr_iff [result_simps]: "ok_or e v = Inr x \<longleftrightarrow> v = Some x"
  by (cases v) simp_all

lemma ok_or_Inl_iff [result_simps]: "ok_or e v = Inl e' \<longleftrightarrow> v = None \<and> e' = e"
  by (cases v) auto

section \<open>Text\<close>

text \<open>\<open>u8::is_ascii_whitespace\<close>; text is a list of UTF-8 bytes.\<close>

definition is_ascii_whitespace :: "char \<Rightarrow> bool" where
  "is_ascii_whitespace c \<longleftrightarrow> (of_char c :: nat) \<in> {9, 10, 12, 13, 32}"

section \<open>Machine integers\<close>

text \<open>
  Fixed-width values are kept as \<open>w word\<close> where the code relies on bits or on
  wrap-around; elsewhere an unsigned value is a \<open>nat\<close> and a signed one an \<open>int\<close>,
  with the bound written into each checked or saturating operation.
\<close>

type_synonym byte = "8 word"
type_synonym u64 = "64 word"

definition u32_max :: nat where "u32_max = 4294967295"
definition u64_max :: nat where "u64_max = 18446744073709551615"
definition i64_min :: int where "i64_min = -9223372036854775808"
definition i64_max :: int where "i64_max = 9223372036854775807"

definition in_i64 :: "int \<Rightarrow> bool" where
  "in_i64 x \<longleftrightarrow> i64_min \<le> x \<and> x \<le> i64_max"

definition checked_add_u64 :: "nat \<Rightarrow> nat \<Rightarrow> nat option" where
  "checked_add_u64 a b = (if a + b \<le> u64_max then Some (a + b) else None)"

definition checked_mul_u64 :: "nat \<Rightarrow> nat \<Rightarrow> nat option" where
  "checked_mul_u64 a b = (if a * b \<le> u64_max then Some (a * b) else None)"

definition saturating_add_u64 :: "nat \<Rightarrow> nat \<Rightarrow> nat" where
  "saturating_add_u64 a b = min (a + b) u64_max"

definition saturating_mul_u64 :: "nat \<Rightarrow> nat \<Rightarrow> nat" where
  "saturating_mul_u64 a b = min (a * b) u64_max"

definition saturating_add_u32 :: "nat \<Rightarrow> nat \<Rightarrow> nat" where
  "saturating_add_u32 a b = min (a + b) u32_max"

definition checked_add_i64 :: "int \<Rightarrow> int \<Rightarrow> int option" where
  "checked_add_i64 a b = (if in_i64 (a + b) then Some (a + b) else None)"

definition checked_mul_i64 :: "int \<Rightarrow> int \<Rightarrow> int option" where
  "checked_mul_i64 a b = (if in_i64 (a * b) then Some (a * b) else None)"

definition saturating_sub_i64 :: "int \<Rightarrow> int \<Rightarrow> int" where
  "saturating_sub_i64 a b = max i64_min (min i64_max (a - b))"

text \<open>\<open>i64::try_from\<close> of an unsigned value and \<open>u64::try_from\<close> of a signed one.\<close>

definition i64_of_u64 :: "nat \<Rightarrow> int option" where
  "i64_of_u64 n = (if int n \<le> i64_max then Some (int n) else None)"

definition u64_of_i64 :: "int \<Rightarrow> nat option" where
  "u64_of_i64 i = (if 0 \<le> i then Some (nat i) else None)"

lemma checked_add_u64_Some [rust_arith]:
  "checked_add_u64 a b = Some c \<longleftrightarrow> c = a + b \<and> a + b \<le> u64_max"
  by (auto simp: checked_add_u64_def)

lemma checked_mul_u64_Some [rust_arith]:
  "checked_mul_u64 a b = Some c \<longleftrightarrow> c = a * b \<and> a * b \<le> u64_max"
  by (auto simp: checked_mul_u64_def)

lemma checked_add_i64_Some [rust_arith]:
  "checked_add_i64 a b = Some c \<longleftrightarrow> c = a + b \<and> in_i64 (a + b)"
  by (auto simp: checked_add_i64_def)

lemma checked_mul_i64_Some [rust_arith]:
  "checked_mul_i64 a b = Some c \<longleftrightarrow> c = a * b \<and> in_i64 (a * b)"
  by (auto simp: checked_mul_i64_def)

lemma i64_of_u64_Some [rust_arith]:
  "i64_of_u64 n = Some i \<longleftrightarrow> i = int n \<and> int n \<le> i64_max"
  by (auto simp: i64_of_u64_def)

lemma u64_of_i64_Some [rust_arith]:
  "u64_of_i64 i = Some n \<longleftrightarrow> 0 \<le> i \<and> n = nat i"
  by (auto simp: u64_of_i64_def)

text \<open>The same operations on words, for the counters the code keeps in atomics.\<close>

definition word_saturating_add :: "'a::len word \<Rightarrow> 'a word \<Rightarrow> 'a word" where
  "word_saturating_add a b = (if unat a + unat b < 2 ^ LENGTH('a) then a + b else - 1)"

definition word_checked_add :: "'a::len word \<Rightarrow> 'a word \<Rightarrow> 'a word option" where
  "word_checked_add a b = (if unat a + unat b < 2 ^ LENGTH('a) then Some (a + b) else None)"

definition word_checked_sub :: "'a::len word \<Rightarrow> 'a word \<Rightarrow> 'a word option" where
  "word_checked_sub a b = (if b \<le> a then Some (a - b) else None)"

lemma unat_less_exp: "unat (w :: 'a::len word) < 2 ^ LENGTH('a)"
  by (rule unsigned_less)

lemma unat_max_word: "unat (- 1 :: 'a::len word) = 2 ^ LENGTH('a) - 1"
  by (simp add: unsigned_minus_1_eq_mask mask_eq_exp_minus_1)

lemma unat_word_saturating_add [rust_arith]:
  "unat (word_saturating_add a (b :: 'a::len word)) =
     min (unat a + unat b) (2 ^ LENGTH('a) - 1)"
proof (cases "unat a + unat b < 2 ^ LENGTH('a)")
  case True
  then have "min (unat a + unat b) (2 ^ LENGTH('a) - 1) = unat a + unat b"
    by (metis Suc_pred min.absorb1 not_less_eq_eq linorder_not_le diff_Suc_1 gr_implies_not0 neq0_conv One_nat_def)
  with True show ?thesis
    by (simp add: word_saturating_add_def unat_word_ariths)
next
  case False
  then have "min (unat a + unat b) (2 ^ LENGTH('a) - 1) = 2 ^ LENGTH('a) - 1"
    by simp
  with False show ?thesis
    by (simp add: word_saturating_add_def unat_max_word)
qed

lemma word_checked_add_Some [rust_arith]:
  "word_checked_add a (b :: 'a::len word) = Some c \<longleftrightarrow>
     unat a + unat b < 2 ^ LENGTH('a) \<and> unat c = unat a + unat b"
proof (cases "unat a + unat b < 2 ^ LENGTH('a)")
  case True
  then have "unat (a + b) = unat a + unat b"
    by (simp add: unat_word_ariths)
  with True show ?thesis
    by (auto simp: word_checked_add_def word_unat_eq_iff)
next
  case False
  then show ?thesis
    by (simp add: word_checked_add_def)
qed

lemma word_checked_sub_Some [rust_arith]:
  "word_checked_sub a (b :: 'a::len word) = Some c \<longleftrightarrow>
     unat b \<le> unat a \<and> unat c = unat a - unat b"
proof (cases "b \<le> a")
  case True
  then have "unat (a - b) = unat a - unat b"
    by (simp add: unat_sub)
  with True show ?thesis
    by (auto simp: word_checked_sub_def word_unat_eq_iff word_le_nat_alt)
next
  case False
  then show ?thesis
    by (simp add: word_checked_sub_def word_le_nat_alt)
qed

section \<open>SQL vocabulary\<close>

text \<open>
  A table is the list of its rows. \<open>ORDER BY k LIMIT n\<close> is \<open>order_limit k n\<close>
  (the keys used by the code end in a unique column, so the order of equal keys
  never matters), \<open>MIN(c)\<close> over a selection is \<open>min_opt\<close>.
\<close>

definition order_limit :: "('r \<Rightarrow> 'k::linorder) \<Rightarrow> nat \<Rightarrow> 'r list \<Rightarrow> 'r list" where
  "order_limit k n rows = take n (sort_key k rows)"

definition min_opt :: "'a::linorder list \<Rightarrow> 'a option" where
  "min_opt xs = (case xs of [] \<Rightarrow> None | y # ys \<Rightarrow> Some (foldl min y ys))"

lemma set_order_limit_subset: "set (order_limit k n rows) \<subseteq> set rows"
  by (metis order_limit_def set_sort set_take_subset)

lemma length_order_limit [simp]: "length (order_limit k n rows) = min n (length rows)"
  by (simp add: order_limit_def min.commute)

lemma distinct_order_limit: "distinct (map f rows) \<Longrightarrow> distinct (map f (order_limit k n rows))"
proof -
  assume "distinct (map f rows)"
  then have "distinct (map f (sort_key k rows))"
    by (metis distinct_map distinct_sort inj_on_def set_sort)
  then show ?thesis
    by (simp add: order_limit_def take_map [symmetric])
qed

lemma sorted_order_limit: "sorted (map k (order_limit k n rows))"
  by (simp add: order_limit_def take_map [symmetric] sorted_wrt_take)

text \<open>What the limit leaves out comes later in the order.\<close>

lemma order_limit_least:
  assumes "r \<in> set rows" and "r \<notin> set (order_limit k n rows)"
    and "s \<in> set (order_limit k n rows)"
  shows "k s \<le> k r"
proof -
  let ?xs = "sort_key k rows"
  have "r \<in> set ?xs" using assms(1) by simp
  with assms(2) have r: "r \<in> set (drop n ?xs)"
    by (metis Un_iff append_take_drop_id order_limit_def set_append)
  have "sorted (map k (take n ?xs @ drop n ?xs))" by simp
  then have "\<forall>x \<in> set (take n ?xs). \<forall>y \<in> set (drop n ?xs). k x \<le> k y"
    by (simp only: map_append sorted_append set_map) blast
  with assms(3) r show ?thesis
    by (simp add: order_limit_def)
qed

lemma foldl_min_le: "foldl min (y::'a::linorder) ys \<le> y \<and> (\<forall>x \<in> set ys. foldl min y ys \<le> x)"
proof (induction ys arbitrary: y)
  case Nil
  then show ?case by simp
next
  case (Cons a ys)
  have "foldl min (min y a) ys \<le> min y a" using Cons.IH by blast
  then show ?case using Cons.IH [of "min y a"] by auto
qed

lemma foldl_min_in: "foldl min (y::'a::linorder) ys \<in> insert y (set ys)"
proof (induction ys arbitrary: y)
  case (Cons a ys)
  have "foldl min (min y a) ys \<in> insert (min y a) (set ys)" by (rule Cons.IH)
  moreover have "min y a = y \<or> min y a = a" by (simp add: min_def)
  ultimately show ?case by auto
qed simp

lemma min_opt_None_iff [simp]: "min_opt xs = None \<longleftrightarrow> xs = []"
  by (simp add: min_opt_def split: list.splits)

lemma min_opt_Some:
  assumes "min_opt xs = Some m"
  shows "m \<in> set xs \<and> (\<forall>x \<in> set xs. m \<le> x)"
proof (cases xs)
  case Nil
  with assms show ?thesis by (simp add: min_opt_def)
next
  case (Cons y ys)
  with assms have m: "m = foldl min y ys" by (simp add: min_opt_def)
  show ?thesis
    using foldl_min_le [of y ys] foldl_min_in [of y ys] by (auto simp: m Cons)
qed

text \<open>\<open>SUM(c)\<close> over the rows that satisfy a condition.\<close>

definition sum_where :: "('r \<Rightarrow> bool) \<Rightarrow> ('r \<Rightarrow> int) \<Rightarrow> 'r list \<Rightarrow> int" where
  "sum_where p f rows = sum_list (map f (filter p rows))"

definition count_where :: "('r \<Rightarrow> bool) \<Rightarrow> 'r list \<Rightarrow> int" where
  "count_where p rows = int (length (filter p rows))"

lemma count_where_simps [simp]:
  "count_where p [] = 0"
  "count_where p (r # rows) = (if p r then 1 else 0) + count_where p rows"
  "count_where p (rows @ rows') = count_where p rows + count_where p rows'"
  by (simp_all add: count_where_def)

lemma sum_where_simps [simp]:
  "sum_where p f [] = 0"
  "sum_where p f (r # rows) = (if p r then f r else 0) + sum_where p f rows"
  "sum_where p f (rows @ rows') = sum_where p f rows + sum_where p f rows'"
  by (simp_all add: sum_where_def)

lemma count_where_nonneg [simp]: "0 \<le> count_where p rows"
  by (simp add: count_where_def)

section \<open>Components driven by events\<close>

text \<open>
  A stateful component is a step function on its state; \<open>run_events\<close> applies a
  sequence of operations in the order they take effect. The locale states what a
  component owes its clients: one admissible operation keeps the invariant.
  Every run of admissible operations then keeps it, at every prefix.
\<close>

definition run_events :: "('s \<Rightarrow> 'e \<Rightarrow> 's) \<Rightarrow> 's \<Rightarrow> 'e list \<Rightarrow> 's" where
  "run_events step s es = foldl step s es"

lemma run_events_simps [simp]:
  "run_events step s [] = s"
  "run_events step s (e # es) = run_events step (step s e) es"
  "run_events step s (es @ es') = run_events step (run_events step s es) es'"
  by (simp_all add: run_events_def)

locale invariant_system =
  fixes step :: "'s \<Rightarrow> 'e \<Rightarrow> 's"
    and admissible :: "'e \<Rightarrow> bool"
    and inv :: "'s \<Rightarrow> bool"
  assumes step_inv: "inv s \<Longrightarrow> admissible e \<Longrightarrow> inv (step s e)"
begin

lemma run_inv: "inv s \<Longrightarrow> list_all admissible es \<Longrightarrow> inv (run_events step s es)"
  by (induction es arbitrary: s) (simp_all add: step_inv)

lemma prefix_inv: "inv s \<Longrightarrow> list_all admissible es \<Longrightarrow> inv (run_events step s (take n es))"
  by (rule run_inv) (auto simp: list_all_iff dest: in_set_takeD)

end

text \<open>
  A stronger contract: besides the invariant, a relation between the states
  before and after every operation that composes (a monotone quantity, a field
  that is never rewritten).
\<close>

locale monotone_system = invariant_system step admissible inv
  for step :: "'s \<Rightarrow> 'e \<Rightarrow> 's" and admissible :: "'e \<Rightarrow> bool" and inv :: "'s \<Rightarrow> bool" +
  fixes rel :: "'s \<Rightarrow> 's \<Rightarrow> bool"
  assumes rel_refl: "rel s s"
    and rel_trans: "rel s t \<Longrightarrow> rel t u \<Longrightarrow> rel s u"
    and step_rel: "inv s \<Longrightarrow> admissible e \<Longrightarrow> rel s (step s e)"
begin

lemma run_rel: "inv s \<Longrightarrow> list_all admissible es \<Longrightarrow> rel s (run_events step s es)"
proof (induction es arbitrary: s)
  case Nil
  then show ?case by (simp add: rel_refl)
next
  case (Cons e es)
  then have "rel s (step s e)" "inv (step s e)"
    by (simp_all add: step_rel step_inv)
  moreover have "rel (step s e) (run_events step (step s e) es)"
    using Cons.IH Cons.prems(2) calculation(2) by simp
  ultimately show ?case by (auto intro: rel_trans)
qed

end

end
