(* ===== verification/Admission.thy ===== *)
theory Admission
  imports OC_Prelude
begin

text \<open>
  Write admission (\<open>crates/core/src/admission.rs\<close>): the storage decision taken from
  one immutable snapshot, and the process-local reservation counter with its
  idempotent release guards. The counter is an atomic 64-bit word whose
  \<open>fetch_sub\<close> wraps, so it is kept as a word; concurrent callers are the
  interleavings of the atomic operations.
\<close>

section \<open>The admission decision\<close>

datatype platform_mode = Serving | Draining | Offline

record admission_snapshot =
  schema_version :: nat
  filesystem_free_bytes :: u64
  soft_reserve_bytes :: u64
  hard_reserve_bytes :: u64
  emergency_reserve_bytes :: u64
  reserved_bytes :: u64
  owned_staging_bytes :: u64
  mode :: platform_mode

definition admit :: "admission_snapshot \<Rightarrow> u64 \<Rightarrow> u64 result" where
  "admit s requested =
    (if schema_version s \<noteq> 1 \<or> emergency_reserve_bytes s \<ge> hard_reserve_bytes s
     then Inl LimitInvalid
     else if mode s \<noteq> Serving then Inl PlatformUnavailable
     else
       let committed =
             word_saturating_add
               (word_saturating_add
                 (word_saturating_add (reserved_bytes s) (owned_staging_bytes s)) requested)
               (hard_reserve_bytes s)
       in ok_or StoragePressure (word_checked_sub (filesystem_free_bytes s) committed))"

text \<open>The exact, unbounded sum the saturating chain stands for.\<close>

definition committed_bytes :: "admission_snapshot \<Rightarrow> u64 \<Rightarrow> nat" where
  "committed_bytes s requested =
     unat (reserved_bytes s) + unat (owned_staging_bytes s) + unat requested
       + unat (hard_reserve_bytes s)"

lemma unat_committed:
  "unat (word_saturating_add
          (word_saturating_add
            (word_saturating_add (reserved_bytes s) (owned_staging_bytes s)) requested)
          (hard_reserve_bytes s)) = min (committed_bytes s requested) (2 ^ 64 - 1)"
  by (simp add: rust_arith committed_bytes_def)

section \<open>Reservations\<close>

record reservation =
  res_bytes :: u64
  released :: bool

record reservations =
  counter :: u64
  guards :: "reservation list"

text \<open>
  \<open>reserve\<close> hands out a new guard (its index in \<open>guards\<close>); \<open>release\<close> is called by
  the holder, and once more by \<open>Drop\<close>.
\<close>

definition reserve :: "u64 \<Rightarrow> reservations \<Rightarrow> (nat result) \<times> reservations" where
  "reserve bytes s =
    (case word_checked_add (counter s) bytes of
       None \<Rightarrow> (Inl AdmissionBusy, s)
     | Some c \<Rightarrow>
         (Inr (length (guards s)),
          s\<lparr>counter := c, guards := guards s @ [\<lparr>res_bytes = bytes, released = False\<rparr>]\<rparr>))"

definition release :: "nat \<Rightarrow> reservations \<Rightarrow> reservations" where
  "release i s =
    (if i < length (guards s) \<and> \<not> released (guards s ! i)
     then s\<lparr>counter := counter s - res_bytes (guards s ! i),
            guards := (guards s)[i := (guards s ! i)\<lparr>released := True\<rparr>]\<rparr>
     else s)"

definition drop_guard :: "nat \<Rightarrow> reservations \<Rightarrow> reservations" where
  "drop_guard i s = release i s"

datatype reservation_event = Reserve u64 | Release nat | DropGuard nat

fun reservation_step :: "reservations \<Rightarrow> reservation_event \<Rightarrow> reservations" where
  "reservation_step s (Reserve b) = snd (reserve b s)"
| "reservation_step s (Release i) = release i s"
| "reservation_step s (DropGuard i) = drop_guard i s"

definition new_reservations :: reservations where
  "new_reservations = \<lparr>counter = 0, guards = []\<rparr>"

text \<open>Bytes held by the guards that are still live, as an exact number.\<close>

definition guard_held :: "reservation \<Rightarrow> nat" where
  "guard_held g = (if released g then 0 else unat (res_bytes g))"

definition held_bytes :: "reservation list \<Rightarrow> nat" where
  "held_bytes gs = sum_list (map guard_held gs)"

definition reservations_inv :: "reservations \<Rightarrow> bool" where
  "reservations_inv s \<longleftrightarrow> unat (counter s) = held_bytes (guards s)"

lemma held_bytes_append [simp]: "held_bytes (gs @ hs) = held_bytes gs + held_bytes hs"
  by (simp add: held_bytes_def)

lemma held_bytes_update:
  "i < length gs \<Longrightarrow> held_bytes (gs[i := g]) + guard_held (gs ! i) = held_bytes gs + guard_held g"
proof (induction gs arbitrary: i)
  case (Cons a gs)
  then show ?case
    by (cases i) (simp_all add: held_bytes_def)
qed simp

lemma held_bytes_ge_nth: "i < length gs \<Longrightarrow> guard_held (gs ! i) \<le> held_bytes gs"
  by (simp add: held_bytes_def member_le_sum_list)

lemma reserve_inv: "reservations_inv s \<Longrightarrow> reservations_inv (snd (reserve b s))"
  by (auto simp: reserve_def reservations_inv_def rust_arith guard_held_def held_bytes_def
           split: option.splits)

lemma release_inv:
  assumes "reservations_inv s"
  shows "reservations_inv (release i s)"
proof (cases "i < length (guards s) \<and> \<not> released (guards s ! i)")
  case True
  let ?g = "guards s ! i"
  from True have held: "guard_held ?g = unat (res_bytes ?g)"
    by (simp add: guard_held_def)
  have le: "unat (res_bytes ?g) \<le> unat (counter s)"
    using held_bytes_ge_nth [of i "guards s"] True assms held
    by (simp add: reservations_inv_def)
  then have "unat (counter s - res_bytes ?g) = unat (counter s) - unat (res_bytes ?g)"
    by (simp add: unat_sub word_le_nat_alt)
  moreover have "held_bytes ((guards s)[i := ?g\<lparr>released := True\<rparr>]) + unat (res_bytes ?g)
      = held_bytes (guards s)"
    using held_bytes_update [of i "guards s" "?g\<lparr>released := True\<rparr>"] True held
    by (simp add: guard_held_def)
  ultimately show ?thesis
    using True assms by (simp add: release_def reservations_inv_def)
next
  case False
  with assms show ?thesis by (auto simp: release_def)
qed

lemma reservation_step_inv: "reservations_inv s \<Longrightarrow> reservations_inv (reservation_step s e)"
  by (cases e) (simp_all add: reserve_inv release_inv drop_guard_def)

interpretation reservation_sys: invariant_system reservation_step "\<lambda>_. True" reservations_inv
  by unfold_locales (rule reservation_step_inv)

lemma new_reservations_inv: "reservations_inv new_reservations"
  by (simp add: reservations_inv_def new_reservations_def held_bytes_def)

lemma release_idem: "release i (release i s) = release i s"
  by (simp add: release_def)

lemma run_reservations_inv: "reservations_inv (run_events reservation_step new_reservations es)"
  by (rule reservation_sys.run_inv [OF new_reservations_inv]) (simp add: list_all_iff)

section \<open>Properties\<close>

text \<open>
  Admission is exact despite the saturating arithmetic: unless the filesystem
  reports the largest 64-bit number, a request is admitted precisely when the
  snapshot is valid and serving and all committed bytes, summed without overflow,
  fit into the free space; the answer is the exact remainder.
\<close>

theorem admit_iff_headroom:
  assumes "filesystem_free_bytes s \<noteq> - 1"
  shows "admit s requested = Inr headroom \<longleftrightarrow>
     schema_version s = 1 \<and> emergency_reserve_bytes s < hard_reserve_bytes s
     \<and> mode s = Serving
     \<and> committed_bytes s requested \<le> unat (filesystem_free_bytes s)
     \<and> unat headroom = unat (filesystem_free_bytes s) - committed_bytes s requested"
proof (cases "schema_version s = 1 \<and> emergency_reserve_bytes s < hard_reserve_bytes s \<and> mode s = Serving")
  case True
  have "unat (filesystem_free_bytes s) \<noteq> 2 ^ 64 - 1"
    using assms unat_max_word [where 'a = 64] by (simp add: word_unat_eq_iff)
  then have free: "unat (filesystem_free_bytes s) < 2 ^ 64 - 1"
    using unat_less_exp [of "filesystem_free_bytes s"] by simp
  have "admit s requested = Inr headroom \<longleftrightarrow>
      min (committed_bytes s requested) (2 ^ 64 - 1) \<le> unat (filesystem_free_bytes s)
      \<and> unat headroom = unat (filesystem_free_bytes s) - min (committed_bytes s requested) (2 ^ 64 - 1)"
    using True leD [of "emergency_reserve_bytes s" "hard_reserve_bytes s"]
    by (auto simp: admit_def Let_def result_simps word_checked_sub_Some unat_committed)
  with True free show ?thesis
    by (auto simp: min_def split: if_splits)
next
  case False
  then show ?thesis by (auto simp: admit_def Let_def)
qed

theorem admit_iff_headroom_witness:
  "let s = \<lparr>schema_version = 1, filesystem_free_bytes = 1000, soft_reserve_bytes = 300,
            hard_reserve_bytes = 200, emergency_reserve_bytes = 100, reserved_bytes = 50,
            owned_staging_bytes = 25, mode = Serving\<rparr>
   in filesystem_free_bytes s \<noteq> - 1 \<and> admit s 25 = Inr 700"
  unfolding Let_def
  by (subst admit_iff_headroom) (simp_all add: committed_bytes_def)

text \<open>
  C24. Under any interleaving of reservations, explicit releases and drops, the
  shared counter is exactly the sum of the live reservations: it never wraps, a
  repeated release changes nothing, and it is zero once every guard is released.
\<close>

theorem reservations_counter_exact:
  "let s = run_events reservation_step new_reservations es
   in unat (counter s) = held_bytes (guards s)
      \<and> release i (release i s) = release i s
      \<and> (list_all released (guards s) \<longrightarrow> counter s = 0)"
proof -
  let ?s = "run_events reservation_step new_reservations es"
  have inv: "unat (counter ?s) = held_bytes (guards ?s)"
    using run_reservations_inv [of es] by (simp add: reservations_inv_def)
  have "held_bytes gs = 0" if "list_all released gs" for gs
    using that by (induction gs) (simp_all add: held_bytes_def guard_held_def)
  with inv show ?thesis
    by (simp add: Let_def release_idem word_unat_eq_iff)
qed

theorem reservations_counter_exact_witness:
  "list_all released (guards (run_events reservation_step new_reservations
     [Reserve 5, Reserve 7, Release 0, Release 0, DropGuard 1]))
   \<and> counter (run_events reservation_step new_reservations
     [Reserve 5, Reserve 7, Release 0, Release 0, DropGuard 1]) = 0"
proof -
  have all: "list_all released (guards (run_events reservation_step new_reservations
     [Reserve 5, Reserve 7, Release 0, Release 0, DropGuard 1]))"
    by (simp add: reserve_def release_def drop_guard_def new_reservations_def word_checked_add_def)
  with reservations_counter_exact [of "[Reserve 5, Reserve 7, Release 0, Release 0, DropGuard 1]" 0]
  show ?thesis by (simp only: Let_def)
qed

end
