(* ===== verification/Sched_Fairness.thy ===== *)
theory Sched_Fairness
  imports OC_Prelude
begin

text \<open>
  The weighted deficit round-robin that shares execution permits between the
  scheduler pools (\<open>crates/service/src/scheduler/fairness.rs\<close>) and the pool names of
  \<open>crates/core/src/scheduler.rs\<close>. A Rust array indexed by \<open>kind.index()\<close> is a
  function of the kind; the cursor stays a number modulo the pool count.
\<close>

section \<open>Pools\<close>

datatype scheduler_kind = Alarm | Queue | Cron | Workflow

definition ALL_KINDS :: "scheduler_kind list" where
  "ALL_KINDS = [Alarm, Queue, Cron, Workflow]"

fun index :: "scheduler_kind \<Rightarrow> nat" where
  "index Alarm = 0"
| "index Queue = 1"
| "index Cron = 2"
| "index Workflow = 3"

definition as_str :: "scheduler_kind \<Rightarrow> string" where
  "as_str k = (case k of Alarm \<Rightarrow> ''do_alarm'' | Queue \<Rightarrow> ''queue''
                | Cron \<Rightarrow> ''cron'' | Workflow \<Rightarrow> ''workflow'')"

definition parse_kind :: "string \<Rightarrow> scheduler_kind option" where
  "parse_kind value = List.find (\<lambda>k. as_str k = value) ALL_KINDS"

definition POOL_COUNT :: nat where
  "POOL_COUNT = length ALL_KINDS"

definition kind_at :: "nat \<Rightarrow> scheduler_kind" where
  "kind_at i = ALL_KINDS ! i"

lemma POOL_COUNT_eq: "POOL_COUNT = 4"
  by (simp add: POOL_COUNT_def ALL_KINDS_def)

lemma in_ALL_KINDS [simp]: "k \<in> set ALL_KINDS"
  by (cases k) (simp_all add: ALL_KINDS_def)

lemma distinct_ALL_KINDS: "distinct ALL_KINDS"
  by (simp add: ALL_KINDS_def)

lemma UNIV_kind: "UNIV = {Alarm, Queue, Cron, Workflow}"
  by (auto intro: scheduler_kind.exhaust)

lemma finite_kinds [simp]: "finite (A :: scheduler_kind set)"
  using finite_subset [of A UNIV] by (simp add: UNIV_kind [symmetric]) (simp add: UNIV_kind)

lemma kind_at_index [simp]: "kind_at (index k) = k"
  by (cases k) (simp_all add: kind_at_def ALL_KINDS_def)

lemma index_kind_at: "i < POOL_COUNT \<Longrightarrow> index (kind_at i) = i"
proof -
  assume "i < POOL_COUNT"
  then consider "i = 0" | "i = 1" | "i = 2" | "i = 3"
    unfolding POOL_COUNT_eq by linarith
  then show ?thesis by cases (simp_all add: kind_at_def ALL_KINDS_def)
qed

lemma index_less: "index k < POOL_COUNT"
  by (cases k) (simp_all add: POOL_COUNT_eq)

section \<open>The selector\<close>

record fair_selector =
  cursor :: nat
  deficits :: "scheduler_kind \<Rightarrow> nat"
  weights :: "scheduler_kind \<Rightarrow> nat"

definition new_selector :: "(scheduler_kind \<Rightarrow> nat) \<Rightarrow> fair_selector" where
  "new_selector w = \<lparr>cursor = 0, deficits = (\<lambda>_. 0), weights = w\<rparr>"

definition runnable ::
  "(scheduler_kind \<Rightarrow> bool) \<Rightarrow> (scheduler_kind \<Rightarrow> nat) \<Rightarrow> scheduler_kind \<Rightarrow> bool" where
  "runnable ready permits k \<longleftrightarrow> ready k \<and> permits k > 0"

definition has_runnable :: "(scheduler_kind \<Rightarrow> bool) \<Rightarrow> (scheduler_kind \<Rightarrow> nat) \<Rightarrow> bool" where
  "has_runnable ready permits = list_ex (runnable ready permits) ALL_KINDS"

definition next_with_deficit ::
  "fair_selector \<Rightarrow> (scheduler_kind \<Rightarrow> bool) \<Rightarrow> (scheduler_kind \<Rightarrow> nat) \<Rightarrow> nat option" where
  "next_with_deficit s ready permits =
     List.find (\<lambda>i. runnable ready permits (kind_at i) \<and> deficits s (kind_at i) > 0)
       (map (\<lambda>offset. (cursor s + offset) mod POOL_COUNT) [0..<POOL_COUNT])"

definition replenish ::
  "(scheduler_kind \<Rightarrow> bool) \<Rightarrow> (scheduler_kind \<Rightarrow> nat) \<Rightarrow> fair_selector \<Rightarrow> fair_selector" where
  "replenish ready permits s =
     s\<lparr>deficits := (\<lambda>k. if runnable ready permits k
                         then saturating_add_u64 (deficits s k) (weights s k)
                         else deficits s k)\<rparr>"

text \<open>\<open>n\<close> is the number of global permits still to hand out.\<close>

fun select_loop ::
  "(scheduler_kind \<Rightarrow> bool) \<Rightarrow> (scheduler_kind \<Rightarrow> nat) \<Rightarrow> nat \<Rightarrow> fair_selector
    \<Rightarrow> fair_selector \<times> scheduler_kind list" where
  "select_loop ready permits 0 s = (s, [])"
| "select_loop ready permits (Suc n) s =
    (if \<not> has_runnable ready permits then (s, [])
     else
       let s1 = (if next_with_deficit s ready permits = None
                 then replenish ready permits s else s)
       in case next_with_deficit s1 ready permits of
            None \<Rightarrow> (s1, [])
          | Some i \<Rightarrow>
              let k = kind_at i;
                  s2 = s1\<lparr>deficits := (deficits s1)(k := deficits s1 k - 1),
                          cursor := (i + 1) mod POOL_COUNT\<rparr>;
                  (s3, ks) = select_loop ready (permits(k := permits k - 1)) n s2
              in (s3, k # ks))"

definition select ::
  "fair_selector \<Rightarrow> (scheduler_kind \<Rightarrow> bool) \<Rightarrow> (scheduler_kind \<Rightarrow> nat) \<Rightarrow> nat
    \<Rightarrow> fair_selector \<times> scheduler_kind list" where
  "select s ready permits global_permits = select_loop ready permits global_permits s"

definition refund :: "scheduler_kind \<Rightarrow> nat \<Rightarrow> fair_selector \<Rightarrow> fair_selector" where
  "refund k count s =
     s\<lparr>deficits := (deficits s)(k := saturating_add_u64 (deficits s k) count)\<rparr>"

section \<open>Facts about one round\<close>

lemma has_runnable_iff: "has_runnable ready permits \<longleftrightarrow> (\<exists>k. runnable ready permits k)"
  by (auto simp: has_runnable_def list_ex_iff)

lemma rotation_covers:
  "\<exists>offset < POOL_COUNT. kind_at ((c + offset) mod POOL_COUNT) = k"
proof -
  let ?o = "(index k + (POOL_COUNT - c mod POOL_COUNT)) mod POOL_COUNT"
  have "(c + ?o) mod POOL_COUNT = (c mod POOL_COUNT + (index k + (POOL_COUNT - c mod POOL_COUNT))) mod POOL_COUNT"
    by (simp add: mod_simps)
  also have "c mod POOL_COUNT + (index k + (POOL_COUNT - c mod POOL_COUNT)) = index k + POOL_COUNT"
    using mod_less_divisor [of POOL_COUNT c] by (simp add: POOL_COUNT_eq)
  also have "(index k + POOL_COUNT) mod POOL_COUNT = index k"
    using index_less [of k] by simp
  finally have "kind_at ((c + ?o) mod POOL_COUNT) = k" by simp
  moreover have "?o < POOL_COUNT" by (simp add: POOL_COUNT_eq)
  ultimately show ?thesis by blast
qed

lemma next_with_deficit_None:
  "next_with_deficit s ready permits = None \<longleftrightarrow>
     (\<forall>k. runnable ready permits k \<longrightarrow> deficits s k = 0)"
proof
  assume none: "next_with_deficit s ready permits = None"
  show "\<forall>k. runnable ready permits k \<longrightarrow> deficits s k = 0"
  proof (intro allI impI)
    fix k assume "runnable ready permits k"
    obtain offset where "offset < POOL_COUNT" "kind_at ((cursor s + offset) mod POOL_COUNT) = k"
      using rotation_covers by blast
    with none \<open>runnable ready permits k\<close> show "deficits s k = 0"
      unfolding next_with_deficit_def find_None_iff by auto
  qed
next
  assume "\<forall>k. runnable ready permits k \<longrightarrow> deficits s k = 0"
  then show "next_with_deficit s ready permits = None"
    unfolding next_with_deficit_def find_None_iff by auto
qed

lemma next_with_deficit_Some:
  "next_with_deficit s ready permits = Some i \<Longrightarrow>
     i < POOL_COUNT \<and> runnable ready permits (kind_at i) \<and> deficits s (kind_at i) > 0"
  unfolding next_with_deficit_def find_Some_iff
  by (auto simp: POOL_COUNT_eq)

lemma replenish_simps [simp]:
  "cursor (replenish ready permits s) = cursor s"
  "weights (replenish ready permits s) = weights s"
  by (simp_all add: replenish_def)

lemma replenish_gives_deficit:
  assumes "runnable ready permits k" and "weights s k > 0"
  shows "deficits (replenish ready permits s) k > 0"
  using assms by (simp add: replenish_def saturating_add_u64_def u64_max_def)

text \<open>
  One iteration of the loop, as the clients of the selector see it: it stops with
  nothing runnable, or it serves a runnable pool and charges one deficit.
\<close>

definition served :: "fair_selector \<Rightarrow> nat \<Rightarrow> fair_selector" where
  "served s i = s\<lparr>deficits := (deficits s)(kind_at i := deficits s (kind_at i) - 1),
                  cursor := (i + 1) mod POOL_COUNT\<rparr>"

definition topped_up ::
  "(scheduler_kind \<Rightarrow> bool) \<Rightarrow> (scheduler_kind \<Rightarrow> nat) \<Rightarrow> fair_selector \<Rightarrow> fair_selector" where
  "topped_up ready permits s =
     (if next_with_deficit s ready permits = None then replenish ready permits s else s)"

definition take_permit ::
  "(scheduler_kind \<Rightarrow> nat) \<Rightarrow> nat \<Rightarrow> scheduler_kind \<Rightarrow> nat" where
  "take_permit permits i = permits(kind_at i := permits (kind_at i) - 1)"

definition positive_weights :: "fair_selector \<Rightarrow> bool" where
  "positive_weights s \<longleftrightarrow> list_all (\<lambda>k. weights s k > 0) ALL_KINDS"

lemma positive_weightsD: "positive_weights s \<Longrightarrow> weights s k > 0"
  by (simp add: positive_weights_def list_all_iff)

lemma topped_up_simps [simp]:
  "cursor (topped_up ready permits s) = cursor s"
  "weights (topped_up ready permits s) = weights s"
  by (simp_all add: topped_up_def)

lemma served_simps [simp]:
  "cursor (served s i) = (i + 1) mod POOL_COUNT"
  "weights (served s i) = weights s"
  "k \<noteq> kind_at i \<Longrightarrow> deficits (served s i) k = deficits s k"
  by (simp_all add: served_def)

lemma take_permit_other [simp]: "k \<noteq> kind_at i \<Longrightarrow> take_permit permits i k = permits k"
  by (simp add: take_permit_def)

lemma positive_weights_step [simp]:
  "positive_weights (served (topped_up ready permits s) i) = positive_weights s"
  by (simp add: positive_weights_def)

lemma topped_up_has_next:
  assumes "has_runnable ready permits" and "positive_weights s"
  obtains i where "next_with_deficit (topped_up ready permits s) ready permits = Some i"
    and "i < POOL_COUNT" and "runnable ready permits (kind_at i)"
    and "deficits (topped_up ready permits s) (kind_at i) > 0"
proof (cases "next_with_deficit (topped_up ready permits s) ready permits")
  case None
  obtain k where k: "runnable ready permits k"
    using assms(1) has_runnable_iff by blast
  have "deficits (topped_up ready permits s) k > 0"
  proof (cases "next_with_deficit s ready permits = None")
    case True
    then show ?thesis
      using replenish_gives_deficit [OF k] positive_weightsD [OF assms(2)]
      by (simp add: topped_up_def)
  next
    case False
    with None show ?thesis by (simp add: topped_up_def)
  qed
  with None k show thesis by (simp add: next_with_deficit_None)
next
  case (Some i)
  then show thesis using next_with_deficit_Some [OF Some] that by blast
qed

lemma select_loop_step:
  assumes "has_runnable ready permits"
    and "next_with_deficit (topped_up ready permits s) ready permits = Some i"
  shows "select_loop ready permits (Suc n) s =
    (let (s3, ks) = select_loop ready (take_permit permits i) n
                      (served (topped_up ready permits s) i)
     in (s3, kind_at i # ks))"
  using assms by (simp add: topped_up_def [symmetric] served_def take_permit_def Let_def)

text \<open>
  The induction every claim about the loop uses: with positive weights each
  iteration either finds nothing runnable or serves one pool.
\<close>

lemma select_loop_induct [consumes 1, case_names Done Idle Serve]:
  assumes "positive_weights s"
    and "\<And>permits s. positive_weights s \<Longrightarrow> P permits (0::nat) s"
    and "\<And>permits n s. positive_weights s \<Longrightarrow> \<not> has_runnable ready permits \<Longrightarrow> P permits (Suc n) s"
    and "\<And>permits n s i. positive_weights s \<Longrightarrow> has_runnable ready permits
       \<Longrightarrow> next_with_deficit (topped_up ready permits s) ready permits = Some i
       \<Longrightarrow> runnable ready permits (kind_at i)
       \<Longrightarrow> deficits (topped_up ready permits s) (kind_at i) > 0
       \<Longrightarrow> P (take_permit permits i) n (served (topped_up ready permits s) i)
       \<Longrightarrow> P permits (Suc n) s"
  shows "P permits n s"
  using assms(1)
proof (induction n arbitrary: permits s)
  case 0
  then show ?case by (rule assms(2))
next
  case (Suc n)
  show ?case
  proof (cases "has_runnable ready permits")
    case False
    with Suc.prems show ?thesis by (rule assms(3))
  next
    case True
    from True Suc.prems obtain i
      where i: "next_with_deficit (topped_up ready permits s) ready permits = Some i"
        "runnable ready permits (kind_at i)"
        "deficits (topped_up ready permits s) (kind_at i) > 0"
      by (rule topped_up_has_next)
    have "P (take_permit permits i) n (served (topped_up ready permits s) i)"
      by (rule Suc.IH) (simp add: Suc.prems)
    with Suc.prems True i show ?thesis by (blast intro: assms(4))
  qed
qed

lemma snd_select_loop_step:
  assumes "has_runnable ready permits"
    and "next_with_deficit (topped_up ready permits s) ready permits = Some i"
  shows "snd (select_loop ready permits (Suc n) s) =
    kind_at i # snd (select_loop ready (take_permit permits i) n
                       (served (topped_up ready permits s) i))"
  by (simp only: select_loop_step [OF assms]) (simp add: split_beta)

lemma snd_select_loop_idle:
  "\<not> has_runnable ready permits \<Longrightarrow> snd (select_loop ready permits (Suc n) s) = []"
  by simp

lemmas select_loop_cases = snd_select_loop_step snd_select_loop_idle

section \<open>Permits\<close>

definition usable_permits ::
  "(scheduler_kind \<Rightarrow> bool) \<Rightarrow> (scheduler_kind \<Rightarrow> nat) \<Rightarrow> nat" where
  "usable_permits ready permits =
     sum_list (map (\<lambda>k. if ready k then permits k else 0) ALL_KINDS)"

lemma usable_permits_idle: "\<not> has_runnable ready permits \<Longrightarrow> usable_permits ready permits = 0"
  by (auto simp: has_runnable_iff runnable_def usable_permits_def)

lemma usable_permits_take:
  assumes "runnable ready permits (kind_at i)"
  shows "usable_permits ready permits = Suc (usable_permits ready (take_permit permits i))"
  using assms
  by (cases "kind_at i") (auto simp: usable_permits_def take_permit_def runnable_def ALL_KINDS_def)

text \<open>
  C22. The selector is work-conserving: with positive weights it hands out exactly
  as many permits as the global limit and the permits of the ready pools allow.
\<close>

theorem select_work_conserving:
  assumes "positive_weights s"
  shows "length (snd (select s ready permits global_permits)) =
           min global_permits (usable_permits ready permits)"
  unfolding select_def using assms
proof (induction permits global_permits s rule: select_loop_induct [where ready = ready])
  case (Done permits s)
  then show ?case by simp
next
  case (Idle permits n s)
  then show ?case by (simp add: usable_permits_idle)
next
  case (Serve permits n s i)
  then show ?case
    by (simp add: select_loop_cases usable_permits_take del: select_loop.simps)
qed

theorem select_work_conserving_witness:
  "positive_weights (new_selector (\<lambda>_. 2)) \<and>
   length (snd (select (new_selector (\<lambda>_. 2)) (\<lambda>k. k \<noteq> Cron) (\<lambda>_. 3) 8)) = 8"
proof -
  have w: "positive_weights (new_selector (\<lambda>_. 2))"
    by (simp add: positive_weights_def new_selector_def ALL_KINDS_def)
  show ?thesis
    using select_work_conserving [OF w, of "\<lambda>k. k \<noteq> Cron" "\<lambda>_. 3" 8] w
    by (simp add: usable_permits_def ALL_KINDS_def)
qed

lemma select_within_permits:
  "count_list (snd (select s ready permits global_permits)) k
     \<le> (if ready k then permits k else 0)
   \<and> length (snd (select s ready permits global_permits)) \<le> global_permits"
  unfolding select_def
proof (induction global_permits arbitrary: permits s)
  case 0
  then show ?case by simp
next
  case (Suc n)
  show ?case
  proof (cases "has_runnable ready permits")
    case False
    then show ?thesis by simp
  next
    case True
    show ?thesis
    proof (cases "next_with_deficit (topped_up ready permits s) ready permits")
      case None
      then show ?thesis by (simp add: topped_up_def [symmetric])
    next
      case (Some i)
      have run: "runnable ready permits (kind_at i)"
        using next_with_deficit_Some [OF Some] by blast
      have left: "(if ready k then permits k else 0) =
          (if kind_at i = k then 1 else 0) + (if ready k then take_permit permits i k else 0)"
        using run by (auto simp: take_permit_def runnable_def)
      show ?thesis
        using Suc.IH [of "take_permit permits i" "served (topped_up ready permits s) i"]
        by (simp only: snd_select_loop_step [OF True Some] left count_list.simps list.size)
          simp
    qed
  qed
qed

lemma weights_select_loop [simp]:
  "weights (fst (select_loop ready permits n s)) = weights s"
proof (induction n arbitrary: permits s)
  case (Suc n)
  then show ?case
    by (simp add: Let_def split_beta split: option.split)
qed simp

lemma positive_weights_select [simp]:
  "positive_weights (fst (select s ready permits n)) = positive_weights s"
  by (simp add: select_def positive_weights_def)

lemma sum_count_kinds: "sum_list (map (count_list xs) ALL_KINDS) = length xs"
proof (induction xs)
  case (Cons x xs)
  then show ?case by (cases x) (simp_all add: ALL_KINDS_def)
qed (simp add: ALL_KINDS_def)

text \<open>
  The selector never exceeds a limit: a pool is chosen at most as often as it
  has permits, never when it is not ready, and never more often in total than
  the global limit, whatever the weights.
\<close>

theorem select_respects_permits:
  "count_list (snd (select s ready permits global_permits)) k
     \<le> (if ready k then permits k else 0)
   \<and> length (snd (select s ready permits global_permits)) \<le> global_permits"
  by (rule select_within_permits)

section \<open>No pool starves\<close>

definition others :: "scheduler_kind \<Rightarrow> (scheduler_kind \<Rightarrow> nat) \<Rightarrow> nat" where
  "others k f = sum_list (map f (filter (\<lambda>j. j \<noteq> k) ALL_KINDS))"

lemma others_mono: "(\<And>j. f j \<le> g j) \<Longrightarrow> others k f \<le> others k g"
  unfolding others_def by (rule sum_list_mono)

lemma others_add: "others k (\<lambda>j. f j + g j) = others k f + others k g"
  by (simp add: others_def sum_list_addf)

lemma others_decrement: "j \<noteq> k \<Longrightarrow> f j > 0 \<Longrightarrow> others k f = Suc (others k (f(j := f j - 1)))"
  by (cases j; cases k) (simp_all add: others_def ALL_KINDS_def)

lemma select_loop_serves_funded:
  assumes "positive_weights s" "ready k" "permits k > 0"
    and "deficits s k > 0" "n > others k (deficits s)"
  shows "k \<in> set (snd (select_loop ready permits n s))"
  using assms
proof (induction permits n s rule: select_loop_induct [where ready = ready])
  case (Done permits s)
  then show ?case by simp
next
  case (Idle permits n s)
  then show ?case by (auto simp: has_runnable_iff runnable_def)
next
  case (Serve permits n s i)
  have "next_with_deficit s ready permits \<noteq> None"
    using Serve.prems by (auto simp: next_with_deficit_None runnable_def)
  then have same: "topped_up ready permits s = s" by (auto simp: topped_up_def)
  show ?case
  proof (cases "kind_at i = k")
    case True
    with Serve.hyps show ?thesis by (simp add: snd_select_loop_step del: select_loop.simps)
  next
    case False
    have "others k (deficits s) = Suc (others k (deficits (served s i)))"
      using others_decrement [of "kind_at i" k "deficits s"] False Serve.hyps same
      by (simp add: served_def)
    then have "k \<in> set (snd (select_loop ready (take_permit permits i) n (served s i)))"
      using Serve.IH Serve.prems False same by simp
    with Serve.hyps same show ?thesis
      by (simp add: snd_select_loop_step del: select_loop.simps)
  qed
qed

lemma deficits_topped_up_le:
  "deficits (topped_up ready permits s) j \<le> deficits s j + weights s j"
  by (simp add: topped_up_def replenish_def saturating_add_u64_def)

text \<open>
  C21. No starvation: a ready pool with a permit is served within a number of
  global permits that depends only on the deficits and weights of the other
  pools, however many permits those pools have.
\<close>

theorem select_no_starvation:
  assumes "positive_weights s" "ready k" "permits k > 0"
    and "global_permits > others k (\<lambda>j. deficits s j + weights s j)"
  shows "k \<in> set (snd (select s ready permits global_permits))"
  using assms unfolding select_def others_add
proof (induction permits global_permits s rule: select_loop_induct [where ready = ready])
  case (Done permits s)
  then show ?case by simp
next
  case (Idle permits n s)
  then show ?case by (auto simp: has_runnable_iff runnable_def)
next
  case (Serve permits n s i)
  let ?t = "topped_up ready permits s"
  have step: "snd (select_loop ready permits (Suc n) s) =
      kind_at i # snd (select_loop ready (take_permit permits i) n (served ?t i))"
    by (rule snd_select_loop_step [OF Serve.hyps(2,3)])
  show ?case
  proof (cases "deficits ?t k > 0")
    case True
    have "others k (deficits ?t) \<le> others k (deficits s) + others k (weights s)"
      unfolding others_add [symmetric] by (rule others_mono) (rule deficits_topped_up_le)
    moreover have "positive_weights ?t"
      using Serve.hyps(1) by (simp add: positive_weights_def)
    ultimately have "k \<in> set (snd (select_loop ready permits (Suc n) ?t))"
      using Serve.prems True by (intro select_loop_serves_funded) auto
    moreover have "topped_up ready permits ?t = ?t"
      using Serve.hyps(3) by (simp add: topped_up_def)
    ultimately show ?thesis
      using Serve.hyps(2,3) step by (simp add: snd_select_loop_step del: select_loop.simps)
  next
    case False
    with Serve.prems have "next_with_deficit s ready permits \<noteq> None"
      using replenish_gives_deficit [of ready permits k s] positive_weightsD [OF Serve.hyps(1)]
      by (auto simp: topped_up_def runnable_def split: if_splits)
    then have same: "?t = s" by (auto simp: topped_up_def)
    have ne: "kind_at i \<noteq> k" using False Serve.hyps(5) by auto
    then have "others k (deficits s) = Suc (others k (deficits (served s i)))"
      using others_decrement [of "kind_at i" k "deficits s"] Serve.hyps(5) same
      by (simp add: served_def)
    then have "k \<in> set (snd (select_loop ready (take_permit permits i) n (served ?t i)))"
      using Serve.IH Serve.prems ne same by simp
    then show ?thesis by (simp only: step) simp
  qed
qed

theorem select_no_starvation_witness:
  "Workflow \<in> set (snd (select (new_selector (\<lambda>_. 1)) (\<lambda>_. True) (\<lambda>_. 1000) 4))"
  by (rule select_no_starvation)
    (simp_all add: new_selector_def positive_weights_def others_def ALL_KINDS_def)

end
