(* ===== verification/Sched_Kernel.thy ===== *)
theory Sched_Kernel
  imports Sched_Fairness
begin

unbundle bit_operations_syntax

text \<open>
  The bookkeeping of the scheduler kernel (\<open>crates/service/src/scheduler/kernel.rs\<close>):
  in-flight admission, infrastructure backoff with deterministic jitter, and the
  failure state of one pool; with the pool policies of
  \<open>crates/core/src/config/scheduler.rs\<close>. A \<open>Duration\<close> is its number of nanoseconds,
  an \<open>Instant\<close> the nanoseconds since an arbitrary origin.
\<close>

section \<open>Policy\<close>

record scheduler_pool_config =
  enabled :: bool
  max_in_flight :: nat
  claim_batch :: nat
  weight :: nat

definition validate_pool :: "scheduler_pool_config \<Rightarrow> bool" where
  "validate_pool p \<longleftrightarrow>
     max_in_flight p > 0 \<and> max_in_flight p \<le> 4096
     \<and> claim_batch p > 0 \<and> claim_batch p \<le> 10000
     \<and> weight p > 0 \<and> weight p \<le> 1024"

definition default_pools :: "scheduler_kind \<Rightarrow> scheduler_pool_config" where
  "default_pools k = (case k of
     Alarm \<Rightarrow> \<lparr>enabled = True, max_in_flight = 16, claim_batch = 32, weight = 1\<rparr>
   | Queue \<Rightarrow> \<lparr>enabled = True, max_in_flight = 32, claim_batch = 32, weight = 1\<rparr>
   | Cron \<Rightarrow> \<lparr>enabled = True, max_in_flight = 8, claim_batch = 8, weight = 1\<rparr>
   | Workflow \<Rightarrow> \<lparr>enabled = True, max_in_flight = 16, claim_batch = 16, weight = 1\<rparr>)"

record scheduler_config =
  poll_interval_ms :: nat
  global_max_in_flight :: nat
  claim_lease_ms :: nat
  dispatch_timeout_ms :: nat
  lease_guard_ms :: nat
  repair_batch :: nat
  repair_interval_ms :: nat
  shutdown_drain_ms :: nat
  cron_misfire_grace_ms :: nat
  cron_max_retries :: nat
  cron_history_limit :: nat
  cron_history_retention_ms :: nat
  pool_config :: "scheduler_kind \<Rightarrow> scheduler_pool_config"

definition default_config :: scheduler_config where
  "default_config = \<lparr>poll_interval_ms = 100, global_max_in_flight = 16, claim_lease_ms = 60000,
     dispatch_timeout_ms = 30000, lease_guard_ms = 5000, repair_batch = 100,
     repair_interval_ms = 30000, shutdown_drain_ms = 10000, cron_misfire_grace_ms = 300000,
     cron_max_retries = 3, cron_history_limit = 100,
     cron_history_retention_ms = 7 * 24 * 60 * 60 * 1000, pool_config = default_pools\<rparr>"

definition validate_config :: "scheduler_config \<Rightarrow> unit result" where
  "validate_config c =
    (case checked_add_u64 (dispatch_timeout_ms c) (lease_guard_ms c) of
       None \<Rightarrow> Inl LimitInvalid
     | Some guarded_timeout \<Rightarrow>
         if poll_interval_ms c = 0 \<or> poll_interval_ms c > 60000
            \<or> global_max_in_flight c = 0 \<or> global_max_in_flight c > 4096
            \<or> dispatch_timeout_ms c = 0 \<or> dispatch_timeout_ms c > 5 * 60 * 1000
            \<or> lease_guard_ms c = 0
            \<or> claim_lease_ms c < guarded_timeout \<or> claim_lease_ms c > 15 * 60 * 1000
            \<or> repair_batch c = 0 \<or> repair_batch c > 10000
            \<or> repair_interval_ms c = 0 \<or> repair_interval_ms c > 24 * 60 * 60 * 1000
            \<or> shutdown_drain_ms c > 5 * 60 * 1000
            \<or> cron_misfire_grace_ms c > 24 * 60 * 60 * 1000
            \<or> cron_max_retries c > 3
            \<or> cron_history_limit c = 0 \<or> cron_history_limit c > 10000
            \<or> cron_history_retention_ms c = 0
            \<or> cron_history_retention_ms c > 365 * 24 * 60 * 60 * 1000
         then Inl LimitInvalid
         else if \<not> list_all validate_pool
                  [pool_config c Alarm, pool_config c Queue, pool_config c Cron,
                   pool_config c Workflow]
         then Inl LimitInvalid
         else Inr ())"

section \<open>Admission of dispatches\<close>

record admission_tracker =
  global_cap :: nat
  pool_caps :: "scheduler_kind \<Rightarrow> nat"
  global_in_flight :: nat
  pool_in_flight :: "scheduler_kind \<Rightarrow> nat"

definition new_tracker :: "nat \<Rightarrow> (scheduler_kind \<Rightarrow> nat) \<Rightarrow> admission_tracker" where
  "new_tracker g caps =
     \<lparr>global_cap = g, pool_caps = caps, global_in_flight = 0, pool_in_flight = (\<lambda>_. 0)\<rparr>"

definition available_global :: "admission_tracker \<Rightarrow> nat" where
  "available_global t = global_cap t - global_in_flight t"

definition available_pools :: "admission_tracker \<Rightarrow> scheduler_kind \<Rightarrow> nat" where
  "available_pools t k = pool_caps t k - pool_in_flight t k"

definition tracker_reserve ::
  "scheduler_kind \<Rightarrow> nat \<Rightarrow> admission_tracker \<Rightarrow> bool \<times> admission_tracker" where
  "tracker_reserve k count t =
    (if count > available_global t \<or> count > pool_caps t k - pool_in_flight t k then (False, t)
     else (True, t\<lparr>global_in_flight := saturating_add_u64 (global_in_flight t) count,
                   pool_in_flight := (pool_in_flight t)
                     (k := saturating_add_u64 (pool_in_flight t k) count)\<rparr>))"

definition tracker_release :: "scheduler_kind \<Rightarrow> nat \<Rightarrow> admission_tracker \<Rightarrow> admission_tracker" where
  "tracker_release k count t =
     t\<lparr>global_in_flight := global_in_flight t - count,
       pool_in_flight := (pool_in_flight t)(k := pool_in_flight t k - count)\<rparr>"

text \<open>The caps come from 32-bit settings, so the saturating additions are exact.\<close>

definition tracker_inv :: "admission_tracker \<Rightarrow> bool" where
  "tracker_inv t \<longleftrightarrow>
     global_cap t \<le> u64_max \<and> list_all (\<lambda>k. pool_caps t k \<le> u64_max) ALL_KINDS
     \<and> global_in_flight t \<le> global_cap t
     \<and> list_all (\<lambda>k. pool_in_flight t k \<le> pool_caps t k) ALL_KINDS
     \<and> global_in_flight t = sum_list (map (pool_in_flight t) ALL_KINDS)"

lemma tracker_invD:
  assumes "tracker_inv t"
  shows "pool_in_flight t k \<le> pool_caps t k" "pool_caps t k \<le> u64_max"
    "global_in_flight t \<le> global_cap t" "global_cap t \<le> u64_max"
  using assms by (simp_all add: tracker_inv_def list_all_iff)

lemma pool_le_global: "tracker_inv t \<Longrightarrow> pool_in_flight t k \<le> global_in_flight t"
  by (cases k) (simp_all add: tracker_inv_def ALL_KINDS_def)

lemma sum_kinds_update:
  "sum_list (map (f(k := v)) ALL_KINDS) + f k = sum_list (map f ALL_KINDS) + (v :: nat)"
  by (cases k) (simp_all add: ALL_KINDS_def)

lemma tracker_reserve_iff:
  "fst (tracker_reserve k n t) \<longleftrightarrow> n \<le> available_global t \<and> n \<le> available_pools t k"
  by (auto simp: tracker_reserve_def available_pools_def)

lemma tracker_reserve_exact:
  assumes "tracker_inv t" and "fst (tracker_reserve k n t)"
  shows "snd (tracker_reserve k n t) =
    t\<lparr>global_in_flight := global_in_flight t + n,
      pool_in_flight := (pool_in_flight t)(k := pool_in_flight t k + n)\<rparr>"
proof -
  from assms(2) have "n \<le> global_cap t - global_in_flight t" "n \<le> pool_caps t k - pool_in_flight t k"
    by (simp_all add: tracker_reserve_iff available_global_def available_pools_def)
  then have "global_in_flight t + n \<le> u64_max" "pool_in_flight t k + n \<le> u64_max"
    using tracker_invD(1,2) [OF assms(1), of k] tracker_invD(3,4) [OF assms(1)] by linarith+
  with assms(2) show ?thesis
    by (simp add: tracker_reserve_def saturating_add_u64_def min_def split: if_splits)
qed

lemma tracker_reserve_inv:
  assumes "tracker_inv t" and ok: "fst (tracker_reserve k n t)"
  shows "tracker_inv (snd (tracker_reserve k n t))"
proof -
  have "n \<le> global_cap t - global_in_flight t" "n \<le> pool_caps t k - pool_in_flight t k"
    using ok by (simp_all add: tracker_reserve_iff available_global_def available_pools_def)
  then have le: "global_in_flight t + n \<le> global_cap t" "pool_in_flight t k + n \<le> pool_caps t k"
    using tracker_invD(1) [OF assms(1), of k] tracker_invD(3) [OF assms(1)] by linarith+
  show ?thesis
    using assms(1) le
      sum_kinds_update [of "pool_in_flight t" k "pool_in_flight t k + n"]
    by (auto simp: tracker_reserve_exact [OF assms] tracker_inv_def list_all_iff)
qed

lemma tracker_release_inv:
  assumes "tracker_inv t" and "n \<le> pool_in_flight t k"
  shows "tracker_inv (tracker_release k n t)"
  using assms pool_le_global [OF assms(1), of k]
    sum_kinds_update [of "pool_in_flight t" k "pool_in_flight t k - n"]
  by (auto simp: tracker_release_def tracker_inv_def list_all_iff intro: le_trans [OF diff_le_self])

section \<open>Infrastructure backoff\<close>

definition ns_per_ms :: nat where "ns_per_ms = 1000000"
definition duration_max :: nat where
  "duration_max = 18446744073709551615 * 1000000000 + 999999999"

definition from_millis :: "nat \<Rightarrow> nat" where "from_millis ms = ms * ns_per_ms"
definition as_millis :: "nat \<Rightarrow> nat" where "as_millis d = d div ns_per_ms"

record infrastructure_backoff =
  boot_seed :: u64
  attempts :: "scheduler_kind \<Rightarrow> nat"
  base :: nat
  cap :: nat

definition new_backoff :: "u64 \<Rightarrow> nat \<Rightarrow> nat \<Rightarrow> infrastructure_backoff" where
  "new_backoff seed b c = \<lparr>boot_seed = seed, attempts = (\<lambda>_. 0), base = b, cap = c\<rparr>"

definition stable_mix :: "u64 \<Rightarrow> u64" where
  "stable_mix v0 =
    (let v1 = v0 XOR drop_bit 30 v0;
         v2 = v1 * 0xbf58476d1ce4e5b9;
         v3 = v2 XOR drop_bit 27 v2;
         v4 = v3 * 0x94d049bb133111eb
     in v4 XOR drop_bit 31 v4)"

definition fail_exponential :: "infrastructure_backoff \<Rightarrow> nat \<Rightarrow> nat" where
  "fail_exponential b attempt =
    (let exponent = min attempt 31; factor = 2 ^ exponent
     in min (min (base b * factor) duration_max) (cap b))"

definition fail_jitter_ms ::
  "infrastructure_backoff \<Rightarrow> scheduler_kind \<Rightarrow> u64 \<Rightarrow> nat \<Rightarrow> nat" where
  "fail_jitter_ms b k error_class attempt =
    (let jitter_bound = max (fail_exponential b attempt div 4) (from_millis 1);
         mixed = stable_mix (boot_seed b XOR push_bit 48 (word_of_nat (index k))
                   XOR push_bit 16 error_class XOR word_of_nat attempt)
     in unat mixed mod max (min (as_millis jitter_bound) u64_max) 1)"

definition fail ::
  "scheduler_kind \<Rightarrow> u64 \<Rightarrow> infrastructure_backoff \<Rightarrow> nat \<times> infrastructure_backoff" where
  "fail k error_class b =
    (let attempt = attempts b k;
         b' = b\<lparr>attempts := (attempts b)(k := saturating_add_u32 attempt 1)\<rparr>;
         exponential = fail_exponential b attempt;
         jitter_ms = fail_jitter_ms b k error_class attempt
     in (min (min (exponential + from_millis jitter_ms) duration_max) (cap b), b'))"

definition reset :: "scheduler_kind \<Rightarrow> infrastructure_backoff \<Rightarrow> infrastructure_backoff" where
  "reset k b = b\<lparr>attempts := (attempts b)(k := 0)\<rparr>"

text \<open>The jitter is less than a quarter of the exponential part, or nothing.\<close>

lemma fail_jitter_bound:
  "from_millis (fail_jitter_ms b k c a) \<le> fail_exponential b a div 4"
proof -
  let ?e = "fail_exponential b a"
  let ?m = "as_millis (max (?e div 4) (from_millis 1))"
  have j: "fail_jitter_ms b k c a < max (min ?m u64_max) 1"
    unfolding fail_jitter_ms_def Let_def by (rule mod_less_divisor) simp
  show ?thesis
  proof (cases "from_millis 1 \<le> ?e div 4")
    case True
    then have m: "?m = ?e div 4 div ns_per_ms"
      by (simp add: as_millis_def max_def)
    with True have "1 \<le> ?m"
      by (simp add: from_millis_def ns_per_ms_def)
    with j have "fail_jitter_ms b k c a \<le> ?e div 4 div ns_per_ms"
      unfolding m by simp
    then have "fail_jitter_ms b k c a * ns_per_ms \<le> ?e div 4 div ns_per_ms * ns_per_ms"
      by (rule mult_le_mono1)
    also have "\<dots> \<le> ?e div 4" by simp
    finally show ?thesis by (simp add: from_millis_def)
  next
    case False
    then have "?m \<le> 1"
      by (simp add: as_millis_def max_def from_millis_def ns_per_ms_def)
    with j have "fail_jitter_ms b k c a = 0" by simp
    then show ?thesis by (simp add: from_millis_def)
  qed
qed

lemma fail_delay_bounds:
  "fail_exponential b (attempts b k) \<le> fst (fail k c b)"
  "fst (fail k c b) \<le> cap b"
  "fst (fail k c b) \<le> 2 * fail_exponential b (attempts b k)"
proof -
  let ?e = "fail_exponential b (attempts b k)"
  have e: "?e \<le> duration_max" "?e \<le> cap b"
    by (simp_all add: fail_exponential_def Let_def)
  show "?e \<le> fst (fail k c b)" "fst (fail k c b) \<le> cap b"
    using e by (simp_all add: fail_def Let_def)
  have "from_millis (fail_jitter_ms b k c (attempts b k)) \<le> ?e"
    using fail_jitter_bound [of b k c "attempts b k"] by simp
  then show "fst (fail k c b) \<le> 2 * ?e"
    by (simp add: fail_def Let_def)
qed

lemma fail_exponential_step:
  assumes "cap b \<le> base b * 2 ^ 31" "cap b \<le> duration_max"
  shows "min (2 * fail_exponential b a) (cap b) \<le> fail_exponential b (Suc a)"
    and "a \<ge> 31 \<Longrightarrow> fail_exponential b a = cap b"
proof -
  show top: "a \<ge> 31 \<Longrightarrow> fail_exponential b a = cap b" for a
    using assms by (simp add: fail_exponential_def Let_def min_def)
  show "min (2 * fail_exponential b a) (cap b) \<le> fail_exponential b (Suc a)"
  proof (cases "a \<ge> 31")
    case True
    then show ?thesis using top [of "Suc a"] by simp
  next
    case False
    with assms(2) show ?thesis
      by (auto simp: fail_exponential_def Let_def min_def)
  qed
qed

lemma fail_attempts [simp]:
  "attempts (snd (fail k c b)) k = saturating_add_u32 (attempts b k) 1"
  "j \<noteq> k \<Longrightarrow> attempts (snd (fail k c b)) j = attempts b j"
  "base (snd (fail k c b)) = base b" "cap (snd (fail k c b)) = cap b"
  "boot_seed (snd (fail k c b)) = boot_seed b"
  by (simp_all add: fail_def Let_def)

lemma fail_exponential_cong:
  "base b = base b' \<Longrightarrow> cap b = cap b' \<Longrightarrow> fail_exponential b a = fail_exponential b' a"
  by (simp add: fail_exponential_def)

text \<open>
  C23. Infrastructure backoff stays within its cap, is never below the exponential
  schedule, and consecutive failures of a pool never shorten the wait, whatever
  error classes they report; the jitter cannot reorder the delays.
\<close>

theorem backoff_capped_and_nondecreasing:
  assumes "cap b \<le> base b * 2 ^ 31" "cap b \<le> duration_max"
  shows "fst (fail k c b) \<le> cap b
    \<and> fail_exponential b (attempts b k) \<le> fst (fail k c b)
    \<and> fst (fail k c b) \<le> fst (fail k c' (snd (fail k c b)))"
proof -
  let ?b' = "snd (fail k c b)" and ?a = "attempts b k"
  have next_a: "attempts ?b' k = saturating_add_u32 ?a 1" by simp
  have same: "fail_exponential ?b' x = fail_exponential b x" for x
    by (rule fail_exponential_cong) simp_all
  have "fst (fail k c b) \<le> fail_exponential b (attempts ?b' k)"
  proof (cases "?a < 31")
    case True
    then have "attempts ?b' k = Suc ?a"
      by (simp add: saturating_add_u32_def u32_max_def)
    then show ?thesis
      using fail_exponential_step(1) [OF assms, of ?a] fail_delay_bounds(2,3) [of k c b]
      by (simp del: fail_attempts)
  next
    case False
    then have "attempts ?b' k \<ge> 31"
      by (simp add: saturating_add_u32_def u32_max_def)
    then show ?thesis
      using fail_exponential_step(2) [OF assms] fail_delay_bounds(2) [of k c b] by simp
  qed
  also have "\<dots> \<le> fst (fail k c' ?b')"
    using fail_delay_bounds(1) [of ?b' k c'] by (simp only: same)
  finally show ?thesis
    using fail_delay_bounds(1) [of b k c] fail_delay_bounds(2) [of k c b] by blast
qed

theorem backoff_capped_and_nondecreasing_witness:
  "let b = new_backoff 7 (from_millis 25) (from_millis 5000)
   in fst (fail Queue 2 b) \<le> fst (fail Queue 4 (snd (fail Queue 2 b)))"
  unfolding Let_def
  using backoff_capped_and_nondecreasing
    [of "new_backoff 7 (from_millis 25) (from_millis 5000)" Queue 2 4]
  by (simp add: new_backoff_def from_millis_def ns_per_ms_def duration_max_def)

section \<open>Pool failure state\<close>

datatype scheduler_pool_state = Ready | Paused | Backoff | CircuitOpen | Disabled

record pool_runtime =
  state :: scheduler_pool_state
  retry_at :: "nat option"

definition ready_pool :: pool_runtime where
  "ready_pool = \<lparr>state = Ready, retry_at = None\<rparr>"

definition transient_failure :: "nat \<Rightarrow> pool_runtime \<Rightarrow> pool_runtime" where
  "transient_failure at p = p\<lparr>state := Backoff, retry_at := Some at\<rparr>"

definition permanent_failure :: "pool_runtime \<Rightarrow> pool_runtime" where
  "permanent_failure p = p\<lparr>state := CircuitOpen, retry_at := None\<rparr>"

definition probe_succeeded :: "pool_runtime \<Rightarrow> pool_runtime" where
  "probe_succeeded p = p\<lparr>state := Ready, retry_at := None\<rparr>"

definition refresh_deadline :: "nat \<Rightarrow> pool_runtime \<Rightarrow> pool_runtime" where
  "refresh_deadline now p =
    (if state p = Backoff \<and> (case retry_at p of None \<Rightarrow> False | Some d \<Rightarrow> d \<le> now)
     then probe_succeeded p else p)"

definition permanent_pool_error :: "error_code \<Rightarrow> bool" where
  "permanent_pool_error c \<longleftrightarrow> c = SchedulerInternalProtocolError"

text \<open>A pool is one of three things: ready, waiting for a deadline, or open.\<close>

definition pool_inv :: "pool_runtime \<Rightarrow> bool" where
  "pool_inv p \<longleftrightarrow> state p \<in> {Ready, Backoff, CircuitOpen}
     \<and> (state p = Backoff \<longleftrightarrow> retry_at p \<noteq> None)"

lemma pool_inv_ops [simp]:
  "pool_inv ready_pool" "pool_inv (transient_failure d p)" "pool_inv (permanent_failure p)"
  "pool_inv (probe_succeeded p)" "pool_inv p \<Longrightarrow> pool_inv (refresh_deadline now p)"
  by (auto simp: pool_inv_def ready_pool_def transient_failure_def permanent_failure_def
        probe_succeeded_def refresh_deadline_def)

end
