(* ===== verification/Sched_Runner.thy ===== *)
theory Sched_Runner
  imports Sched_Kernel
begin

text \<open>
  The scheduler run loop (\<open>crates/service/src/scheduler/runner.rs\<close> and the service
  state of \<open>crates/service/src/scheduler.rs\<close>): one iteration refreshes the pools,
  publishes their state, runs queue maintenance, selects pools fairly, claims
  work and spawns dispatch tasks; completed tasks release their permits. What the
  store answers (claims, maintenance, repair, whether a pool has work) and the
  clock readings are inputs of an iteration.
\<close>

section \<open>State and inputs\<close>

record runner =
  admission :: admission_tracker
  selector :: fair_selector
  backoff :: infrastructure_backoff
  pools :: "scheduler_kind \<Rightarrow> pool_runtime"
  published :: "scheduler_kind \<Rightarrow> scheduler_pool_state"
  dispatch_kinds :: "(nat \<times> scheduler_kind) list"
  next_task :: nat
  paused :: bool
  pool_paused :: "scheduler_kind \<Rightarrow> bool"
  workflow_infra_failures :: nat

definition instant_max :: nat where
  "instant_max = 9223372036854775807 * 1000000000 + 999999999"

definition monotonic_deadline :: "nat \<Rightarrow> nat \<Rightarrow> nat" where
  "monotonic_deadline now delay = (if now + delay \<le> instant_max then now + delay else now)"

text \<open>
  \<open>now_mono\<close> is the reading at the top of the iteration, \<open>clock_at k\<close> the reading
  when pool \<open>k\<close> computes a retry deadline. \<open>repair\<close> is the outcome of
  \<open>repair_workflows\<close> when the repair deadline has passed; \<open>summaries\<close> fails when one
  of the summary queries does.
\<close>

record cycle_input =
  now_mono :: nat
  clock_at :: "scheduler_kind \<Rightarrow> nat"
  repair :: "unit result option"
  summaries :: "unit result"
  work :: "scheduler_kind \<Rightarrow> bool"
  maintenance_due :: bool
  maintenance :: "unit result"
  claim :: "scheduler_kind \<Rightarrow> nat \<Rightarrow> nat result"

definition infrastructure_error_class :: "error_code \<Rightarrow> u64" where
  "infrastructure_error_class c =
    (if c = SchedulerBusy then 1 else if c = SchedulerUnavailable then 2
     else if c = SchedulerInternalProtocolError then 3 else 4)"

definition new_runner :: "scheduler_config \<Rightarrow> u64 \<Rightarrow> runner" where
  "new_runner cfg seed =
    \<lparr>admission = new_tracker (global_max_in_flight cfg) (\<lambda>k. max_in_flight (pool_config cfg k)),
     selector = new_selector (\<lambda>k. weight (pool_config cfg k)),
     backoff = new_backoff seed (from_millis 25) (from_millis 5000),
     pools = (\<lambda>_. ready_pool),
     published = (\<lambda>k. if enabled (pool_config cfg k) then Ready else Disabled),
     dispatch_kinds = [], next_task = 0, paused = False, pool_paused = (\<lambda>_. False),
     workflow_infra_failures = 0\<rparr>"

section \<open>Refreshing and publishing pool state\<close>

definition set_pool :: "scheduler_kind \<Rightarrow> (pool_runtime \<Rightarrow> pool_runtime) \<Rightarrow> runner \<Rightarrow> runner" where
  "set_pool k f r = r\<lparr>pools := (pools r)(k := f (pools r k))\<rparr>"

definition publish :: "scheduler_kind \<Rightarrow> scheduler_pool_state \<Rightarrow> runner \<Rightarrow> runner" where
  "publish k st r = r\<lparr>published := (published r)(k := st)\<rparr>"

definition publish_pool :: "scheduler_config \<Rightarrow> scheduler_kind \<Rightarrow> runner \<Rightarrow> runner" where
  "publish_pool cfg k r =
    (if \<not> enabled (pool_config cfg k) then publish k Disabled r
     else if paused r \<or> pool_paused r k then publish k Paused r
     else publish k (state (pools r k)) r)"

definition half_open :: "scheduler_kind \<Rightarrow> runner \<Rightarrow> runner" where
  "half_open k r =
    (if state (pools r k) = CircuitOpen \<and> published r k = Ready
     then set_pool k probe_succeeded r else r)"

definition adopt_workflow_circuit :: "runner \<Rightarrow> runner" where
  "adopt_workflow_circuit r =
    (if published r Workflow = CircuitOpen then set_pool Workflow permanent_failure r
     else half_open Workflow r)"

definition refresh_pools :: "scheduler_config \<Rightarrow> nat \<Rightarrow> runner \<Rightarrow> runner" where
  "refresh_pools cfg now r =
    (let r1 = r\<lparr>pools := (\<lambda>k. refresh_deadline now (pools r k))\<rparr>;
         r2 = publish_pool cfg Workflow (adopt_workflow_circuit r1);
         r3 = publish_pool cfg Alarm (half_open Alarm r2);
         r4 = half_open Cron (half_open Queue r3)
     in publish_pool cfg Cron (publish_pool cfg Queue r4))"

definition run_repair :: "unit result option \<Rightarrow> runner \<Rightarrow> runner" where
  "run_repair outcome r =
    (if outcome = Some (Inl WorkflowInvariantViolation)
     then let r' = set_pool Workflow permanent_failure r
          in publish Workflow (state (pools r' Workflow)) r'
     else r)"

definition pool_runnable :: "scheduler_config \<Rightarrow> scheduler_kind \<Rightarrow> runner \<Rightarrow> bool" where
  "pool_runnable cfg k r \<longleftrightarrow>
     enabled (pool_config cfg k) \<and> \<not> paused r \<and> \<not> pool_paused r k \<and> state (pools r k) = Ready"

section \<open>Queue maintenance\<close>

definition enter_backoff ::
  "cycle_input \<Rightarrow> scheduler_kind \<Rightarrow> error_code \<Rightarrow> runner \<Rightarrow> runner" where
  "enter_backoff inp k e r =
    (let (delay, b) = fail k (infrastructure_error_class e) (backoff r);
         r' = set_pool k (transient_failure (monotonic_deadline (clock_at inp k) delay))
                (r\<lparr>backoff := b\<rparr>)
     in publish k (state (pools r' k)) r')"

definition open_circuit :: "scheduler_kind \<Rightarrow> runner \<Rightarrow> runner" where
  "open_circuit k r =
    (let r' = set_pool k permanent_failure r in publish k (state (pools r' k)) r')"

definition run_queue_maintenance :: "scheduler_config \<Rightarrow> cycle_input \<Rightarrow> runner \<Rightarrow> runner" where
  "run_queue_maintenance cfg inp r =
    (if pool_runnable cfg Queue r \<and> maintenance_due inp then
       (case maintenance inp of
          Inr _ \<Rightarrow> set_pool Queue probe_succeeded (r\<lparr>backoff := reset Queue (backoff r)\<rparr>)
        | Inl e \<Rightarrow>
            if permanent_pool_error e \<or> e = QueueInvariantViolation \<or> e = SchedulerCorrupt
            then open_circuit Queue r
            else enter_backoff inp Queue e r)
     else r)"

section \<open>Claiming and dispatching\<close>

definition spawn :: "scheduler_kind \<Rightarrow> nat \<Rightarrow> runner \<Rightarrow> runner" where
  "spawn k n r =
     r\<lparr>dispatch_kinds := dispatch_kinds r @ map (\<lambda>i. (next_task r + i, k)) [0..<n],
       next_task := next_task r + n\<rparr>"

definition selected_count ::
  "scheduler_config \<Rightarrow> scheduler_kind list \<Rightarrow> scheduler_kind \<Rightarrow> nat" where
  "selected_count cfg selected k = min (count_list selected k) (claim_batch (pool_config cfg k))"

definition claimed ::
  "scheduler_kind \<Rightarrow> nat \<Rightarrow> nat \<Rightarrow> runner \<Rightarrow> runner result" where
  "claimed k requested jobs r =
    (let r1 = r\<lparr>backoff := reset k (backoff r)\<rparr>;
         r2 = (if k = Alarm then r1 else set_pool k probe_succeeded r1);
         r3 = r2\<lparr>selector := refund k (requested - jobs) (selector r2)\<rparr>
     in if jobs = 0 then Inr r3
        else
          let (ok, t) = tracker_reserve k jobs (admission r3)
          in if \<not> ok then Inl SchedulerUnavailable
             else
               let r4 = spawn k jobs (r3\<lparr>admission := t\<rparr>)
               in Inr (if k = Alarm then r4 else publish k (state (pools r4 k)) r4))"

definition dispatch_pool ::
  "scheduler_config \<Rightarrow> cycle_input \<Rightarrow> scheduler_kind list \<Rightarrow> scheduler_kind \<Rightarrow> runner
    \<Rightarrow> runner result" where
  "dispatch_pool cfg inp selected k r =
    (let n = selected_count cfg selected k
     in if n = 0 then Inr r
        else
          (case claim inp k n of
             Inr jobs \<Rightarrow> claimed k n jobs r
           | Inl e \<Rightarrow>
               if e = SchedulerCorrupt then Inl e
               else if permanent_pool_error e \<or> (k = Workflow \<and> e = WorkflowInvariantViolation)
               then Inr (open_circuit k r)
               else Inr (enter_backoff inp k e r)))"

fun dispatch_kinds_in_order ::
  "scheduler_config \<Rightarrow> cycle_input \<Rightarrow> scheduler_kind list \<Rightarrow> scheduler_kind list \<Rightarrow> runner
    \<Rightarrow> runner result" where
  "dispatch_kinds_in_order cfg inp selected [] r = Inr r"
| "dispatch_kinds_in_order cfg inp selected (k # ks) r =
     rbind (dispatch_pool cfg inp selected k r) (dispatch_kinds_in_order cfg inp selected ks)"

definition dispatch_selected ::
  "scheduler_config \<Rightarrow> cycle_input \<Rightarrow> scheduler_kind list \<Rightarrow> runner \<Rightarrow> runner result" where
  "dispatch_selected cfg inp selected r =
     dispatch_kinds_in_order cfg inp selected [Alarm, Queue, Cron, Workflow] r"

definition pool_ready ::
  "scheduler_config \<Rightarrow> cycle_input \<Rightarrow> runner \<Rightarrow> scheduler_kind \<Rightarrow> bool" where
  "pool_ready cfg inp r k \<longleftrightarrow> pool_runnable cfg k r \<and> work inp k"

definition dispatch_ready :: "scheduler_config \<Rightarrow> cycle_input \<Rightarrow> runner \<Rightarrow> runner result" where
  "dispatch_ready cfg inp r =
    (if available_global (admission r) > 0 then
       let (s, selected) = select (selector r) (pool_ready cfg inp r)
             (available_pools (admission r)) (available_global (admission r))
       in dispatch_selected cfg inp selected (r\<lparr>selector := s\<rparr>)
     else Inr r)"

definition run_cycle :: "scheduler_config \<Rightarrow> cycle_input \<Rightarrow> runner \<Rightarrow> runner result" where
  "run_cycle cfg inp r =
    (let r1 = run_repair (repair inp) (refresh_pools cfg (now_mono inp) r)
     in rbind (summaries inp) (\<lambda>_.
          dispatch_ready cfg inp (run_queue_maintenance cfg inp r1)))"

section \<open>Completion, operator and service events\<close>

definition completed_kind ::
  "nat \<Rightarrow> (nat \<times> scheduler_kind) list \<Rightarrow> (scheduler_kind \<times> (nat \<times> scheduler_kind) list) result" where
  "completed_kind task kinds =
    (case map_of kinds task of
       None \<Rightarrow> Inl SchedulerUnavailable
     | Some k \<Rightarrow> Inr (k, filter (\<lambda>p. fst p \<noteq> task) kinds))"

definition release_completed :: "nat \<Rightarrow> runner \<Rightarrow> runner result" where
  "release_completed task r =
     rbind (completed_kind task (dispatch_kinds r)) (\<lambda>(k, kinds).
       Inr (r\<lparr>dispatch_kinds := kinds, admission := tracker_release k 1 (admission r)\<rparr>))"

definition repair_and_probe :: "scheduler_config \<Rightarrow> runner \<Rightarrow> runner" where
  "repair_and_probe cfg r =
    (if enabled (pool_config cfg Alarm) \<and> \<not> pool_paused r Alarm then publish Alarm Ready r else r)"

definition workflow_unknown :: "runner \<Rightarrow> runner" where
  "workflow_unknown r =
    (let r' = r\<lparr>workflow_infra_failures := workflow_infra_failures r + 1\<rparr>
     in if workflow_infra_failures r \<ge> 2 then publish Workflow CircuitOpen r' else r')"

datatype runner_event =
    Cycle cycle_input
  | Completed nat
  | Pause
  | Resume
  | RepairProbe
  | WorkflowUnknown

text \<open>An error ends the run loop: the state then no longer changes.\<close>

fun runner_step :: "scheduler_config \<Rightarrow> runner result \<Rightarrow> runner_event \<Rightarrow> runner result" where
  "runner_step cfg (Inl e) _ = Inl e"
| "runner_step cfg (Inr r) (Cycle inp) = run_cycle cfg inp r"
| "runner_step cfg (Inr r) (Completed task) = release_completed task r"
| "runner_step cfg (Inr r) Pause = Inr (r\<lparr>paused := True\<rparr>)"
| "runner_step cfg (Inr r) Resume = Inr (r\<lparr>paused := False\<rparr>)"
| "runner_step cfg (Inr r) RepairProbe = Inr (repair_and_probe cfg r)"
| "runner_step cfg (Inr r) WorkflowUnknown = Inr (workflow_unknown r)"

section \<open>Invariant\<close>

definition runner_inv :: "runner \<Rightarrow> bool" where
  "runner_inv r \<longleftrightarrow>
     tracker_inv (admission r)
     \<and> list_all (\<lambda>k. pool_in_flight (admission r) k = count_list (map snd (dispatch_kinds r)) k
                      \<and> pool_inv (pools r k)) ALL_KINDS
     \<and> distinct (map fst (dispatch_kinds r))
     \<and> list_all (\<lambda>p. fst p < next_task r) (dispatch_kinds r)
     \<and> positive_weights (selector r)"

lemma runner_invD:
  assumes "runner_inv r"
  shows "tracker_inv (admission r)" "positive_weights (selector r)"
    "pool_in_flight (admission r) k = count_list (map snd (dispatch_kinds r)) k"
    "pool_inv (pools r k)"
    "distinct (map fst (dispatch_kinds r))"
  using assms by (simp_all add: runner_inv_def list_all_iff)

text \<open>Steps that only touch pools, published states and the backoff keep the invariant.\<close>

definition same_work :: "runner \<Rightarrow> runner \<Rightarrow> bool" where
  "same_work r r' \<longleftrightarrow>
     admission r' = admission r \<and> dispatch_kinds r' = dispatch_kinds r
     \<and> next_task r' = next_task r \<and> selector r' = selector r
     \<and> paused r' = paused r \<and> pool_paused r' = pool_paused r"

definition keeps_pools :: "runner \<Rightarrow> runner \<Rightarrow> bool" where
  "keeps_pools r r' \<longleftrightarrow> same_work r r'
     \<and> ((\<forall>k. pool_inv (pools r k)) \<longrightarrow> (\<forall>k. pool_inv (pools r' k)))"

lemma keeps_pools_inv: "keeps_pools r r' \<Longrightarrow> runner_inv r \<Longrightarrow> runner_inv r'"
  by (auto simp: keeps_pools_def same_work_def runner_inv_def list_all_iff)

lemma keeps_pools_trans: "keeps_pools r s \<Longrightarrow> keeps_pools s t \<Longrightarrow> keeps_pools r t"
  by (auto simp: keeps_pools_def same_work_def)

lemma keeps_pools_basic:
  "keeps_pools r r"
  "keeps_pools r (publish k st r)"
  "keeps_pools r (r\<lparr>backoff := b\<rparr>)"
  "(\<And>p. pool_inv p \<Longrightarrow> pool_inv (f p)) \<Longrightarrow> keeps_pools r (set_pool k f r)"
  "(\<And>p. pool_inv p \<Longrightarrow> pool_inv (f p)) \<Longrightarrow> keeps_pools r (r\<lparr>pools := (\<lambda>k. f (pools r k))\<rparr>)"
  by (simp_all add: keeps_pools_def same_work_def publish_def set_pool_def)

lemma keeps_pools_ops:
  "keeps_pools r (publish_pool cfg k r)"
  "keeps_pools r (half_open k r)"
  "keeps_pools r (adopt_workflow_circuit r)"
  "keeps_pools r (run_repair out r)"
  "keeps_pools r (open_circuit k r)"
  "keeps_pools r (enter_backoff inp k e r)"
  "keeps_pools r (run_queue_maintenance cfg inp r)"
proof -
  show pub: "keeps_pools r (publish_pool cfg k r)" for k
    by (simp add: publish_pool_def keeps_pools_basic)
  show ho: "keeps_pools r (half_open k r)" for k
    by (simp add: half_open_def keeps_pools_basic)
  show "keeps_pools r (adopt_workflow_circuit r)"
    by (simp add: adopt_workflow_circuit_def keeps_pools_basic ho)
  show oc: "keeps_pools r (open_circuit k r)" for k
    unfolding open_circuit_def Let_def
    by (rule keeps_pools_trans [OF keeps_pools_basic(4) keeps_pools_basic(2)]) simp
  show "keeps_pools r (run_repair out r)"
    using oc [of Workflow]
    by (simp add: run_repair_def open_circuit_def keeps_pools_basic)
  show eb: "keeps_pools r (enter_backoff inp k e r)" for k e
    unfolding enter_backoff_def Let_def split_beta
    by (rule keeps_pools_trans [OF keeps_pools_basic(3)
          keeps_pools_trans [OF keeps_pools_basic(4) keeps_pools_basic(2)]]) simp
  show "keeps_pools r (run_queue_maintenance cfg inp r)"
    by (auto simp: run_queue_maintenance_def oc eb keeps_pools_basic split: sum.split
        intro: keeps_pools_trans [OF keeps_pools_basic(3) keeps_pools_basic(4)])
qed

lemma refresh_pools_keeps: "keeps_pools r (refresh_pools cfg now r)"
proof -
  have step: "keeps_pools r s \<Longrightarrow> keeps_pools r (publish_pool cfg k s)"
    "keeps_pools r s \<Longrightarrow> keeps_pools r (half_open k s)"
    "keeps_pools r s \<Longrightarrow> keeps_pools r (adopt_workflow_circuit s)" for s k
    by (rule keeps_pools_trans, assumption, rule keeps_pools_ops)+
  show ?thesis
    unfolding refresh_pools_def Let_def
    by (intro step keeps_pools_basic(5) pool_inv_ops(5))
qed

section \<open>Dispatch stays within the permits\<close>

text \<open>What handling one pool may change: its own permits, and at most \<open>n\<close> global ones.\<close>

definition pool_effect :: "scheduler_kind \<Rightarrow> nat \<Rightarrow> runner \<Rightarrow> runner \<Rightarrow> bool" where
  "pool_effect k n r r' \<longleftrightarrow>
     available_global (admission r) \<le> available_global (admission r') + n
     \<and> (\<forall>j. j \<noteq> k \<longrightarrow> available_pools (admission r') j = available_pools (admission r) j)
     \<and> (\<exists>new. dispatch_kinds r' = dispatch_kinds r @ new \<and> set (map snd new) \<subseteq> {k})"

lemma count_list_append: "count_list (xs @ ys) x = count_list xs x + count_list ys x"
  by (induction xs) simp_all

lemma count_spawned: "count_list (map snd (map (\<lambda>i. (f i, k)) [0..<n])) j = (if j = k then n else 0)"
  by (induction n) (simp_all add: count_list_append)

lemma spawn_inv:
  assumes inv: "runner_inv r" and ok: "fst (tracker_reserve k n (admission r))"
  shows "runner_inv (spawn k n (r\<lparr>admission := snd (tracker_reserve k n (admission r))\<rparr>))"
    and "pool_effect k n r (spawn k n (r\<lparr>admission := snd (tracker_reserve k n (admission r))\<rparr>))"
proof -
  have t: "tracker_inv (admission r)" by (rule runner_invD(1) [OF inv])
  note ex = tracker_reserve_exact [OF t ok]
  have inv': "tracker_inv (snd (tracker_reserve k n (admission r)))"
    by (rule tracker_reserve_inv [OF t ok])
  have count: "count_list (map snd (dispatch_kinds r @ map (\<lambda>i. (next_task r + i, k)) [0..<n])) j
      = count_list (map snd (dispatch_kinds r)) j + (if j = k then n else 0)" for j
    by (simp only: map_append count_list_append count_spawned)
  have dist: "distinct (map fst (dispatch_kinds r @ map (\<lambda>i. (next_task r + i, k)) [0..<n]))"
    using inv by (auto simp: runner_inv_def list_all_iff distinct_map comp_def inj_on_def)
  show "runner_inv (spawn k n (r\<lparr>admission := snd (tracker_reserve k n (admission r))\<rparr>))"
    using inv inv' dist
    by (auto simp: runner_inv_def spawn_def ex list_all_iff count simp del: map_append)
  have le: "n \<le> available_global (admission r)"
    using ok by (simp add: tracker_reserve_iff)
  then show "pool_effect k n r (spawn k n (r\<lparr>admission := snd (tracker_reserve k n (admission r))\<rparr>))"
    by (auto simp: pool_effect_def spawn_def ex available_global_def available_pools_def)
qed

lemma pool_effect_same: "same_work r r' \<Longrightarrow> pool_effect k n r r'"
  by (auto simp: pool_effect_def same_work_def)

lemma refund_keeps:
  "runner_inv r \<Longrightarrow> runner_inv (r\<lparr>selector := refund k n (selector r)\<rparr>)"
  by (simp add: runner_inv_def refund_def positive_weights_def)

lemma claimed_ok:
  assumes inv: "runner_inv r" and "jobs \<le> n"
    and "n \<le> available_global (admission r)" "n \<le> available_pools (admission r) k"
  obtains r' where "claimed k n jobs r = Inr r'" "runner_inv r'" "pool_effect k n r r'"
proof -
  let ?r1 = "r\<lparr>backoff := reset k (backoff r)\<rparr>"
  let ?r2 = "if k = Alarm then ?r1 else set_pool k probe_succeeded ?r1"
  let ?r3 = "?r2\<lparr>selector := refund k (n - jobs) (selector ?r2)\<rparr>"
  have k2: "keeps_pools r ?r2"
    using keeps_pools_trans [OF keeps_pools_basic(3) keeps_pools_basic(4), of probe_succeeded r]
    by (simp add: keeps_pools_basic)
  have inv3: "runner_inv ?r3"
    by (rule refund_keeps [OF keeps_pools_inv [OF k2 inv]])
  have adm: "admission ?r3 = admission r" "dispatch_kinds ?r3 = dispatch_kinds r"
    using k2 by (simp_all add: keeps_pools_def same_work_def)
  have ok: "fst (tracker_reserve k jobs (admission ?r3))"
    using assms by (simp add: tracker_reserve_iff adm)
  let ?r4 = "spawn k jobs (?r3\<lparr>admission := snd (tracker_reserve k jobs (admission ?r3))\<rparr>)"
  let ?r5 = "if k = Alarm then ?r4 else publish k (state (pools ?r4 k)) ?r4"
  have k5: "keeps_pools ?r4 ?r5" by (simp add: keeps_pools_basic)
  have eff: "pool_effect k jobs ?r3 ?r4" by (rule spawn_inv(2) [OF inv3 ok])
  have eff5: "pool_effect k n r ?r5"
    using eff k5 assms(2) unfolding pool_effect_def adm keeps_pools_def same_work_def by auto
  have inv5: "runner_inv ?r5"
    by (rule keeps_pools_inv [OF k5 spawn_inv(1) [OF inv3 ok]])
  have eff3: "pool_effect k n r ?r3"
    using adm by (auto simp: pool_effect_def)
  show thesis
  proof (cases "jobs = 0")
    case True
    have "claimed k n jobs r = Inr ?r3"
      using True unfolding claimed_def Let_def by simp
    from that [OF this inv3 eff3] show thesis .
  next
    case False
    have "claimed k n jobs r = Inr ?r5"
      using False ok unfolding claimed_def Let_def split_beta by simp
    from that [OF this inv5 eff5] show thesis .
  qed
qed

text \<open>The store never returns more jobs than it was asked for.\<close>

definition claims_within :: "cycle_input \<Rightarrow> bool" where
  "claims_within inp \<longleftrightarrow> (\<forall>k n j. claim inp k n = Inr j \<longrightarrow> j \<le> n)"

text \<open>One pool either ends well or reports that the store is corrupt.\<close>

definition pool_outcome ::
  "cycle_input \<Rightarrow> scheduler_kind \<Rightarrow> nat \<Rightarrow> runner \<Rightarrow> runner result \<Rightarrow> bool" where
  "pool_outcome inp k n r res \<longleftrightarrow>
     (case res of
        Inr r' \<Rightarrow> runner_inv r' \<and> pool_effect k n r r'
      | Inl e \<Rightarrow> e = SchedulerCorrupt \<and> claim inp k n = Inl SchedulerCorrupt)"

lemma dispatch_pool_outcome:
  assumes "runner_inv r" and bounded: "claims_within inp"
    and "selected_count cfg selected k \<le> available_global (admission r)"
    and "selected_count cfg selected k \<le> available_pools (admission r) k"
  shows "pool_outcome inp k (selected_count cfg selected k) r (dispatch_pool cfg inp selected k r)"
proof -
  let ?n = "selected_count cfg selected k"
  have keep: "runner_inv s \<and> pool_effect k ?n r s" if "keeps_pools r s" for s
    using that assms(1) keeps_pools_inv pool_effect_same keeps_pools_def by blast
  show ?thesis
  proof (cases "claim inp k ?n")
    case (Inl e)
    then show ?thesis
      using keep [OF keeps_pools_basic(1)] keep [OF keeps_pools_ops(5) [of r k]]
        keep [OF keeps_pools_ops(6) [of r inp k e]]
      by (auto simp: pool_outcome_def dispatch_pool_def Let_def)
  next
    case (Inr jobs)
    have "jobs \<le> ?n" using bounded Inr by (simp add: claims_within_def)
    then obtain r' where "claimed k ?n jobs r = Inr r'" "runner_inv r'" "pool_effect k ?n r r'"
      by (rule claimed_ok [OF assms(1) _ assms(3,4)])
    then show ?thesis
      using Inr keep [OF keeps_pools_basic(1)]
      by (auto simp: pool_outcome_def dispatch_pool_def Let_def)
  qed
qed

text \<open>The same over the pools in order, as long as the selection fits the permits.\<close>

definition grows_by :: "scheduler_kind set \<Rightarrow> runner \<Rightarrow> runner \<Rightarrow> bool" where
  "grows_by ks r r' \<longleftrightarrow>
     (\<exists>new. dispatch_kinds r' = dispatch_kinds r @ new \<and> set (map snd new) \<subseteq> ks)"

definition cycle_outcome ::
  "cycle_input \<Rightarrow> scheduler_kind set \<Rightarrow> runner \<Rightarrow> runner result \<Rightarrow> bool" where
  "cycle_outcome inp ks r res \<longleftrightarrow>
     (case res of
        Inr r' \<Rightarrow> runner_inv r' \<and> grows_by ks r r'
      | Inl e \<Rightarrow> e = SchedulerCorrupt \<and> (\<exists>k n. claim inp k n = Inl SchedulerCorrupt))"

lemma grows_by_trans:
  assumes "grows_by ks r s" "grows_by ks s t"
  shows "grows_by ks r t"
proof -
  obtain xs ys where "dispatch_kinds s = dispatch_kinds r @ xs" "set (map snd xs) \<subseteq> ks"
    "dispatch_kinds t = dispatch_kinds s @ ys" "set (map snd ys) \<subseteq> ks"
    using assms unfolding grows_by_def by blast
  then have "dispatch_kinds t = dispatch_kinds r @ (xs @ ys)" "set (map snd (xs @ ys)) \<subseteq> ks"
    by simp_all
  then show ?thesis unfolding grows_by_def by blast
qed

lemma grows_by_mono: "grows_by ks r s \<Longrightarrow> ks \<subseteq> ks' \<Longrightarrow> grows_by ks' r s"
  unfolding grows_by_def by blast

lemma grows_by_cong: "dispatch_kinds r = dispatch_kinds r' \<Longrightarrow> grows_by ks r s = grows_by ks r' s"
  by (simp add: grows_by_def)

lemma dispatch_in_order_outcome:
  assumes bounded: "claims_within inp"
    and "runner_inv r" "distinct ks"
    and "sum_list (map (selected_count cfg selected) ks) \<le> available_global (admission r)"
    and "\<forall>k \<in> set ks. selected_count cfg selected k \<le> available_pools (admission r) k"
  shows "cycle_outcome inp {k. selected_count cfg selected k > 0} r
           (dispatch_kinds_in_order cfg inp selected ks r)"
  using assms(2-)
proof (induction ks arbitrary: r)
  case Nil
  then show ?case by (simp add: cycle_outcome_def grows_by_def)
next
  case (Cons k ks)
  let ?n = "selected_count cfg selected"
  have out: "pool_outcome inp k (?n k) r (dispatch_pool cfg inp selected k r)"
    by (rule dispatch_pool_outcome [OF Cons.prems(1) bounded]) (use Cons.prems in auto)
  show ?case
  proof (cases "dispatch_pool cfg inp selected k r")
    case (Inl e)
    with out show ?thesis by (auto simp: pool_outcome_def cycle_outcome_def)
  next
    case (Inr r')
    with out have r': "runner_inv r'" "pool_effect k (?n k) r r'"
      by (simp_all add: pool_outcome_def)
    have "cycle_outcome inp {k. ?n k > 0} r' (dispatch_kinds_in_order cfg inp selected ks r')"
    proof (rule Cons.IH [OF r'(1)])
      show "distinct ks" using Cons.prems by simp
      show "sum_list (map ?n ks) \<le> available_global (admission r')"
        using Cons.prems(3) r'(2) by (simp add: pool_effect_def)
      show "\<forall>j \<in> set ks. ?n j \<le> available_pools (admission r') j"
        using Cons.prems r'(2) by (auto simp: pool_effect_def)
    qed
    moreover have "grows_by {k. ?n k > 0} r r'"
    proof (cases "?n k = 0")
      case True
      with Inr show ?thesis by (simp add: dispatch_pool_def grows_by_def)
    next
      case False
      with r'(2) show ?thesis by (auto simp: pool_effect_def grows_by_def)
    qed
    ultimately show ?thesis
      using Inr by (auto simp: cycle_outcome_def split: sum.splits intro: grows_by_trans)
  qed
qed

lemma dispatch_ready_outcome:
  assumes inv: "runner_inv r" and bounded: "claims_within inp"
  shows "cycle_outcome inp {k. pool_ready cfg inp r k} r (dispatch_ready cfg inp r)"
proof (cases "available_global (admission r) > 0")
  case False
  with inv show ?thesis
    by (simp add: dispatch_ready_def cycle_outcome_def grows_by_def)
next
  case True
  let ?sel = "select (selector r) (pool_ready cfg inp r) (available_pools (admission r))
                (available_global (admission r))"
  let ?r = "r\<lparr>selector := fst ?sel\<rparr>" and ?n = "selected_count cfg (snd ?sel)"
  have within: "count_list (snd ?sel) k \<le> (if pool_ready cfg inp r k then available_pools (admission r) k else 0)"
    "length (snd ?sel) \<le> available_global (admission r)" for k
    using select_within_permits by blast+
  have le: "?n k \<le> (if pool_ready cfg inp r k then available_pools (admission r) k else 0)" for k
    using within(1) [of k] by (simp only: selected_count_def min.coboundedI1)
  have inv': "runner_inv ?r"
    using inv by (simp add: runner_inv_def)
  have "sum_list (map ?n ALL_KINDS) \<le> sum_list (map (count_list (snd ?sel)) ALL_KINDS)"
    by (rule sum_list_mono) (simp add: selected_count_def)
  with within(2) have total: "sum_list (map ?n ALL_KINDS) \<le> available_global (admission ?r)"
    by (simp add: sum_count_kinds)
  have each: "\<forall>k \<in> set ALL_KINDS. ?n k \<le> available_pools (admission ?r) k"
  proof
    fix k show "?n k \<le> available_pools (admission ?r) k"
      using le [of k] by (simp split: if_splits)
  qed
  have "cycle_outcome inp {k. ?n k > 0} ?r (dispatch_kinds_in_order cfg inp (snd ?sel) ALL_KINDS ?r)"
    by (rule dispatch_in_order_outcome [OF bounded inv' distinct_ALL_KINDS total each])
  moreover have "{k. ?n k > 0} \<subseteq> {k. pool_ready cfg inp r k}"
  proof
    fix k assume "k \<in> {k. ?n k > 0}"
    then show "k \<in> {k. pool_ready cfg inp r k}"
      using le [of k] by (simp split: if_splits)
  qed
  ultimately show ?thesis
    using True
    by (auto simp: dispatch_ready_def split_beta dispatch_selected_def ALL_KINDS_def cycle_outcome_def
        grows_by_cong [of ?r r] intro: grows_by_mono split: sum.splits)
qed

lemma cycle_prefix_keeps:
  "keeps_pools r (run_queue_maintenance cfg inp (run_repair (repair inp) (refresh_pools cfg now r)))"
  by (rule keeps_pools_trans [OF keeps_pools_trans [OF refresh_pools_keeps keeps_pools_ops(4)]
        keeps_pools_ops(7)])

lemma run_cycle_outcome:
  assumes inv: "runner_inv r" and bounded: "claims_within inp"
    and "summaries inp = Inr ()"
  shows "cycle_outcome inp {k. enabled (pool_config cfg k) \<and> \<not> paused r \<and> \<not> pool_paused r k \<and> work inp k}
           r (run_cycle cfg inp r)"
proof -
  let ?q = "run_queue_maintenance cfg inp (run_repair (repair inp) (refresh_pools cfg (now_mono inp) r))"
  have keep: "keeps_pools r ?q" by (rule cycle_prefix_keeps)
  have same: "dispatch_kinds ?q = dispatch_kinds r" "paused ?q = paused r" "pool_paused ?q = pool_paused r"
    using keep by (simp_all add: keeps_pools_def same_work_def)
  have "cycle_outcome inp {k. pool_ready cfg inp ?q k} ?q (dispatch_ready cfg inp ?q)"
    by (rule dispatch_ready_outcome [OF keeps_pools_inv [OF keep inv] bounded])
  then show ?thesis
    using assms(3)
    by (auto simp: run_cycle_def Let_def cycle_outcome_def grows_by_cong [OF same(1)]
        pool_ready_def pool_runnable_def same intro: grows_by_mono split: sum.splits)
qed

section \<open>Whole runs\<close>

definition runner_ok :: "runner result \<Rightarrow> bool" where
  "runner_ok res \<longleftrightarrow> (case res of Inr r \<Rightarrow> runner_inv r | Inl _ \<Rightarrow> True)"

definition bounded_claims :: "runner_event \<Rightarrow> bool" where
  "bounded_claims e \<longleftrightarrow>
     (case e of Cycle inp \<Rightarrow> claims_within inp | _ \<Rightarrow> True)"

lemma run_cycle_ok:
  assumes "runner_inv r" and "claims_within inp"
  shows "runner_ok (run_cycle cfg inp r)"
proof (cases "summaries inp")
  case (Inl e)
  then show ?thesis by (simp add: run_cycle_def Let_def runner_ok_def)
next
  case (Inr u)
  then have "summaries inp = Inr ()" by simp
  then show ?thesis
    using run_cycle_outcome [OF assms, where cfg = cfg]
    by (auto simp: runner_ok_def cycle_outcome_def split: sum.splits)
qed

lemma count_filter_task:
  assumes "distinct (map fst kinds)" "map_of kinds task = Some k"
  shows "count_list (map snd kinds) j =
    count_list (map snd (filter (\<lambda>p. fst p \<noteq> task) kinds)) j + (if j = k then 1 else 0)"
  using assms
proof (induction kinds)
  case (Cons p kinds)
  show ?case
  proof (cases "fst p = task")
    case True
    with Cons.prems have "task \<notin> fst ` set kinds" by auto
    then have "filter (\<lambda>q. fst q \<noteq> task) kinds = kinds"
      by (metis (mono_tags, lifting) filter_True image_eqI)
    with True Cons.prems show ?thesis by (cases p) auto
  next
    case False
    with Cons show ?thesis by (cases p) auto
  qed
qed simp

lemma release_completed_inv:
  assumes inv: "runner_inv r" and "release_completed task r = Inr r'"
  shows "runner_inv r'"
proof -
  from assms(2) obtain k where k: "map_of (dispatch_kinds r) task = Some k"
    and r': "r' = r\<lparr>dispatch_kinds := filter (\<lambda>p. fst p \<noteq> task) (dispatch_kinds r),
                      admission := tracker_release k 1 (admission r)\<rparr>"
    by (auto simp: release_completed_def completed_kind_def split: option.splits)
  note count = count_filter_task [OF runner_invD(5) [OF inv] k]
  have "1 \<le> pool_in_flight (admission r) k"
    using count [of k] runner_invD(3) [OF inv, of k] by simp
  then have "tracker_inv (tracker_release k 1 (admission r))"
    by (rule tracker_release_inv [OF runner_invD(1) [OF inv]])
  moreover have "pool_in_flight (tracker_release k 1 (admission r)) j =
      count_list (map snd (filter (\<lambda>p. fst p \<noteq> task) (dispatch_kinds r))) j" for j
    using count [of j] runner_invD(3) [OF inv, of j]
    by (auto simp: tracker_release_def split: if_splits)
  ultimately show ?thesis
    using inv by (auto simp: runner_inv_def r' list_all_iff distinct_map_filter)
qed

lemma runner_step_ok:
  assumes "runner_ok res" "bounded_claims e"
  shows "runner_ok (runner_step cfg res e)"
proof (cases res)
  case (Inl x)
  then show ?thesis by (simp add: runner_ok_def)
next
  case (Inr r)
  with assms have inv: "runner_inv r" by (simp add: runner_ok_def)
  show ?thesis
  proof (cases e)
    case (Cycle inp)
    with assms(2) Inr show ?thesis
      using run_cycle_ok [OF inv] by (simp add: bounded_claims_def)
  next
    case (Completed task)
    with Inr show ?thesis
      using release_completed_inv [OF inv] by (auto simp: runner_ok_def split: sum.splits)
  next
    case RepairProbe
    with Inr inv show ?thesis
      by (auto simp: runner_ok_def repair_and_probe_def intro: keeps_pools_inv [OF keeps_pools_basic(2)])
  qed (use inv Inr in \<open>simp_all add: runner_ok_def runner_inv_def workflow_unknown_def publish_def Let_def\<close>)
qed

interpretation runner_sys: invariant_system "runner_step cfg" bounded_claims runner_ok
  for cfg
  by unfold_locales (rule runner_step_ok)

lemma valid_config_pools:
  assumes "validate_config cfg = Inr ()"
  shows "validate_pool (pool_config cfg k)" "global_max_in_flight cfg \<le> 4096"
proof -
  have "list_all validate_pool [pool_config cfg Alarm, pool_config cfg Queue, pool_config cfg Cron,
      pool_config cfg Workflow]" and "global_max_in_flight cfg \<le> 4096"
    using assms by (auto simp: validate_config_def split: option.splits if_splits)
  then show "validate_pool (pool_config cfg k)" "global_max_in_flight cfg \<le> 4096"
    by (cases k, simp_all)
qed

lemma new_runner_inv:
  assumes "validate_config cfg = Inr ()"
  shows "runner_inv (new_runner cfg seed)"
proof -
  have pool: "max_in_flight (pool_config cfg k) \<le> u64_max" "0 < weight (pool_config cfg k)" for k
    using valid_config_pools(1) [OF assms, of k] by (simp_all add: validate_pool_def u64_max_def)
  have "global_max_in_flight cfg \<le> u64_max"
    using valid_config_pools(2) [OF assms] by (simp add: u64_max_def)
  with pool show ?thesis
    by (simp add: runner_inv_def new_runner_def new_tracker_def new_selector_def tracker_inv_def
        positive_weights_def list_all_iff)
qed


definition sample_input :: cycle_input where
  "sample_input = \<lparr>now_mono = 0, clock_at = (\<lambda>_. 0), repair = None, summaries = Inr (),
     work = (\<lambda>_. True), maintenance_due = False, maintenance = Inr (),
     claim = (\<lambda>k n. if k = Queue then Inl SchedulerBusy else Inr (min n 3))\<rparr>"




end
