(* ===== verification/Transactions.thy ===== *)
theory Transactions
  imports OC_Prelude
begin

text \<open>
  Transactions on the tables of the control database: a computation fails with a
  platform error or returns a value and the new tables. Shared by the queue, alarm and
  cron stores; \<open>'s\<close> is the type of their tables.
\<close>

section \<open>SQL errors and transactions\<close>

text \<open>
  A statement is rejected by the authority trigger of \<open>queue_messages\<close>, by any other
  constraint or trigger, or because a row is missing; the database itself may be busy or
  corrupt.
\<close>

datatype sql_error = AuthorityAbort | ConstraintFailed | NoRows | DatabaseBusy | DatabaseCorrupt

definition map_sql_error :: "sql_error \<Rightarrow> error_code" where
  "map_sql_error e =
    (if e = DatabaseBusy then SchedulerBusy
     else if e = DatabaseCorrupt then SchedulerCorrupt
     else SchedulerUnavailable)"

definition queue_sql_error :: "sql_error \<Rightarrow> error_code" where
  "queue_sql_error e = (if e = AuthorityAbort then QueueInvariantViolation
                        else QueueStorageUnavailable)"

text \<open>A computation inside a transaction: it fails, or returns a value and new tables.\<close>

type_synonym ('s, 'a) stx = "'s \<Rightarrow> ('a \<times> 's) result"

definition ret :: "'a \<Rightarrow> ('s, 'a) stx" where
  "ret x d = Inr (x, d)"

definition throw :: "error_code \<Rightarrow> ('s, 'a) stx" where
  "throw e d = Inl e"

definition andthen :: "('s, 'a) stx \<Rightarrow> ('a \<Rightarrow> ('s, 'b) stx) \<Rightarrow> ('s, 'b) stx" where
  "andthen m f d = (case m d of Inl e \<Rightarrow> Inl e | Inr (x, d') \<Rightarrow> f x d')"

definition reading :: "('s \<Rightarrow> 'a) \<Rightarrow> ('s, 'a) stx" where
  "reading f d = Inr (f d, d)"

definition lift :: "'a result \<Rightarrow> ('s, 'a) stx" where
  "lift r d = (case r of Inl e \<Rightarrow> Inl e | Inr x \<Rightarrow> Inr (x, d))"

definition require :: "error_code \<Rightarrow> bool \<Rightarrow> ('s, unit) stx" where
  "require e b = (if b then ret () else throw e)"

definition stmt :: "(sql_error \<Rightarrow> error_code) \<Rightarrow> ('s \<Rightarrow> sql_error + ('a \<times> 's)) \<Rightarrow> ('s, 'a) stx" where
  "stmt err f d = (case f d of Inl e \<Rightarrow> Inl (err e) | Inr r \<Rightarrow> Inr r)"

fun for_each :: "('x \<Rightarrow> ('s, unit) stx) \<Rightarrow> 'x list \<Rightarrow> ('s, unit) stx" where
  "for_each f [] = ret ()"
| "for_each f (x # xs) = andthen (f x) (\<lambda>_. for_each f xs)"

fun map_each :: "('x \<Rightarrow> ('s, 'a) stx) \<Rightarrow> 'x list \<Rightarrow> ('s, 'a list) stx" where
  "map_each f [] = ret []"
| "map_each f (x # xs) = andthen (f x) (\<lambda>y. andthen (map_each f xs) (\<lambda>ys. ret (y # ys)))"

text \<open>A public operation: an error rolls the transaction back.\<close>

definition transaction :: "('s, 'a) stx \<Rightarrow> 's \<Rightarrow> 'a result \<times> 's" where
  "transaction m d = (case m d of Inl e \<Rightarrow> (Inl e, d) | Inr (x, d') \<Rightarrow> (Inr x, d'))"

named_theorems tx_simps \<open>running transactional computations\<close>

lemma tx_Inr [tx_simps]:
  "ret x d = Inr r \<longleftrightarrow> r = (x, d)"
  "throw e d = Inr r \<longleftrightarrow> False"
  "reading f d = Inr r \<longleftrightarrow> r = (f d, d)"
  "lift v d = Inr r \<longleftrightarrow> (\<exists>x. v = Inr x \<and> r = (x, d))"
  "require e b d = Inr u \<longleftrightarrow> b \<and> u = ((), d)"
  "stmt err g d = Inr r \<longleftrightarrow> g d = Inr r"
  by (auto simp: ret_def throw_def reading_def lift_def require_def stmt_def
      split: sum.splits if_splits)

lemma andthen_Inr [tx_simps]:
  "andthen m h d = Inr s \<longleftrightarrow> (\<exists>x d'. m d = Inr (x, d') \<and> h x d' = Inr s)"
  by (simp add: andthen_def split: sum.split prod.split)

lemma tx_eval:
  "ret x d = Inr (x, d)"
  "reading f d = Inr (f d, d)"
  "m d = Inr (x, d') \<Longrightarrow> andthen m h d = h x d'"
  "m d = Inl e \<Longrightarrow> andthen m h d = Inl e"
  "require e True d = Inr ((), d)"
  "require e False d = Inl e"
  by (simp_all add: ret_def reading_def andthen_def require_def throw_def)

text \<open>
  What a transactional computation owes its callers: an invariant of the tables
  survives every successful run. The contract is stated once for any invariant and
  composes, so an operation is shown to keep an invariant by its statements.
\<close>

definition keeps :: "('s \<Rightarrow> bool) \<Rightarrow> ('s, 'a) stx \<Rightarrow> bool" where
  "keeps I m \<longleftrightarrow> (\<forall>d x d'. I d \<longrightarrow> m d = Inr (x, d') \<longrightarrow> I d')"

lemma keepsI: "(\<And>d x d'. I d \<Longrightarrow> m d = Inr (x, d') \<Longrightarrow> I d') \<Longrightarrow> keeps I m"
  by (auto simp: keeps_def)

lemma keepsD: "keeps I m \<Longrightarrow> I d \<Longrightarrow> m d = Inr (x, d') \<Longrightarrow> I d'"
  by (auto simp: keeps_def)

lemma keeps_basic:
  "keeps I (ret x)" "keeps I (throw e)" "keeps I (reading f)" "keeps I (lift v)"
  "keeps I (require e b)"
  by (simp_all add: keeps_def tx_simps)

lemma keeps_andthen: "keeps I m \<Longrightarrow> (\<And>x. keeps I (h x)) \<Longrightarrow> keeps I (andthen m h)"
  unfolding keeps_def tx_simps by blast

lemma keeps_for_each:
  assumes "\<And>x. x \<in> set xs \<Longrightarrow> keeps I (f x)"
  shows "keeps I (for_each f xs)"
  using assms
proof (induction xs)
  case (Cons x xs)
  then have "keeps I (f x)" "keeps I (for_each f xs)" by simp_all
  then show ?case by (simp add: keeps_andthen)
qed (simp add: keeps_basic)

lemma keeps_map_each:
  assumes "\<And>x. x \<in> set xs \<Longrightarrow> keeps I (f x)"
  shows "keeps I (map_each f xs)"
  using assms
proof (induction xs)
  case (Cons x xs)
  then have "keeps I (f x)" "keeps I (map_each f xs)" by simp_all
  then show ?case by (simp add: keeps_andthen keeps_basic)
qed (simp add: keeps_basic)

lemma keeps_if: "keeps I m \<Longrightarrow> keeps I m' \<Longrightarrow> keeps I (if b then m else m')"
  by simp

lemma keeps_case_option:
  "keeps I m \<Longrightarrow> (\<And>x. keeps I (f x)) \<Longrightarrow> keeps I (case v of None \<Rightarrow> m | Some x \<Rightarrow> f x)"
  by (cases v) simp_all

lemma keeps_case_prod: "(\<And>x y. keeps I (f x y)) \<Longrightarrow> keeps I (case p of (x, y) \<Rightarrow> f x y)"
  by (cases p) simp

lemma keeps_let: "(\<And>x. keeps I (f x)) \<Longrightarrow> keeps I (let x = v in f x)"
  by simp

lemmas keeps_intros =
  keeps_basic keeps_andthen keeps_for_each keeps_map_each keeps_if keeps_case_option
  keeps_case_prod keeps_let

lemma transaction_inv: "keeps I m \<Longrightarrow> I d \<Longrightarrow> I (snd (transaction m d))"
  by (simp add: transaction_def keeps_def split: sum.split prod.split)

lemma transaction_error: "fst (transaction m d) = Inl e \<Longrightarrow> snd (transaction m d) = d"
  by (auto simp: transaction_def split: sum.splits)

lemma transaction_ok:
  "fst (transaction m d) = Inr x \<longleftrightarrow> m d = Inr (x, snd (transaction m d))"
  by (auto simp: transaction_def split: sum.splits)

lemma transaction_cases:
  obtains e where "m d = Inl e" "transaction m d = (Inl e, d)"
  | x d' where "m d = Inr (x, d')" "transaction m d = (Inr x, d')"
proof (cases "m d")
  case (Inl e)
  with that(1) show thesis by (simp add: transaction_def)
next
  case (Inr r)
  with that(2) [of "fst r" "snd r"] show thesis by (simp add: transaction_def split: prod.split)
qed

lemma filter_by_key:
  assumes "distinct (map k xs)" "x \<in> set xs" "p x"
  shows "filter (\<lambda>y. k y = k x \<and> p y) xs = [x]"
  using assms
proof (induction xs)
  case (Cons a xs)
  show ?case
  proof (cases "k a = k x")
    case True
    then have "a = x" using Cons.prems by (auto simp: distinct_map inj_on_def image_iff)
    moreover have "filter (\<lambda>y. k y = k x \<and> p y) xs = []"
      using Cons.prems \<open>a = x\<close> by (auto simp: filter_empty_conv image_iff)
    ultimately show ?thesis using Cons.prems by simp
  qed (use Cons in auto)
qed simp

lemma find_unique:
  assumes "x \<in> set xs" "p x" "\<And>y. y \<in> set xs \<Longrightarrow> p y \<Longrightarrow> y = x"
  shows "List.find p xs = Some x"
proof (cases "List.find p xs")
  case None
  with assms(1,2) show ?thesis by (auto simp: find_None_iff)
next
  case (Some y)
  then have "y \<in> set xs" "p y" by (auto simp: find_Some_iff)
  with Some assms(3) show ?thesis by blast
qed

text \<open>SQL counts characters: a UTF-8 continuation byte does not start one.\<close>

definition sql_length :: "string \<Rightarrow> nat" where
  "sql_length s = length (filter (\<lambda>c. \<not> (128 \<le> (of_char c :: nat) \<and> (of_char c :: nat) < 192)) s)"

text \<open>What a store reports to the scheduler about its pool.\<close>

record workload_summary =
  ws_ready :: nat
  ws_claimed :: nat
  ws_expired :: nat
  ws_oldest_due :: "int option"
  ws_next_due :: "int option"

section \<open>Claims\<close>

text \<open>
  What a store that hands out work owes the dispatcher. \<open>held\<close> is the work currently
  handed out: a claim hands out work that nobody holds, never the same twice, at most
  as much as it was asked for, and an error changes nothing. Then, as long as nothing is
  given back, no piece of work is ever handed out twice.
\<close>

locale claim_store =
  fixes claim :: "'a \<Rightarrow> 's \<Rightarrow> 'c list result \<times> 's"
    and limit :: "'a \<Rightarrow> nat"
    and ids :: "'c \<Rightarrow> 'i list"
    and held :: "'s \<Rightarrow> 'i set"
    and inv :: "'s \<Rightarrow> bool"
  assumes claim_ok: "inv s \<Longrightarrow> claim a s = (Inr cs, s') \<Longrightarrow>
      inv s' \<and> distinct (concat (map ids cs)) \<and> held s \<inter> set (concat (map ids cs)) = {}
      \<and> held s' = held s \<union> set (concat (map ids cs)) \<and> length cs \<le> limit a"
    and claim_error: "claim a s = (Inl e, s') \<Longrightarrow> s' = s"
begin

fun claims :: "'a list \<Rightarrow> 's \<Rightarrow> 'c list \<times> 's" where
  "claims [] s = ([], s)"
| "claims (a # as) s = (case claim a s of
      (Inl e, s') \<Rightarrow> claims as s'
    | (Inr cs, s') \<Rightarrow> (case claims as s' of (ds, s'') \<Rightarrow> (cs @ ds, s'')))"

lemma claims_exclusive:
  assumes "inv s" "claims as s = (cs, s')"
  shows "distinct (concat (map ids cs)) \<and> held s \<inter> set (concat (map ids cs)) = {}
    \<and> held s' = held s \<union> set (concat (map ids cs)) \<and> inv s'"
  using assms
proof (induction as arbitrary: s cs s')
  case (Cons a as)
  show ?case
  proof (cases "claim a s")
    case (Pair r s1)
    show ?thesis
    proof (cases r)
      case (Inl e)
      with Pair claim_error [of a s e s1] Cons show ?thesis by auto
    next
      case (Inr bs)
      with Pair claim_ok [OF Cons.prems(1)] have b: "inv s1" "distinct (concat (map ids bs))"
        "held s \<inter> set (concat (map ids bs)) = {}" "held s1 = held s \<union> set (concat (map ids bs))" by auto
      obtain ds s2 where rest: "claims as s1 = (ds, s2)" by fastforce
      with Pair Inr Cons.prems(2) have cs: "cs = bs @ ds" "s' = s2" by auto
      from Cons.IH [OF b(1) rest] b show ?thesis by (auto simp: cs)
    qed
  qed
qed simp

lemma claims_length:
  assumes "inv s" "claims as s = (cs, s')"
  shows "length cs \<le> sum_list (map limit as)"
  using assms
proof (induction as arbitrary: s cs s')
  case (Cons a as)
  obtain r s1 where c: "claim a s = (r, s1)" by fastforce
  show ?case
  proof (cases r)
    case (Inl e)
    with c claim_error [of a s e s1] Cons.IH [of s] Cons.prems show ?thesis by fastforce
  next
    case (Inr bs)
    obtain ds s2 where rest: "claims as s1 = (ds, s2)" by fastforce
    have "inv s1" "length bs \<le> limit a" using claim_ok [OF Cons.prems(1)] c Inr by auto
    with Cons.IH [of s1] rest Cons.prems(2) c Inr show ?thesis by fastforce
  qed
qed simp

end

end
