(* ===== verification/Queue_Tables.thy ===== *)
theory Queue_Tables
  imports Transactions
begin

text \<open>
  The queue tables of the scheduler database and the SQL statements the store
  executes on them, with their \<open>CHECK\<close> constraints, unique and foreign keys and
  triggers (migrations V21 to V23 under
  \<open>crates/storage/refinery-migrations/control\<close>). A table is the list of its rows. The
  columns \<open>state\<close>, \<open>claim_batch_id\<close>, \<open>consumer_id\<close> and \<open>consumer_generation\<close> of a
  message are tied by a \<open>CHECK\<close> and become one option. Identifiers are numbers: the
  canonical lower-case text of a UUID orders like its 128-bit value.
\<close>

section \<open>Rows\<close>

record queue_config =
  delivery_delay_seconds :: nat
  retention_seconds :: nat
  max_message_bytes :: nat
  max_batch_messages :: nat
  max_batch_bytes :: nat
  max_backlog_bytes :: nat

datatype queue_state = Accepting | Configuring | Deleting

record queue_row =
  q_id :: nat
  q_lifecycle :: nat
  q_config_gen :: nat
  q_state :: queue_state
  q_config :: queue_config
  q_count :: int
  q_bytes :: int
  q_created :: int
  q_updated :: int

datatype content_type = Json | Text | Bytes | V8

record claim_ref =
  cl_batch :: nat
  cl_consumer :: nat
  cl_generation :: nat

record message_row =
  m_seq :: nat
  m_id :: nat
  m_queue :: nat
  m_generation :: nat
  m_enqueued :: int
  m_available :: int
  m_expires :: int
  m_type :: content_type
  m_body :: "byte list"
  m_bytes :: int
  m_attempts :: nat
  m_claim :: "claim_ref option"

record queue_metrics =
  backlog_count :: nat
  backlog_bytes :: nat
  oldest_message :: "int option"

record operation_row =
  o_request :: nat
  o_queue :: nat
  o_generation :: nat
  o_fingerprint :: "byte list"
  o_message_ids :: "nat list"
  o_metrics :: queue_metrics
  o_output_gate :: bool
  o_retention :: nat
  o_created :: int
  o_finalized :: "int option"
  o_expires :: "int option"

record consumer_row =
  c_id :: nat
  c_queue :: nat
  c_generation :: nat
  c_version :: nat
  c_worker :: nat
  c_execution :: nat
  c_entrypoint :: "string option"
  c_active :: bool
  c_max_batch_size :: nat
  c_max_batch_timeout_ms :: nat
  c_max_retries :: nat
  c_retry_delay_seconds :: nat
  c_max_concurrency :: nat
  c_dlq :: "(nat \<times> nat) option"

record batch_row =
  b_id :: nat
  b_queue :: nat
  b_consumer :: nat
  b_generation :: nat
  b_version :: nat
  b_execution :: nat
  b_entrypoint :: "string option"
  b_count :: nat
  b_created :: int

record pending_row =
  p_message :: nat
  p_source :: nat
  p_target :: nat
  p_target_gen :: nat
  p_attempts :: nat
  p_next :: int
  p_created :: int

record db =
  queues :: "queue_row list"
  messages :: "message_row list"
  next_seq :: nat
  operations :: "operation_row list"
  consumers :: "consumer_row list"
  batches :: "batch_row list"
  pendings :: "pending_row list"

definition empty_db :: db where
  "empty_db = \<lparr>queues = [], messages = [], next_seq = 1, operations = [], consumers = [],
               batches = [], pendings = []\<rparr>"

type_synonym 'a tx = "(db, 'a) stx"

section \<open>Statements on \<open>queue_state\<close>\<close>

definition has_queue :: "nat \<Rightarrow> db \<Rightarrow> bool" where
  "has_queue qid d = list_ex (\<lambda>q. q_id q = qid) (queues d)"

definition queue_checks :: "queue_row \<Rightarrow> bool" where
  "queue_checks q \<longleftrightarrow>
     q_lifecycle q \<ge> 1 \<and> q_config_gen q \<ge> 1
     \<and> delivery_delay_seconds (q_config q) \<le> 86400
     \<and> 60 \<le> retention_seconds (q_config q) \<and> retention_seconds (q_config q) \<le> 1209600
     \<and> max_message_bytes (q_config q) > 0 \<and> max_batch_messages (q_config q) > 0
     \<and> max_batch_bytes (q_config q) > 0 \<and> max_backlog_bytes (q_config q) > 0
     \<and> q_count q \<ge> 0 \<and> q_bytes q \<ge> 0"

definition insert_queue :: "queue_row \<Rightarrow> db \<Rightarrow> sql_error + (unit \<times> db)" where
  "insert_queue q d =
    (if has_queue (q_id q) d \<or> \<not> queue_checks q then Inl ConstraintFailed
     else Inr ((), d\<lparr>queues := queues d @ [q]\<rparr>))"

text \<open>\<open>INSERT OR IGNORE\<close> skips the row on a uniqueness or \<open>CHECK\<close> conflict.\<close>

definition insert_queue_or_ignore :: "queue_row \<Rightarrow> db \<Rightarrow> sql_error + (unit \<times> db)" where
  "insert_queue_or_ignore q d =
    (if has_queue (q_id q) d \<or> \<not> queue_checks q then Inr ((), d)
     else Inr ((), d\<lparr>queues := queues d @ [q]\<rparr>))"

definition update_queues ::
  "(queue_row \<Rightarrow> bool) \<Rightarrow> (queue_row \<Rightarrow> queue_row) \<Rightarrow> db \<Rightarrow> sql_error + (nat \<times> db)" where
  "update_queues p f d =
    (if list_all (\<lambda>q. p q \<longrightarrow> queue_checks (f q)) (queues d)
     then Inr (length (filter p (queues d)),
               d\<lparr>queues := map (\<lambda>q. if p q then f q else q) (queues d)\<rparr>)
     else Inl ConstraintFailed)"

text \<open>
  Deleting a queue runs the backlog trigger and the foreign keys of every child
  table (messages, operations, consumers and their dead-letter target, batches,
  pending rows).
\<close>

definition queue_referenced :: "nat \<Rightarrow> db \<Rightarrow> bool" where
  "queue_referenced qid d \<longleftrightarrow>
     list_ex (\<lambda>m. m_queue m = qid) (messages d)
     \<or> list_ex (\<lambda>x. o_queue x = qid) (operations d)
     \<or> list_ex (\<lambda>c. c_queue c = qid \<or> (case c_dlq c of None \<Rightarrow> False | Some (t, _) \<Rightarrow> t = qid))
         (consumers d)
     \<or> list_ex (\<lambda>b. b_queue b = qid) (batches d)
     \<or> list_ex (\<lambda>p. p_source p = qid \<or> p_target p = qid) (pendings d)"

definition delete_queues :: "(queue_row \<Rightarrow> bool) \<Rightarrow> db \<Rightarrow> sql_error + (nat \<times> db)" where
  "delete_queues p d =
    (if list_ex (\<lambda>q. p q \<and> (q_count q \<noteq> 0 \<or> q_bytes q \<noteq> 0 \<or> queue_referenced (q_id q) d)) (queues d)
     then Inl ConstraintFailed
     else Inr (length (filter p (queues d)), d\<lparr>queues := filter (\<lambda>q. \<not> p q) (queues d)\<rparr>))"

section \<open>Statements on \<open>queue_messages\<close>\<close>

definition message_checks :: "message_row \<Rightarrow> bool" where
  "message_checks m \<longleftrightarrow>
     m_generation m \<ge> 1 \<and> m_bytes m = int (length (m_body m))
     \<and> m_available m \<ge> m_enqueued m \<and> m_expires m > m_enqueued m"

definition message_authority :: "message_row \<Rightarrow> queue_row \<Rightarrow> bool" where
  "message_authority m q \<longleftrightarrow>
     q_id q = m_queue m \<and> q_state q = Accepting \<and> q_lifecycle q = m_generation m
     \<and> m_bytes m \<le> int (max_message_bytes (q_config q))
     \<and> m_expires m = m_enqueued m + int (retention_seconds (q_config q)) * 1000
     \<and> q_bytes q + m_bytes m \<le> int (max_backlog_bytes (q_config q))"

definition count_insert :: "message_row \<Rightarrow> queue_row \<Rightarrow> queue_row" where
  "count_insert m q =
    (if q_id q = m_queue m
     then q\<lparr>q_count := q_count q + 1, q_bytes := q_bytes q + m_bytes m, q_updated := m_enqueued m\<rparr>
     else q)"

text \<open>\<open>AUTOINCREMENT\<close> assigns the sequence number.\<close>

definition insert_message :: "message_row \<Rightarrow> db \<Rightarrow> sql_error + (unit \<times> db)" where
  "insert_message m d =
    (if m_claim m \<noteq> None \<or> m_attempts m \<noteq> 0 then Inl ConstraintFailed
     else if \<not> list_ex (message_authority m) (queues d) then Inl AuthorityAbort
     else if \<not> message_checks m \<or> list_ex (\<lambda>x. m_id x = m_id m) (messages d)
     then Inl ConstraintFailed
     else Inr ((), d\<lparr>messages := messages d @ [m\<lparr>m_seq := next_seq d\<rparr>],
                     next_seq := next_seq d + 1,
                     queues := map (count_insert m) (queues d)\<rparr>))"

definition batch_backs :: "nat \<Rightarrow> claim_ref \<Rightarrow> batch_row \<Rightarrow> bool" where
  "batch_backs qid c b \<longleftrightarrow> b_id b = cl_batch c \<and> b_queue b = qid
     \<and> b_consumer b = cl_consumer c \<and> b_generation b = cl_generation c"

definition claim_backed :: "db \<Rightarrow> nat \<Rightarrow> claim_ref \<Rightarrow> bool" where
  "claim_backed d qid c = list_ex (batch_backs qid c) (batches d)"

definition delete_guard :: "db \<Rightarrow> message_row \<Rightarrow> bool" where
  "delete_guard d m \<longleftrightarrow>
     (case m_claim m of None \<Rightarrow> True
      | Some c \<Rightarrow> list_ex (\<lambda>b. b_id b = cl_batch c \<and> b_consumer b = cl_consumer c
                                \<and> b_generation b = cl_generation c) (batches d))"

definition count_delete :: "message_row list \<Rightarrow> queue_row \<Rightarrow> queue_row" where
  "count_delete victims q =
     q\<lparr>q_count := q_count q - count_where (\<lambda>m. m_queue m = q_id q) victims,
       q_bytes := q_bytes q - sum_where (\<lambda>m. m_queue m = q_id q) m_bytes victims\<rparr>"

definition delete_messages :: "(message_row \<Rightarrow> bool) \<Rightarrow> db \<Rightarrow> sql_error + (nat \<times> db)" where
  "delete_messages p d =
    (let victims = filter p (messages d); qs = map (count_delete victims) (queues d)
     in if \<not> list_all (delete_guard d) victims
           \<or> list_ex (\<lambda>q. q_count q < 0 \<or> q_bytes q < 0) qs
        then Inl ConstraintFailed
        else Inr (length victims,
                  d\<lparr>messages := filter (\<lambda>m. \<not> p m) (messages d), queues := qs\<rparr>))"

definition immutable_guard :: "message_row \<Rightarrow> message_row \<Rightarrow> bool" where
  "immutable_guard old new \<longleftrightarrow>
     m_seq old = m_seq new \<and> m_id old = m_id new \<and> m_queue old = m_queue new
     \<and> m_generation old = m_generation new \<and> m_enqueued old = m_enqueued new
     \<and> m_expires old = m_expires new \<and> m_type old = m_type new
     \<and> m_body old = m_body new \<and> m_bytes old = m_bytes new"

definition transition_guard :: "db \<Rightarrow> message_row \<Rightarrow> message_row \<Rightarrow> bool" where
  "transition_guard d old new \<longleftrightarrow>
     (case (m_claim old, m_claim new) of
        (None, Some c) \<Rightarrow> m_attempts old = m_attempts new \<and> claim_backed d (m_queue new) c
      | (Some c, None) \<Rightarrow> m_attempts old \<le> m_attempts new \<and> m_attempts new \<le> m_attempts old + 1
                           \<and> claim_backed d (m_queue old) c
      | _ \<Rightarrow> False)"

definition update_messages ::
  "(message_row \<Rightarrow> bool) \<Rightarrow> (message_row \<Rightarrow> message_row) \<Rightarrow> db \<Rightarrow> sql_error + (nat \<times> db)" where
  "update_messages p f d =
    (if list_all (\<lambda>m. p m \<longrightarrow> immutable_guard m (f m) \<and> transition_guard d m (f m)
                               \<and> message_checks (f m)) (messages d)
     then Inr (length (filter p (messages d)),
               d\<lparr>messages := map (\<lambda>m. if p m then f m else m) (messages d)\<rparr>)
     else Inl ConstraintFailed)"

section \<open>Statements on the other tables\<close>

definition operation_checks :: "operation_row \<Rightarrow> bool" where
  "operation_checks x \<longleftrightarrow>
     o_generation x \<ge> 1 \<and> length (o_fingerprint x) = 32
     \<and> 60 \<le> o_retention x \<and> o_retention x \<le> 1209600
     \<and> (if o_output_gate x
        then (case (o_finalized x, o_expires x) of
                (None, None) \<Rightarrow> True
              | (Some f, Some e) \<Rightarrow> e > f
              | _ \<Rightarrow> False)
        else o_finalized x = Some (o_created x)
             \<and> (case o_expires x of None \<Rightarrow> False | Some e \<Rightarrow> e > o_created x))"

definition insert_operation :: "operation_row \<Rightarrow> db \<Rightarrow> sql_error + (unit \<times> db)" where
  "insert_operation x d =
    (if list_ex (\<lambda>y. o_request y = o_request x) (operations d) \<or> \<not> operation_checks x
        \<or> \<not> has_queue (o_queue x) d
     then Inl ConstraintFailed
     else Inr ((), d\<lparr>operations := operations d @ [x]\<rparr>))"

definition update_operations ::
  "(operation_row \<Rightarrow> bool) \<Rightarrow> (operation_row \<Rightarrow> operation_row) \<Rightarrow> db \<Rightarrow> sql_error + (nat \<times> db)" where
  "update_operations p f d =
    (if list_all (\<lambda>x. p x \<longrightarrow> operation_checks (f x)) (operations d)
     then Inr (length (filter p (operations d)),
               d\<lparr>operations := map (\<lambda>x. if p x then f x else x) (operations d)\<rparr>)
     else Inl ConstraintFailed)"

definition delete_operations :: "(operation_row \<Rightarrow> bool) \<Rightarrow> db \<Rightarrow> sql_error + (nat \<times> db)" where
  "delete_operations p d =
     Inr (length (filter p (operations d)), d\<lparr>operations := filter (\<lambda>x. \<not> p x) (operations d)\<rparr>)"

definition batch_authority :: "batch_row \<Rightarrow> consumer_row \<Rightarrow> bool" where
  "batch_authority b c \<longleftrightarrow>
     c_id c = b_consumer b \<and> c_queue c = b_queue b \<and> c_generation c = b_generation b
     \<and> c_version c = b_version b \<and> c_execution c = b_execution b
     \<and> c_entrypoint c = b_entrypoint b \<and> c_active c \<and> b_count b \<le> c_max_batch_size c"

definition insert_batch :: "batch_row \<Rightarrow> db \<Rightarrow> sql_error + (unit \<times> db)" where
  "insert_batch b d =
    (if \<not> list_ex (batch_authority b) (consumers d)
        \<or> list_ex (\<lambda>x. b_id x = b_id b) (batches d)
        \<or> \<not> (1 \<le> b_count b \<and> b_count b \<le> 100) \<or> b_generation b = 0 \<or> b_execution b = 0
        \<or> \<not> has_queue (b_queue b) d
     then Inl ConstraintFailed
     else Inr ((), d\<lparr>batches := batches d @ [b]\<rparr>))"

definition delete_batches :: "(batch_row \<Rightarrow> bool) \<Rightarrow> db \<Rightarrow> sql_error + (nat \<times> db)" where
  "delete_batches p d =
    (if list_ex (\<lambda>b. p b \<and> list_ex (\<lambda>m. case m_claim m of None \<Rightarrow> False
                                         | Some c \<Rightarrow> cl_batch c = b_id b) (messages d)) (batches d)
     then Inl ConstraintFailed
     else Inr (length (filter p (batches d)), d\<lparr>batches := filter (\<lambda>b. \<not> p b) (batches d)\<rparr>))"

definition pending_authority :: "pending_row \<Rightarrow> db \<Rightarrow> bool" where
  "pending_authority p d \<longleftrightarrow>
     list_ex (\<lambda>m. m_id m = p_message p \<and> m_queue m = p_source p \<and> m_claim m = None
                   \<and> m_attempts m = p_attempts p) (messages d)
     \<and> list_ex (\<lambda>q. q_id q = p_target p \<and> q_lifecycle q = p_target_gen p) (queues d)"

definition insert_pending :: "pending_row \<Rightarrow> db \<Rightarrow> sql_error + (unit \<times> db)" where
  "insert_pending p d =
    (if \<not> pending_authority p d \<or> list_ex (\<lambda>x. p_message x = p_message p) (pendings d)
        \<or> p_source p = p_target p \<or> p_target_gen p = 0 \<or> p_attempts p = 0
        \<or> \<not> has_queue (p_source p) d \<or> \<not> has_queue (p_target p) d
     then Inl ConstraintFailed
     else Inr ((), d\<lparr>pendings := pendings d @ [p]\<rparr>))"

definition update_pending_next :: "(pending_row \<Rightarrow> bool) \<Rightarrow> int \<Rightarrow> db \<Rightarrow> sql_error + (nat \<times> db)" where
  "update_pending_next p t d =
     Inr (length (filter p (pendings d)),
          d\<lparr>pendings := map (\<lambda>x. if p x then x\<lparr>p_next := t\<rparr> else x) (pendings d)\<rparr>)"

definition delete_pendings :: "(pending_row \<Rightarrow> bool) \<Rightarrow> db \<Rightarrow> sql_error + (nat \<times> db)" where
  "delete_pendings p d =
     Inr (length (filter p (pendings d)), d\<lparr>pendings := filter (\<lambda>x. \<not> p x) (pendings d)\<rparr>)"

definition is_pending :: "db \<Rightarrow> nat \<Rightarrow> bool" where
  "is_pending d i = list_ex (\<lambda>p. p_message p = i) (pendings d)"

end
