(* ===== verification/Queue_Inv.thy ===== *)
theory Queue_Inv
  imports Queue_Tables
begin

text \<open>
  The invariant of the queue tables and the proof that every SQL statement keeps
  it: keys are unique, every message belongs to a queue and has a sequence number
  below the counter, the cached counters of a queue are exact, and every claimed
  message is backed by a delivery batch of its own queue and is not waiting for its
  dead-letter queue.
\<close>

section \<open>Invariant\<close>

definition keys_ok :: "db \<Rightarrow> bool" where
  "keys_ok d \<longleftrightarrow>
     distinct (map q_id (queues d)) \<and> distinct (map m_id (messages d))
     \<and> distinct (map m_seq (messages d)) \<and> distinct (map o_request (operations d))
     \<and> distinct (map b_id (batches d)) \<and> distinct (map p_message (pendings d))"

definition rows_ok :: "db \<Rightarrow> bool" where
  "rows_ok d \<longleftrightarrow>
     list_all (\<lambda>m. m_seq m < next_seq d \<and> message_checks m \<and> has_queue (m_queue m) d) (messages d)"

definition counters_ok :: "db \<Rightarrow> bool" where
  "counters_ok d \<longleftrightarrow>
     list_all (\<lambda>q. q_count q = count_where (\<lambda>m. m_queue m = q_id q) (messages d)
                 \<and> q_bytes q = sum_where (\<lambda>m. m_queue m = q_id q) m_bytes (messages d)) (queues d)"

definition claim_ok :: "db \<Rightarrow> message_row \<Rightarrow> bool" where
  "claim_ok d m \<longleftrightarrow>
     (case m_claim m of None \<Rightarrow> True
      | Some c \<Rightarrow> claim_backed d (m_queue m) c \<and> \<not> is_pending d (m_id m))"

definition claims_ok :: "db \<Rightarrow> bool" where
  "claims_ok d \<longleftrightarrow> list_all (claim_ok d) (messages d)"

definition queue_inv :: "db \<Rightarrow> bool" where
  "queue_inv d \<longleftrightarrow> keys_ok d \<and> rows_ok d \<and> counters_ok d \<and> claims_ok d"

lemma queue_invI: "keys_ok d \<Longrightarrow> rows_ok d \<Longrightarrow> counters_ok d \<Longrightarrow> claims_ok d \<Longrightarrow> queue_inv d"
  by (simp add: queue_inv_def)

lemma queue_invD:
  assumes "queue_inv d"
  shows "keys_ok d" "rows_ok d" "counters_ok d" "claims_ok d"
  using assms by (simp_all add: queue_inv_def)

lemma empty_db_inv: "queue_inv empty_db"
  by (simp add: queue_inv_def keys_ok_def rows_ok_def counters_ok_def claims_ok_def empty_db_def)

lemma has_queue_iff: "has_queue i d \<longleftrightarrow> (\<exists>q \<in> set (queues d). q_id q = i)"
  by (simp add: has_queue_def list_ex_iff)

lemma has_queue_ids: "has_queue i d \<longleftrightarrow> i \<in> set (map q_id (queues d))"
  by (auto simp: has_queue_iff)

section \<open>Sums over the message table\<close>

lemma count_where_filter_not:
  "count_where p (filter (\<lambda>x. \<not> r x) xs) = count_where p xs - count_where p (filter r xs)"
  by (induction xs) simp_all

lemma sum_where_filter_not:
  "sum_where p f (filter (\<lambda>x. \<not> r x) xs) = sum_where p f xs - sum_where p f (filter r xs)"
  by (induction xs) simp_all

lemma count_where_map_cong:
  "(\<And>x. x \<in> set xs \<Longrightarrow> p (g x) = p x) \<Longrightarrow> count_where p (map g xs) = count_where p xs"
  by (induction xs) simp_all

lemma sum_where_map_cong:
  "(\<And>x. x \<in> set xs \<Longrightarrow> p (g x) = p x \<and> f (g x) = f x) \<Longrightarrow> sum_where p f (map g xs) = sum_where p f xs"
  by (induction xs) simp_all

lemma count_where_none: "(\<And>x. x \<in> set xs \<Longrightarrow> \<not> p x) \<Longrightarrow> count_where p xs = 0"
  by (induction xs) simp_all

lemma sum_where_none: "(\<And>x. x \<in> set xs \<Longrightarrow> \<not> p x) \<Longrightarrow> sum_where p f xs = 0"
  by (induction xs) simp_all

section \<open>Statements on queues\<close>

lemma insert_queue_inv:
  assumes "queue_inv d" "insert_queue q d = Inr (u, d')" "q_count q = 0" "q_bytes q = 0"
  shows "queue_inv d'"
proof -
  have d': "d' = d\<lparr>queues := queues d @ [q]\<rparr>" and new: "\<not> has_queue (q_id q) d"
    using assms(2) by (auto simp: insert_queue_def split: if_splits)
  have none: "\<And>m. m \<in> set (messages d) \<Longrightarrow> m_queue m \<noteq> q_id q"
    using queue_invD(2) [OF assms(1)] new by (auto simp: rows_ok_def list_all_iff)
  show ?thesis
    using assms(1,3,4) new none
    by (auto simp: d' queue_inv_def keys_ok_def rows_ok_def counters_ok_def claims_ok_def claim_ok_def
        list_all_iff has_queue_iff claim_backed_def is_pending_def count_where_none sum_where_none
        split: option.splits)
qed

lemma insert_queue_or_ignore_inv:
  assumes "queue_inv d" "insert_queue_or_ignore q d = Inr (u, d')" "q_count q = 0" "q_bytes q = 0"
  shows "queue_inv d'"
proof (cases "has_queue (q_id q) d \<or> \<not> queue_checks q")
  case True
  with assms(1,2) show ?thesis by (simp add: insert_queue_or_ignore_def)
next
  case False
  with assms(2) have "insert_queue q d = Inr (u, d')"
    by (simp add: insert_queue_or_ignore_def insert_queue_def)
  with assms show ?thesis by (blast intro: insert_queue_inv)
qed

lemma same_messages_inv:
  assumes "queue_inv d" "messages d' = messages d" "next_seq d' = next_seq d"
    "batches d' = batches d" "pendings d' = pendings d"
    "map q_id (queues d') = map q_id (queues d)" "counters_ok d'"
    "distinct (map o_request (operations d'))"
  shows "queue_inv d'"
proof -
  have hq: "has_queue i d' = has_queue i d" for i
    by (simp only: has_queue_ids assms(6))
  show ?thesis
    using assms
    by (auto simp: queue_inv_def keys_ok_def rows_ok_def claims_ok_def claim_ok_def list_all_iff hq
        claim_backed_def is_pending_def split: option.splits)
qed

lemma update_queues_inv:
  assumes "queue_inv d" "update_queues p f d = Inr (n, d')"
    and f: "\<And>q. p q \<Longrightarrow> q_id (f q) = q_id q \<and> q_count (f q) = q_count q \<and> q_bytes (f q) = q_bytes q"
  shows "queue_inv d'"
proof -
  have d': "d' = d\<lparr>queues := map (\<lambda>q. if p q then f q else q) (queues d)\<rparr>"
    using assms(2) by (auto simp: update_queues_def split: if_splits)
  show ?thesis
  proof (rule same_messages_inv [OF assms(1)])
    show "map q_id (queues d') = map q_id (queues d)"
      using f by (simp add: d')
    show "counters_ok d'"
      using queue_invD(3) [OF assms(1)] f by (auto simp: d' counters_ok_def list_all_iff)
    show "distinct (map o_request (operations d'))"
      using queue_invD(1) [OF assms(1)] by (simp add: d' keys_ok_def)
  qed (simp_all add: d')
qed

lemma delete_queues_inv:
  assumes "queue_inv d" "delete_queues p d = Inr (n, d')"
  shows "queue_inv d'"
proof -
  have d': "d' = d\<lparr>queues := filter (\<lambda>q. \<not> p q) (queues d)\<rparr>"
    and free: "\<And>q. q \<in> set (queues d) \<Longrightarrow> p q \<Longrightarrow> \<not> queue_referenced (q_id q) d"
    using assms(2) by (auto simp: delete_queues_def list_ex_iff split: if_splits)
  have "has_queue (m_queue m) d'" if m: "m \<in> set (messages d)" for m
  proof -
    obtain q where q: "q \<in> set (queues d)" "q_id q = m_queue m"
      using queue_invD(2) [OF assms(1)] m by (auto simp: rows_ok_def list_all_iff has_queue_iff)
    have "\<not> p q" using free [OF q(1)] q(2) m by (auto simp: queue_referenced_def list_ex_iff)
    with q show ?thesis by (auto simp: d' has_queue_iff)
  qed
  then show ?thesis
    using assms(1)
    by (auto simp: d' queue_inv_def keys_ok_def rows_ok_def counters_ok_def claims_ok_def claim_ok_def
        list_all_iff claim_backed_def is_pending_def distinct_map_filter split: option.splits)
qed

section \<open>Statements on messages\<close>

lemma map_q_id_count_insert [simp]: "map q_id (map (count_insert m) qs) = map q_id qs"
  by (simp add: count_insert_def)

lemma map_q_id_count_delete [simp]: "map q_id (map (count_delete ms) qs) = map q_id qs"
  by (simp add: count_delete_def)

lemma q_id_count [simp]:
  "q_id (count_insert m q) = q_id q" "q_id (count_delete ms q) = q_id q"
  "q_id \<circ> count_insert m = q_id" "q_id \<circ> count_delete ms = q_id"
  by (simp_all add: count_insert_def count_delete_def fun_eq_iff)

lemma insert_message_Inr:
  assumes "insert_message m d = Inr (u, d')"
  shows "d' = d\<lparr>messages := messages d @ [m\<lparr>m_seq := next_seq d\<rparr>], next_seq := next_seq d + 1,
                queues := map (count_insert m) (queues d)\<rparr>"
    and "m_claim m = None" "m_attempts m = 0" "message_checks m"
    and "\<And>x. x \<in> set (messages d) \<Longrightarrow> m_id x \<noteq> m_id m"
    and "\<exists>q \<in> set (queues d). message_authority m q"
  using assms by (auto simp: insert_message_def list_ex_iff split: if_splits)

lemma message_checks_seq [simp]: "message_checks (m\<lparr>m_seq := s\<rparr>) = message_checks m"
  by (simp add: message_checks_def)

lemma insert_message_inv:
  assumes inv: "queue_inv d" and ins: "insert_message m d = Inr (u, d')"
  shows "queue_inv d'"
proof -
  note ok = insert_message_Inr [OF ins]
  have own: "has_queue (m_queue m) d"
    using ok(6) by (auto simp: has_queue_iff message_authority_def)
  have keys: "keys_ok d'"
  proof -
    have "m_id m \<notin> m_id ` set (messages d)" using ok(5) by (metis imageE)
    moreover have "next_seq d \<notin> m_seq ` set (messages d)"
      using queue_invD(2) [OF inv] by (auto simp: rows_ok_def list_all_iff)
    ultimately show ?thesis
      using queue_invD(1) [OF inv] by (simp add: keys_ok_def ok(1))
  qed
  have rows: "rows_ok d'"
    using queue_invD(2) [OF inv] own ok(4) by (auto simp: rows_ok_def list_all_iff ok(1) has_queue_iff)
  have counters: "counters_ok d'"
    using queue_invD(3) [OF inv]
    by (auto simp: counters_ok_def list_all_iff ok(1) count_insert_def)
  have claims: "claims_ok d'"
    using queue_invD(4) [OF inv] ok(2)
    by (auto simp: claims_ok_def claim_ok_def list_all_iff ok(1) claim_backed_def is_pending_def
        split: option.splits)
  show ?thesis by (rule queue_invI [OF keys rows counters claims])
qed

lemma delete_messages_Inr:
  assumes "delete_messages p d = Inr (n, d')"
  shows "d' = d\<lparr>messages := filter (\<lambda>m. \<not> p m) (messages d),
                queues := map (count_delete (filter p (messages d))) (queues d)\<rparr>"
    and "n = length (filter p (messages d))"
    and "list_all (delete_guard d) (filter p (messages d))"
  using assms by (auto simp: delete_messages_def Let_def split: if_splits)

lemma delete_messages_inv:
  assumes inv: "queue_inv d" and del: "delete_messages p d = Inr (n, d')"
  shows "queue_inv d'"
proof -
  note ok = delete_messages_Inr [OF del]
  have keys: "keys_ok d'"
    using queue_invD(1) [OF inv] by (simp add: keys_ok_def ok(1) distinct_map_filter)
  have rows: "rows_ok d'"
    using queue_invD(2) [OF inv] by (auto simp: rows_ok_def list_all_iff ok(1) has_queue_iff)
  have counters: "counters_ok d'"
    using queue_invD(3) [OF inv]
    by (auto simp: counters_ok_def list_all_iff ok(1) count_delete_def count_where_filter_not
        sum_where_filter_not)
  have claims: "claims_ok d'"
    using queue_invD(4) [OF inv]
    by (auto simp: claims_ok_def claim_ok_def list_all_iff ok(1) claim_backed_def is_pending_def
        split: option.splits)
  show ?thesis by (rule queue_invI [OF keys rows counters claims])
qed

lemma update_messages_Inr:
  assumes "update_messages p f d = Inr (n, d')"
  shows "d' = d\<lparr>messages := map (\<lambda>m. if p m then f m else m) (messages d)\<rparr>"
    and "n = length (filter p (messages d))"
    and "\<And>m. m \<in> set (messages d) \<Longrightarrow> p m \<Longrightarrow>
           immutable_guard m (f m) \<and> transition_guard d m (f m) \<and> message_checks (f m)"
  using assms by (auto simp: update_messages_def list_all_iff split: if_splits)

lemma update_messages_inv:
  assumes inv: "queue_inv d" and upd: "update_messages p f d = Inr (n, d')"
    and np: "\<And>m. m \<in> set (messages d) \<Longrightarrow> p m \<Longrightarrow> m_claim (f m) \<noteq> None \<Longrightarrow> \<not> is_pending d (m_id m)"
  shows "queue_inv d'"
proof -
  note ok = update_messages_Inr [OF upd]
  let ?g = "\<lambda>m. if p m then f m else m"
  have imm: "m_id (f m) = m_id m" "m_seq (f m) = m_seq m" "m_queue (f m) = m_queue m"
    "m_bytes (f m) = m_bytes m" if "m \<in> set (messages d)" "p m" for m
    using ok(3) [OF that] by (auto simp: immutable_guard_def)
  have maps: "map m_id (map ?g (messages d)) = map m_id (messages d)"
    "map m_seq (map ?g (messages d)) = map m_seq (messages d)"
    using imm by simp_all
  have keys: "keys_ok d'"
    using queue_invD(1) [OF inv] maps by (simp add: keys_ok_def ok(1) del: map_map)
  have rows: "rows_ok d'"
    using queue_invD(2) [OF inv] ok(3) imm
    by (auto simp: rows_ok_def list_all_iff ok(1) has_queue_iff)
  have counters: "counters_ok d'"
    using queue_invD(3) [OF inv] imm
    by (simp add: counters_ok_def list_all_iff ok(1) count_where_map_cong sum_where_map_cong)
  have claims: "claims_ok d'"
  proof -
    have "claim_ok d' (?g m)" if m: "m \<in> set (messages d)" for m
    proof (cases "p m")
      case True
      then show ?thesis
        using ok(3) [OF m] np [OF m]
        by (auto simp: claim_ok_def transition_guard_def immutable_guard_def ok(1) claim_backed_def
            is_pending_def split: option.splits)
    next
      case False
      then show ?thesis
        using queue_invD(4) [OF inv] m
        by (auto simp: claims_ok_def claim_ok_def list_all_iff ok(1) claim_backed_def is_pending_def
            split: option.splits)
    qed
    moreover have "messages d' = map ?g (messages d)" by (simp add: ok(1))
    ultimately show ?thesis
      unfolding claims_ok_def list_all_iff by (metis (no_types, lifting) imageE set_map)
  qed
  show ?thesis by (rule queue_invI [OF keys rows counters claims])
qed

section \<open>Statements on the other tables\<close>

lemma operations_inv:
  assumes "queue_inv d" "d' = d\<lparr>operations := xs\<rparr>" "distinct (map o_request xs)"
  shows "queue_inv d'"
  by (rule same_messages_inv [OF assms(1)])
    (use assms queue_invD(3) [OF assms(1)] in \<open>simp_all add: counters_ok_def\<close>)

lemma insert_operation_inv:
  assumes "queue_inv d" "insert_operation x d = Inr (u, d')"
  shows "queue_inv d'"
  by (rule operations_inv [OF assms(1), of _ "operations d @ [x]"])
    (use assms queue_invD(1) [OF assms(1)] in
      \<open>auto simp: insert_operation_def keys_ok_def list_ex_iff split: if_splits\<close>)

lemma delete_operations_inv:
  assumes "queue_inv d" "delete_operations p d = Inr (n, d')"
  shows "queue_inv d'"
  by (rule operations_inv [OF assms(1), of _ "filter (\<lambda>x. \<not> p x) (operations d)"])
    (use assms queue_invD(1) [OF assms(1)] in
      \<open>auto simp: delete_operations_def keys_ok_def distinct_map_filter\<close>)

lemma update_operations_inv:
  assumes "queue_inv d" "update_operations p f d = Inr (n, d')"
    and "\<And>x. o_request (f x) = o_request x"
  shows "queue_inv d'"
proof (rule operations_inv [OF assms(1), of _ "map (\<lambda>x. if p x then f x else x) (operations d)"])
  show "d' = d\<lparr>operations := map (\<lambda>x. if p x then f x else x) (operations d)\<rparr>"
    using assms(2) by (auto simp: update_operations_def split: if_splits)
  have "map o_request (map (\<lambda>x. if p x then f x else x) (operations d)) = map o_request (operations d)"
    using assms(3) by simp
  then show "distinct (map o_request (map (\<lambda>x. if p x then f x else x) (operations d)))"
    using queue_invD(1) [OF assms(1)] by (simp only: keys_ok_def)
qed

lemma insert_batch_inv:
  assumes "queue_inv d" "insert_batch b d = Inr (u, d')"
  shows "queue_inv d'"
proof -
  have d': "d' = d\<lparr>batches := batches d @ [b]\<rparr>" and new: "b_id b \<notin> b_id ` set (batches d)"
    using assms(2) by (auto simp: insert_batch_def list_ex_iff split: if_splits)
  show ?thesis
    using assms(1) new
    by (auto simp: d' queue_inv_def keys_ok_def rows_ok_def counters_ok_def claims_ok_def claim_ok_def
        list_all_iff has_queue_def claim_backed_def is_pending_def split: option.splits)
qed

lemma delete_batches_inv:
  assumes "queue_inv d" "delete_batches p d = Inr (n, d')"
  shows "queue_inv d'"
proof -
  have d': "d' = d\<lparr>batches := filter (\<lambda>b. \<not> p b) (batches d)\<rparr>"
    and free: "\<And>b m c. b \<in> set (batches d) \<Longrightarrow> p b \<Longrightarrow> m \<in> set (messages d) \<Longrightarrow> m_claim m = Some c
       \<Longrightarrow> cl_batch c \<noteq> b_id b"
    using assms(2) by (auto simp: delete_batches_def list_ex_iff split: if_splits option.splits)
  have "claim_backed d' (m_queue m) c"
    if m: "m \<in> set (messages d)" "m_claim m = Some c" and "claim_backed d (m_queue m) c" for m c
    using that free by (fastforce simp: claim_backed_def list_ex_iff batch_backs_def d')
  then show ?thesis
    using assms(1)
    by (auto simp: d' queue_inv_def keys_ok_def rows_ok_def counters_ok_def claims_ok_def claim_ok_def
        list_all_iff has_queue_def is_pending_def distinct_map_filter split: option.splits)
qed

lemma pendings_inv:
  assumes "queue_inv d" "d' = d\<lparr>pendings := xs\<rparr>" "distinct (map p_message xs)"
    and "\<And>m. m \<in> set (messages d) \<Longrightarrow> m_claim m \<noteq> None \<Longrightarrow> m_id m \<notin> set (map p_message xs)"
  shows "queue_inv d'"
proof -
  have "claim_ok d' m" if "m \<in> set (messages d)" for m
  proof (cases "m_claim m")
    case (Some c)
    then have "claim_backed d (m_queue m) c"
      using queue_invD(4) [OF assms(1)] that by (auto simp: claims_ok_def claim_ok_def list_all_iff)
    moreover have "\<not> is_pending d' (m_id m)"
      using assms(4) [OF that] Some by (force simp: is_pending_def list_ex_iff assms(2))
    ultimately show ?thesis
      using Some by (simp add: claim_ok_def claim_backed_def assms(2))
  qed (simp add: claim_ok_def)
  then show ?thesis
    using assms(1,3)
    by (simp add: assms(2) queue_inv_def keys_ok_def rows_ok_def counters_ok_def claims_ok_def
        list_all_iff has_queue_def)
qed

lemma not_pending_claimed:
  assumes "queue_inv d" "m \<in> set (messages d)" "m_claim m \<noteq> None"
  shows "m_id m \<notin> set (map p_message (pendings d))"
proof -
  have "claim_ok d m" using queue_invD(4) [OF assms(1)] assms(2) by (simp add: claims_ok_def list_all_iff)
  with assms(3) show ?thesis
    by (auto simp: claim_ok_def is_pending_def list_ex_iff)
qed

lemma message_id_inj:
  assumes "queue_inv d" "m \<in> set (messages d)" "m' \<in> set (messages d)" "m_id m = m_id m'"
  shows "m = m'"
  using assms queue_invD(1) [OF assms(1)] by (auto simp: keys_ok_def distinct_map inj_on_def)

lemma insert_pending_inv:
  assumes "queue_inv d" "insert_pending p d = Inr (u, d')"
  shows "queue_inv d'"
proof (rule pendings_inv [OF assms(1), of _ "pendings d @ [p]"])
  show "d' = d\<lparr>pendings := pendings d @ [p]\<rparr>"
    using assms(2) by (auto simp: insert_pending_def split: if_splits)
  show "distinct (map p_message (pendings d @ [p]))"
    using assms(2) queue_invD(1) [OF assms(1)]
    by (auto simp: insert_pending_def keys_ok_def list_ex_iff split: if_splits)
  fix m assume m: "m \<in> set (messages d)" "m_claim m \<noteq> None"
  obtain m' where "m' \<in> set (messages d)" "m_id m' = p_message p" "m_claim m' = None"
    using assms(2) by (auto simp: insert_pending_def pending_authority_def list_ex_iff split: if_splits)
  with m message_id_inj [OF assms(1)] have "m_id m \<noteq> p_message p" by force
  then show "m_id m \<notin> set (map p_message (pendings d @ [p]))"
    using not_pending_claimed [OF assms(1) m] by auto
qed

lemma delete_pendings_inv:
  assumes "queue_inv d" "delete_pendings p d = Inr (n, d')"
  shows "queue_inv d'"
  by (rule pendings_inv [OF assms(1), of _ "filter (\<lambda>x. \<not> p x) (pendings d)"])
    (use assms queue_invD(1) [OF assms(1)] not_pending_claimed [OF assms(1)] in
      \<open>auto simp: delete_pendings_def keys_ok_def distinct_map_filter\<close>)

lemma update_pending_next_inv:
  assumes "queue_inv d" "update_pending_next p t d = Inr (n, d')"
  shows "queue_inv d'"
proof (rule pendings_inv [OF assms(1), of _ "map (\<lambda>x. if p x then x\<lparr>p_next := t\<rparr> else x) (pendings d)"])
  let ?xs = "map (\<lambda>x. if p x then x\<lparr>p_next := t\<rparr> else x) (pendings d)"
  have ids: "map p_message ?xs = map p_message (pendings d)" by simp
  show "d' = d\<lparr>pendings := ?xs\<rparr>" using assms(2) by (simp add: update_pending_next_def)
  show "distinct (map p_message ?xs)"
    using queue_invD(1) [OF assms(1)] by (simp only: ids keys_ok_def)
  show "m_id m \<notin> set (map p_message ?xs)" if "m \<in> set (messages d)" "m_claim m \<noteq> None" for m
    using not_pending_claimed [OF assms(1) that] by (simp only: ids) simp
qed

lemma keeps_stmt:
  "(\<And>d x d'. queue_inv d \<Longrightarrow> f d = Inr (x, d') \<Longrightarrow> queue_inv d') \<Longrightarrow> keeps queue_inv (stmt err f)"
  by (auto simp: keeps_def tx_simps)

lemma keeps_statements:
  "keeps queue_inv (stmt err (insert_message m))"
  "keeps queue_inv (stmt err (delete_messages pm))"
  "keeps queue_inv (stmt err (insert_operation x))"
  "keeps queue_inv (stmt err (delete_operations po))"
  "keeps queue_inv (stmt err (insert_batch b))"
  "keeps queue_inv (stmt err (delete_batches pb))"
  "keeps queue_inv (stmt err (insert_pending p))"
  "keeps queue_inv (stmt err (delete_pendings pp))"
  "keeps queue_inv (stmt err (update_pending_next pp t))"
  "keeps queue_inv (stmt err (delete_queues pq))"
  by (rule keeps_stmt, blast intro: insert_message_inv delete_messages_inv insert_operation_inv
      delete_operations_inv insert_batch_inv delete_batches_inv insert_pending_inv
      delete_pendings_inv update_pending_next_inv delete_queues_inv)+

lemma keeps_update_messages:
  "(\<And>m. m_claim (f m) = None) \<Longrightarrow> keeps queue_inv (stmt err (update_messages p f))"
  by (rule keeps_stmt) (erule update_messages_inv, assumption, simp)

section \<open>Deletions succeed\<close>

lemma sum_where_nonneg: "(\<And>x. x \<in> set xs \<Longrightarrow> 0 \<le> f x) \<Longrightarrow> 0 \<le> sum_where p f xs"
  by (induction xs) simp_all

lemma m_bytes_nonneg: "queue_inv d \<Longrightarrow> m \<in> set (messages d) \<Longrightarrow> 0 \<le> m_bytes m"
  using queue_invD(2) by (auto simp: rows_ok_def list_all_iff message_checks_def)

text \<open>Deleting rows that pass the claim guard never violates a constraint.\<close>

lemma delete_messages_ok:
  assumes inv: "queue_inv d" and "\<And>m. m \<in> set (messages d) \<Longrightarrow> p m \<Longrightarrow> delete_guard d m"
  shows "\<exists>d'. delete_messages p d = Inr (length (filter p (messages d)), d')"
proof -
  let ?left = "filter (\<lambda>m. \<not> p m) (messages d)"
  have "0 \<le> q_count (count_delete (filter p (messages d)) q)
      \<and> 0 \<le> q_bytes (count_delete (filter p (messages d)) q)" if "q \<in> set (queues d)" for q
  proof -
    have "q_count q = count_where (\<lambda>m. m_queue m = q_id q) (messages d)"
      "q_bytes q = sum_where (\<lambda>m. m_queue m = q_id q) m_bytes (messages d)"
      using queue_invD(3) [OF inv] that by (auto simp: counters_ok_def list_all_iff)
    then have "q_count (count_delete (filter p (messages d)) q) = count_where (\<lambda>m. m_queue m = q_id q) ?left"
      "q_bytes (count_delete (filter p (messages d)) q) = sum_where (\<lambda>m. m_queue m = q_id q) m_bytes ?left"
      by (simp_all add: count_delete_def count_where_filter_not sum_where_filter_not)
    moreover have "0 \<le> sum_where (\<lambda>m. m_queue m = q_id q) m_bytes ?left"
      by (rule sum_where_nonneg) (use m_bytes_nonneg [OF inv] in auto)
    ultimately show ?thesis by simp
  qed
  then show ?thesis
    using assms(2) by (fastforce simp: delete_messages_def Let_def list_all_iff list_ex_iff)
qed

lemmas filter_seq = filter_by_key [where k = m_seq]

lemma message_seq_inj:
  assumes "queue_inv d" "m \<in> set (messages d)" "m' \<in> set (messages d)" "m_seq m = m_seq m'"
  shows "m = m'"
  using assms queue_invD(1) [OF assms(1)] by (auto simp: keys_ok_def distinct_map inj_on_def)

end
