(* ===== verification/Queue_Producer.thy ===== *)
theory Queue_Producer
  imports Queue_Inv
begin

text \<open>
  The producer half of the queue store (\<open>crates/storage/src/scheduler/queue.rs\<close> with
  \<open>queue/helpers.rs\<close> and \<open>queue/operations.rs\<close>): projections and their configuration
  fence, idempotent enqueue, retention sweep, purge, metrics and counter repair.
  \<open>sha\<close> is the SHA-256 of the \<open>sha2\<close> crate, \<open>fmt\<close> the text of an identifier, \<open>gen\<close> the
  identifiers drawn by \<open>QueueMessageId::generate\<close>; \<open>self\<close> is the instance the store is
  bound to.
\<close>

section \<open>Configuration and limits\<close>

definition QUEUE_MAX_MESSAGE_BYTES :: nat where "QUEUE_MAX_MESSAGE_BYTES = 128000"
definition QUEUE_MAX_BATCH_MESSAGES :: nat where "QUEUE_MAX_BATCH_MESSAGES = 100"
definition QUEUE_MAX_BATCH_BYTES :: nat where "QUEUE_MAX_BATCH_BYTES = 256000"
definition QUEUE_MAX_DELAY_SECONDS :: nat where "QUEUE_MAX_DELAY_SECONDS = 86400"
definition QUEUE_MIN_RETENTION_SECONDS :: nat where "QUEUE_MIN_RETENTION_SECONDS = 60"
definition QUEUE_MAX_RETENTION_SECONDS :: nat where "QUEUE_MAX_RETENTION_SECONDS = 1209600"

lemmas queue_limits =
  QUEUE_MAX_MESSAGE_BYTES_def QUEUE_MAX_BATCH_MESSAGES_def QUEUE_MAX_BATCH_BYTES_def
  QUEUE_MAX_DELAY_SECONDS_def QUEUE_MIN_RETENTION_SECONDS_def QUEUE_MAX_RETENTION_SECONDS_def

definition default_queue_config :: queue_config where
  "default_queue_config = \<lparr>delivery_delay_seconds = 0, retention_seconds = 345600,
     max_message_bytes = QUEUE_MAX_MESSAGE_BYTES, max_batch_messages = QUEUE_MAX_BATCH_MESSAGES,
     max_batch_bytes = QUEUE_MAX_BATCH_BYTES, max_backlog_bytes = 1073741824\<rparr>"

definition validate_queue_config :: "queue_config \<Rightarrow> unit result" where
  "validate_queue_config c =
    (if delivery_delay_seconds c > QUEUE_MAX_DELAY_SECONDS
        \<or> \<not> (QUEUE_MIN_RETENTION_SECONDS \<le> retention_seconds c
             \<and> retention_seconds c \<le> QUEUE_MAX_RETENTION_SECONDS)
        \<or> max_message_bytes c = 0 \<or> max_message_bytes c > QUEUE_MAX_MESSAGE_BYTES
        \<or> max_batch_messages c = 0 \<or> max_batch_messages c > QUEUE_MAX_BATCH_MESSAGES
        \<or> max_batch_bytes c = 0 \<or> max_batch_bytes c > QUEUE_MAX_BATCH_BYTES
        \<or> max_backlog_bytes c = 0
     then Inl LimitInvalid else Inr ())"

record queue_projection =
  pr_queue :: nat
  pr_instance :: nat
  pr_lifecycle :: nat
  pr_config_gen :: nat
  pr_config :: queue_config
  pr_created :: int
  pr_updated :: int

definition as_i64 :: "nat \<Rightarrow> int result" where
  "as_i64 v = ok_or QueueInvariantViolation (i64_of_u64 v)"

text \<open>The checked conversions of a statement's parameters, in order.\<close>

fun as_i64_all :: "nat list \<Rightarrow> unit result" where
  "as_i64_all [] = Inr ()"
| "as_i64_all (v # vs) = rbind (as_i64 v) (\<lambda>_. as_i64_all vs)"

definition require_instance :: "nat \<Rightarrow> nat \<Rightarrow> unit result" where
  "require_instance self inst =
    (if inst \<noteq> self then Inl SchedulerInternalProtocolError else Inr ())"

definition projection_params :: "queue_projection \<Rightarrow> nat list" where
  "projection_params pr = [pr_lifecycle pr, pr_config_gen pr, max_message_bytes (pr_config pr),
     max_batch_bytes (pr_config pr), max_backlog_bytes (pr_config pr)]"

definition config_params :: "queue_projection \<Rightarrow> nat list" where
  "config_params pr = [max_message_bytes (pr_config pr), max_batch_bytes (pr_config pr),
     max_backlog_bytes (pr_config pr)]"

definition projected_row :: "queue_projection \<Rightarrow> queue_row" where
  "projected_row pr = \<lparr>q_id = pr_queue pr, q_lifecycle = pr_lifecycle pr,
     q_config_gen = pr_config_gen pr, q_state = Accepting, q_config = pr_config pr,
     q_count = 0, q_bytes = 0, q_created = pr_created pr, q_updated = pr_updated pr\<rparr>"

section \<open>Projections\<close>

definition create_queue_projection :: "nat \<Rightarrow> queue_projection \<Rightarrow> unit tx" where
  "create_queue_projection self pr =
     andthen (lift (validate_queue_config (pr_config pr))) (\<lambda>_.
     andthen (lift (require_instance self (pr_instance pr))) (\<lambda>_.
     andthen (require QueueInvariantViolation (pr_lifecycle pr \<noteq> 0 \<and> pr_config_gen pr \<noteq> 0)) (\<lambda>_.
     andthen (lift (as_i64_all (projection_params pr))) (\<lambda>_.
       stmt (\<lambda>_. QueueInvariantViolation) (insert_queue (projected_row pr))))))"

definition exact_projection :: "queue_projection \<Rightarrow> queue_row \<Rightarrow> bool" where
  "exact_projection pr q \<longleftrightarrow> q_id q = pr_queue pr \<and> q_lifecycle q = pr_lifecycle pr
     \<and> q_config_gen q = pr_config_gen pr \<and> q_state q = Accepting \<and> q_config q = pr_config pr"

definition verify_queue_projection :: "nat \<Rightarrow> queue_projection \<Rightarrow> unit tx" where
  "verify_queue_projection self pr =
     andthen (lift (require_instance self (pr_instance pr))) (\<lambda>_.
     andthen (lift (as_i64_all (projection_params pr))) (\<lambda>_.
     andthen (reading (\<lambda>d. list_ex (exact_projection pr) (queues d))) (\<lambda>exact.
       require QueueInvariantViolation exact)))"

definition insert_projection_tx :: "nat \<Rightarrow> queue_projection \<Rightarrow> unit tx" where
  "insert_projection_tx self pr =
     andthen (lift (validate_queue_config (pr_config pr))) (\<lambda>_.
     andthen (lift (require_instance self (pr_instance pr))) (\<lambda>_.
     andthen (lift (as_i64_all (projection_params pr))) (\<lambda>_.
       stmt (\<lambda>_. QueueInvariantViolation) (insert_queue_or_ignore (projected_row pr)))))"

text \<open>The insert is committed on its own before the projection is verified.\<close>

definition ensure_queue_projection ::
  "nat \<Rightarrow> queue_projection \<Rightarrow> db \<Rightarrow> unit result \<times> db" where
  "ensure_queue_projection self pr d =
    (case transaction (insert_projection_tx self pr) d of
       (Inl e, d1) \<Rightarrow> (Inl e, d1)
     | (Inr _, d1) \<Rightarrow> transaction (verify_queue_projection self pr) d1)"

section \<open>Configuration fence\<close>

definition begin_queue_config :: "nat \<Rightarrow> nat \<Rightarrow> nat \<Rightarrow> int \<Rightarrow> unit tx" where
  "begin_queue_config qid lifecycle config_gen now =
     andthen (lift (as_i64_all [lifecycle, config_gen])) (\<lambda>_.
     andthen (stmt map_sql_error (update_queues
        (\<lambda>q. q_id q = qid \<and> q_lifecycle q = lifecycle \<and> q_config_gen q = config_gen
             \<and> q_state q \<in> {Accepting, Configuring})
        (\<lambda>q. q\<lparr>q_state := Configuring, q_updated := now\<rparr>))) (\<lambda>changed.
       require QueueConfigPending (changed = 1)))"

definition project_queue_config :: "nat \<Rightarrow> queue_projection \<Rightarrow> unit tx" where
  "project_queue_config self pr =
     andthen (lift (validate_queue_config (pr_config pr))) (\<lambda>_.
     andthen (lift (require_instance self (pr_instance pr))) (\<lambda>_.
     andthen (require QueueInvariantViolation (pr_config_gen pr \<noteq> 0)) (\<lambda>_.
     andthen (lift (as_i64_all (projection_params pr))) (\<lambda>_.
     andthen (stmt map_sql_error (update_queues
        (\<lambda>q. q_id q = pr_queue pr \<and> q_lifecycle q = pr_lifecycle pr
             \<and> q_config_gen q = pr_config_gen pr - 1 \<and> q_state q = Configuring)
        (\<lambda>q. q\<lparr>q_config_gen := pr_config_gen pr, q_config := pr_config pr,
               q_updated := pr_updated pr\<rparr>))) (\<lambda>changed.
       require QueueInvariantViolation (changed = 1))))))"

definition reconcile_queue_config :: "nat \<Rightarrow> queue_projection \<Rightarrow> unit tx" where
  "reconcile_queue_config self pr =
     andthen (lift (validate_queue_config (pr_config pr))) (\<lambda>_.
     andthen (lift (require_instance self (pr_instance pr))) (\<lambda>_.
     andthen (require QueueInvariantViolation (pr_config_gen pr \<noteq> 0)) (\<lambda>_.
     andthen (lift (as_i64_all [pr_lifecycle pr])) (\<lambda>_.
     andthen (reading (\<lambda>d. List.find (\<lambda>q. q_id q = pr_queue pr \<and> q_lifecycle q = pr_lifecycle pr)
                             (queues d))) (\<lambda>current.
       case current of
         None \<Rightarrow> throw QueueInvariantViolation
       | Some q \<Rightarrow>
           if q_config_gen q = pr_config_gen pr - 1 \<and> q_state q \<in> {Accepting, Configuring} then
             andthen (lift (as_i64_all (projection_params pr))) (\<lambda>_.
             andthen (stmt map_sql_error (update_queues
               (\<lambda>q. q_id q = pr_queue pr \<and> q_lifecycle q = pr_lifecycle pr
                    \<and> q_config_gen q = pr_config_gen pr - 1 \<and> q_state q \<in> {Accepting, Configuring})
               (\<lambda>q. q\<lparr>q_config_gen := pr_config_gen pr, q_state := Configuring,
                      q_config := pr_config pr, q_updated := pr_updated pr\<rparr>))) (\<lambda>changed.
               require QueueInvariantViolation (changed = 1)))
           else if q_config_gen q = pr_config_gen pr \<and> q_state q \<in> {Configuring, Accepting} then
             andthen (lift (as_i64_all (config_params pr))) (\<lambda>_.
             andthen (reading (\<lambda>d. list_ex (\<lambda>q. q_id q = pr_queue pr \<and> q_config q = pr_config pr)
                                     (queues d))) (\<lambda>exact.
               require QueueInvariantViolation exact))
           else throw QueueInvariantViolation)))))"

definition finish_queue_config :: "nat \<Rightarrow> nat \<Rightarrow> nat \<Rightarrow> int \<Rightarrow> unit tx" where
  "finish_queue_config qid lifecycle config_gen now =
     andthen (lift (as_i64_all [lifecycle, config_gen])) (\<lambda>_.
     andthen (stmt map_sql_error (update_queues
        (\<lambda>q. q_id q = qid \<and> q_lifecycle q = lifecycle \<and> q_config_gen q = config_gen
             \<and> q_state q \<in> {Configuring, Accepting})
        (\<lambda>q. q\<lparr>q_state := Accepting, q_updated := now\<rparr>))) (\<lambda>changed.
       require QueueInvariantViolation (changed = 1)))"

section \<open>Metrics\<close>

definition oldest_enqueued :: "nat \<Rightarrow> db \<Rightarrow> int option" where
  "oldest_enqueued qid d =
    (case order_limit (\<lambda>m. (m_enqueued m, m_seq m)) 1 (filter (\<lambda>m. m_queue m = qid) (messages d)) of
       [] \<Rightarrow> None | m # _ \<Rightarrow> Some (m_enqueued m))"

definition queue_metrics_values :: "int \<Rightarrow> int \<Rightarrow> int option \<Rightarrow> queue_metrics result" where
  "queue_metrics_values count bytes oldest =
     rbind (ok_or QueueInvariantViolation (u64_of_i64 count)) (\<lambda>n.
     rbind (ok_or QueueInvariantViolation (u64_of_i64 bytes)) (\<lambda>b.
       if (n = 0) \<noteq> (oldest = None) then Inl QueueInvariantViolation
       else Inr \<lparr>backlog_count = n, backlog_bytes = b, oldest_message = oldest\<rparr>))"

definition metrics_tx :: "nat \<Rightarrow> queue_metrics tx" where
  "metrics_tx qid =
     andthen (reading (\<lambda>d. (List.find (\<lambda>q. q_id q = qid) (queues d), oldest_enqueued qid d)))
       (\<lambda>(found, oldest). case found of
          None \<Rightarrow> throw (map_sql_error NoRows)
        | Some q \<Rightarrow> lift (queue_metrics_values (q_count q) (q_bytes q) oldest))"

definition queue_metrics_read :: "nat \<Rightarrow> nat \<Rightarrow> nat \<Rightarrow> queue_metrics tx" where
  "queue_metrics_read qid lifecycle config_gen =
     andthen (lift (as_i64_all [lifecycle, config_gen])) (\<lambda>_.
     andthen (reading (\<lambda>d. list_ex (\<lambda>q. q_id q = qid \<and> q_lifecycle q = lifecycle
                 \<and> q_config_gen q = config_gen \<and> q_state q = Accepting) (queues d))) (\<lambda>exact.
     andthen (require QueueConfigPending exact) (\<lambda>_. metrics_tx qid)))"

definition queue_backlog_totals :: "(nat \<times> nat) tx" where
  "queue_backlog_totals =
     andthen (reading (\<lambda>d. (sum_list (map q_count (queues d)), sum_list (map q_bytes (queues d)))))
       (\<lambda>(n, b).
          andthen (lift (ok_or QueueInvariantViolation (u64_of_i64 n))) (\<lambda>n'.
          andthen (lift (ok_or QueueInvariantViolation (u64_of_i64 b))) (\<lambda>b'. ret (n', b'))))"

section \<open>Deletion fence\<close>

definition fence_queue_delete :: "nat \<Rightarrow> nat \<Rightarrow> int \<Rightarrow> queue_metrics tx" where
  "fence_queue_delete qid lifecycle now =
     andthen (lift (as_i64_all [lifecycle])) (\<lambda>_.
     andthen (stmt map_sql_error (update_queues
        (\<lambda>q. q_id q = qid \<and> q_lifecycle q = lifecycle
             \<and> q_state q \<in> {Accepting, Configuring, Deleting})
        (\<lambda>q. q\<lparr>q_state := Deleting, q_updated := now\<rparr>))) (\<lambda>changed.
     andthen (require QueueInvariantViolation (changed = 1)) (\<lambda>_. metrics_tx qid)))"

text \<open>
  Deleting a projection runs on the bare connection: the first statement is
  committed even when the second fails.
\<close>

definition delete_queue_state_tx :: "nat \<Rightarrow> nat \<Rightarrow> unit tx" where
  "delete_queue_state_tx qid lifecycle =
     andthen (lift (as_i64_all [lifecycle])) (\<lambda>_.
     andthen (stmt map_sql_error (delete_queues
        (\<lambda>q. q_id q = qid \<and> q_lifecycle q = lifecycle \<and> q_state q = Deleting
             \<and> q_count q = 0 \<and> q_bytes q = 0))) (\<lambda>changed.
       if changed \<noteq> 1 then
         andthen (reading (\<lambda>d. \<not> has_queue qid d)) (\<lambda>missing. require QueueInvariantViolation missing)
       else ret ()))"

definition delete_queue_projection :: "nat \<Rightarrow> nat \<Rightarrow> db \<Rightarrow> unit result \<times> db" where
  "delete_queue_projection qid lifecycle d =
    (let d1 = snd (transaction (stmt map_sql_error
                (delete_operations (\<lambda>x. o_queue x = qid \<and> o_finalized x \<noteq> None))) d)
     in transaction (delete_queue_state_tx qid lifecycle) d1)"

section \<open>Enqueue\<close>

record message_input =
  in_type :: content_type
  in_body :: "byte list"
  in_delay :: "nat option"

record enqueue_request =
  rq_queue :: nat
  rq_request :: nat
  rq_output_gate :: bool
  rq_lifecycle :: nat
  rq_config_gen :: nat
  rq_batch_delay :: "nat option"
  rq_messages :: "message_input list"

record enqueue_result =
  message_ids :: "nat list"
  metrics :: queue_metrics

definition validate_delay :: "nat option \<Rightarrow> unit result" where
  "validate_delay delay =
    (case delay of
       None \<Rightarrow> Inr ()
     | Some v \<Rightarrow> if v > QUEUE_MAX_DELAY_SECONDS then Inl QueueDelayInvalid else Inr ())"

fun validate_messages :: "nat \<Rightarrow> message_input list \<Rightarrow> unit result" where
  "validate_messages acc [] = Inr ()"
| "validate_messages acc (m # ms) =
     rbind (validate_delay (in_delay m)) (\<lambda>_.
       let len = length (in_body m)
       in if len > QUEUE_MAX_MESSAGE_BYTES then Inl QueueMessageTooLarge
          else rbind (ok_or QueueBatchLimitExceeded (checked_add_u64 acc len)) (\<lambda>t.
            if t > QUEUE_MAX_BATCH_BYTES then Inl QueueBatchLimitExceeded
            else validate_messages t ms))"

definition validate_request :: "enqueue_request \<Rightarrow> unit result" where
  "validate_request r =
    (if rq_lifecycle r = 0 \<or> rq_config_gen r = 0 \<or> rq_messages r = []
     then Inl QueueInvalidMessage
     else if length (rq_messages r) > u32_max then Inl QueueBatchLimitExceeded
     else if length (rq_messages r) > QUEUE_MAX_BATCH_MESSAGES then Inl QueueBatchLimitExceeded
     else rbind (validate_delay (rq_batch_delay r)) (\<lambda>_. validate_messages 0 (rq_messages r)))"

fun dynamic_total :: "nat \<Rightarrow> nat \<Rightarrow> message_input list \<Rightarrow> nat result" where
  "dynamic_total max_message acc [] = Inr acc"
| "dynamic_total max_message acc (m # ms) =
    (let len = length (in_body m)
     in if len > max_message then Inl QueueMessageTooLarge
        else rbind (ok_or QueueBatchLimitExceeded (checked_add_u64 acc len))
               (\<lambda>t. dynamic_total max_message t ms))"

definition validate_dynamic_limits :: "enqueue_request \<Rightarrow> queue_row \<Rightarrow> unit result" where
  "validate_dynamic_limits r q =
    (if length (rq_messages r) > u32_max then Inl QueueBatchLimitExceeded
     else if length (rq_messages r) > max_batch_messages (q_config q) then Inl QueueBatchLimitExceeded
     else rbind (dynamic_total (max_message_bytes (q_config q)) 0 (rq_messages r)) (\<lambda>acc.
       if acc > max_batch_bytes (q_config q) then Inl QueueBatchLimitExceeded else Inr ()))"

fun total_bytes :: "nat \<Rightarrow> message_input list \<Rightarrow> nat result" where
  "total_bytes acc [] = Inr acc"
| "total_bytes acc (m # ms) =
     rbind (ok_or QueueBatchLimitExceeded (checked_add_u64 acc (length (in_body m))))
       (\<lambda>t. total_bytes t ms)"

definition checked_timestamp :: "int \<Rightarrow> nat \<Rightarrow> int result" where
  "checked_timestamp now seconds =
     rbind (ok_or QueueInvariantViolation (checked_mul_i64 (int seconds) 1000)) (\<lambda>ms.
       ok_or QueueDelayInvalid (checked_add_i64 now ms))"

definition read_state_tx :: "nat \<Rightarrow> queue_row tx" where
  "read_state_tx qid =
     andthen (reading (\<lambda>d. List.find (\<lambda>q. q_id q = qid) (queues d))) (\<lambda>found.
       case found of
         None \<Rightarrow> throw QueueNotFound
       | Some q \<Rightarrow> if q_bytes q < 0 then throw (map_sql_error NoRows) else ret q)"

definition be_bytes :: "nat \<Rightarrow> nat \<Rightarrow> byte list" where
  "be_bytes n v = map (\<lambda>i. word_of_nat (v div 256 ^ (n - 1 - i))) [0..<n]"

definition type_bytes :: "content_type \<Rightarrow> byte list" where
  "type_bytes t = (case t of
     Json \<Rightarrow> [0x6a, 0x73, 0x6f, 0x6e]
   | Text \<Rightarrow> [0x74, 0x65, 0x78, 0x74]
   | Bytes \<Rightarrow> [0x62, 0x79, 0x74, 0x65, 0x73]
   | V8 \<Rightarrow> [0x76, 0x38])"

definition message_preimage :: "message_input \<Rightarrow> byte list" where
  "message_preimage m =
     type_bytes (in_type m) @ [0xff] @ be_bytes 8 (min (length (in_body m)) u64_max) @ in_body m
     @ (case in_delay m of Some delay \<Rightarrow> [1] @ be_bytes 4 delay | None \<Rightarrow> [0])"

definition enqueue_preimage :: "(nat \<Rightarrow> byte list) \<Rightarrow> enqueue_request \<Rightarrow> byte list" where
  "enqueue_preimage fmt r =
     fmt (rq_queue r) @ be_bytes 8 (rq_lifecycle r) @ be_bytes 8 (rq_config_gen r)
     @ [if rq_output_gate r then 1 else 0]
     @ be_bytes 8 (min (length (rq_messages r)) u64_max)
     @ be_bytes 4 (if rq_batch_delay r = None then 0 else 1)
     @ (case rq_batch_delay r of Some delay \<Rightarrow> be_bytes 4 delay | None \<Rightarrow> [])
     @ concat (map message_preimage (rq_messages r))"

definition enqueue_fingerprint ::
  "(byte list \<Rightarrow> byte list) \<Rightarrow> (nat \<Rightarrow> byte list) \<Rightarrow> enqueue_request \<Rightarrow> byte list" where
  "enqueue_fingerprint sha fmt r = sha (enqueue_preimage fmt r)"

definition replay_enqueue :: "enqueue_request \<Rightarrow> byte list \<Rightarrow> enqueue_result option tx" where
  "replay_enqueue r fingerprint =
     andthen (reading (\<lambda>d. List.find (\<lambda>x. o_request x = rq_request r) (operations d))) (\<lambda>existing.
       case existing of
         None \<Rightarrow> ret None
       | Some x \<Rightarrow>
           if o_queue x \<noteq> rq_queue r \<or> o_generation x \<noteq> rq_lifecycle r
              \<or> o_fingerprint x \<noteq> fingerprint
           then throw IdempotencyConflict
           else ret (Some \<lparr>message_ids = o_message_ids x, metrics = o_metrics x\<rparr>))"

definition effective_delay :: "enqueue_request \<Rightarrow> queue_row \<Rightarrow> message_input \<Rightarrow> nat" where
  "effective_delay r q m =
    (case in_delay m of
       Some v \<Rightarrow> v
     | None \<Rightarrow> (case rq_batch_delay r of Some v \<Rightarrow> v
                | None \<Rightarrow> delivery_delay_seconds (q_config q)))"

definition new_message ::
  "enqueue_request \<Rightarrow> int \<Rightarrow> int \<Rightarrow> nat \<Rightarrow> int \<Rightarrow> message_input \<Rightarrow> message_row" where
  "new_message r now expires i available m =
     \<lparr>m_seq = 0, m_id = i, m_queue = rq_queue r, m_generation = rq_lifecycle r, m_enqueued = now,
      m_available = available, m_expires = expires, m_type = in_type m, m_body = in_body m,
      m_bytes = int (length (in_body m)), m_attempts = 0, m_claim = None\<rparr>"

definition enqueue_message ::
  "enqueue_request \<Rightarrow> queue_row \<Rightarrow> int \<Rightarrow> int \<Rightarrow> nat \<times> message_input \<Rightarrow> nat tx" where
  "enqueue_message r q now expires im =
    (case im of (i, m) \<Rightarrow>
       andthen (lift (checked_timestamp now (effective_delay r q m))) (\<lambda>available.
       andthen (lift (as_i64_all [rq_lifecycle r, length (in_body m)])) (\<lambda>_.
       andthen (stmt queue_sql_error (insert_message (new_message r now expires i available m)))
         (\<lambda>_. ret i))))"

definition insert_enqueue_operation ::
  "enqueue_request \<Rightarrow> byte list \<Rightarrow> nat list \<Rightarrow> queue_metrics \<Rightarrow> int \<Rightarrow> nat \<Rightarrow> int \<Rightarrow> unit tx" where
  "insert_enqueue_operation r fingerprint ids mt created retention expires =
     andthen (lift (as_i64_all [rq_lifecycle r])) (\<lambda>_.
       stmt queue_sql_error (insert_operation
         \<lparr>o_request = rq_request r, o_queue = rq_queue r, o_generation = rq_lifecycle r,
          o_fingerprint = fingerprint, o_message_ids = ids, o_metrics = mt,
          o_output_gate = rq_output_gate r, o_retention = retention, o_created = created,
          o_finalized = (if rq_output_gate r then None else Some created),
          o_expires = (if rq_output_gate r then None else Some expires)\<rparr>))"

definition accepting_state :: "queue_state \<Rightarrow> unit result" where
  "accepting_state st = (case st of Accepting \<Rightarrow> Inr () | Configuring \<Rightarrow> Inl QueueConfigPending
                         | Deleting \<Rightarrow> Inl QueueNotReady)"

definition enqueue_fresh ::
  "enqueue_request \<Rightarrow> byte list \<Rightarrow> (nat \<Rightarrow> nat) \<Rightarrow> int \<Rightarrow> enqueue_result tx" where
  "enqueue_fresh r fingerprint gen now =
     andthen (read_state_tx (rq_queue r)) (\<lambda>q.
     andthen (require QueueInvariantViolation
                (q_lifecycle q = rq_lifecycle r \<and> q_config_gen q = rq_config_gen r)) (\<lambda>_.
     andthen (lift (accepting_state (q_state q))) (\<lambda>_.
     andthen (lift (validate_dynamic_limits r q)) (\<lambda>_.
     andthen (lift (total_bytes 0 (rq_messages r))) (\<lambda>acc.
     andthen (require QueueBacklogLimitExceeded
                (saturating_add_u64 (nat (q_bytes q)) acc \<le> max_backlog_bytes (q_config q))) (\<lambda>_.
     andthen (lift (checked_timestamp now (retention_seconds (q_config q)))) (\<lambda>expires.
     andthen (map_each (enqueue_message r q now expires)
                (zip (map gen [0..<length (rq_messages r)]) (rq_messages r))) (\<lambda>ids.
     andthen (metrics_tx (rq_queue r)) (\<lambda>mt.
     andthen (insert_enqueue_operation r fingerprint ids mt now
                (retention_seconds (q_config q)) expires) (\<lambda>_.
       ret \<lparr>message_ids = ids, metrics = mt\<rparr>))))))))))"

definition enqueue_queue ::
  "(byte list \<Rightarrow> byte list) \<Rightarrow> (nat \<Rightarrow> byte list) \<Rightarrow> enqueue_request \<Rightarrow> (nat \<Rightarrow> nat) \<Rightarrow> int
    \<Rightarrow> enqueue_result tx" where
  "enqueue_queue sha fmt r gen now =
     andthen (lift (validate_request r)) (\<lambda>_.
     andthen (replay_enqueue r (enqueue_fingerprint sha fmt r)) (\<lambda>replay.
       case replay of
         Some res \<Rightarrow> ret res
       | None \<Rightarrow> enqueue_fresh r (enqueue_fingerprint sha fmt r) gen now))"

definition finalize_queue_enqueue :: "nat \<Rightarrow> nat \<Rightarrow> nat \<Rightarrow> int \<Rightarrow> unit tx" where
  "finalize_queue_enqueue request qid lifecycle now =
     andthen (reading (\<lambda>d. List.find (\<lambda>x. o_request x = request) (operations d))) (\<lambda>existing.
       case existing of
         None \<Rightarrow> ret ()
       | Some x \<Rightarrow>
           andthen (require IdempotencyConflict
              (o_queue x = qid \<and> o_generation x = lifecycle \<and> o_output_gate x)) (\<lambda>_.
           if o_finalized x = None then
             andthen (lift (checked_timestamp now (o_retention x))) (\<lambda>expires.
             andthen (stmt queue_sql_error (update_operations
                (\<lambda>y. o_request y = request \<and> o_finalized y = None)
                (\<lambda>y. y\<lparr>o_finalized := Some now, o_expires := Some expires\<rparr>))) (\<lambda>changed.
               require QueueInvariantViolation (changed = 1)))
           else ret ()))"

section \<open>Retention\<close>

record delete_batch =
  db_messages :: nat
  db_bytes :: nat
  next_expiry :: "int option"
  expired_remaining :: bool

text \<open>
  Candidates in order until the byte budget is used; the first one is always taken.
  The sizes were read as signed integers and convert or fail.
\<close>

fun within_budget :: "nat \<Rightarrow> nat \<Rightarrow> bool \<Rightarrow> message_row list \<Rightarrow> (nat \<times> nat) list result" where
  "within_budget max_bytes bytes first [] = Inr []"
| "within_budget max_bytes bytes first (m # ms) =
     rbind (ok_or QueueInvariantViolation (u64_of_i64 (m_bytes m))) (\<lambda>size.
       if \<not> first \<and> saturating_add_u64 bytes size > max_bytes then Inr []
       else rbind (ok_or QueueInvariantViolation (checked_add_u64 bytes size)) (\<lambda>b.
         rbind (within_budget max_bytes b False ms) (\<lambda>rest. Inr ((m_seq m, size) # rest))))"

definition deletable :: "nat option \<Rightarrow> int option \<Rightarrow> message_row \<Rightarrow> bool" where
  "deletable qid expires_before m \<longleftrightarrow>
     m_claim m = None \<and> (case qid of None \<Rightarrow> True | Some i \<Rightarrow> m_queue m = i)
     \<and> (case expires_before of None \<Rightarrow> True | Some t \<Rightarrow> m_expires m \<le> t)"

definition select_delete_candidates ::
  "nat option \<Rightarrow> int option \<Rightarrow> nat \<Rightarrow> nat \<Rightarrow> (nat \<times> nat) list tx" where
  "select_delete_candidates qid expires_before max_rows max_bytes =
     andthen (reading (\<lambda>d. order_limit (\<lambda>m. (m_expires m, m_queue m, m_seq m)) max_rows
                (filter (deletable qid expires_before) (messages d)))) (\<lambda>rows.
       lift (within_budget max_bytes 0 True rows))"

definition delete_candidate :: "(message_row \<Rightarrow> bool) \<Rightarrow> nat \<times> nat \<Rightarrow> unit tx" where
  "delete_candidate extra cand =
     andthen (reading (\<lambda>d. map m_id (filter (\<lambda>m. m_seq m = fst cand) (messages d)))) (\<lambda>ids.
     andthen (stmt queue_sql_error (delete_pendings (\<lambda>p. p_message p \<in> set ids))) (\<lambda>_.
     andthen (stmt queue_sql_error (delete_messages
        (\<lambda>m. m_seq m = fst cand \<and> m_claim m = None \<and> extra m))) (\<lambda>changed.
       require QueueInvariantViolation (changed = 1))))"

definition next_expiry_of :: "db \<Rightarrow> int option" where
  "next_expiry_of d =
     min_opt (map m_expires (filter (\<lambda>m. m_claim m = None) (messages d))
              @ List.map_filter o_expires (operations d))"

definition expired_operation :: "int \<Rightarrow> operation_row \<Rightarrow> bool" where
  "expired_operation now x = (case o_expires x of None \<Rightarrow> False | Some e \<Rightarrow> e \<le> now)"

definition delete_expired_operations :: "int \<Rightarrow> nat \<Rightarrow> nat tx" where
  "delete_expired_operations now max_rows =
     andthen (reading (\<lambda>d. map o_request (order_limit (\<lambda>x. (the (o_expires x), o_request x)) max_rows
                (filter (expired_operation now) (operations d))))) (\<lambda>victims.
       stmt queue_sql_error (delete_operations (\<lambda>x. o_request x \<in> set victims)))"

definition sum_sizes :: "(nat \<times> nat) list \<Rightarrow> nat result" where
  "sum_sizes cs = foldl (\<lambda>acc c. rbind acc (\<lambda>b.
     ok_or QueueInvariantViolation (checked_add_u64 b (snd c)))) (Inr 0) cs"

definition sweep_queue_retention :: "int \<Rightarrow> nat \<Rightarrow> nat \<Rightarrow> delete_batch tx" where
  "sweep_queue_retention now max_rows max_bytes =
     andthen (require LimitInvalid (max_rows \<noteq> 0 \<and> max_bytes \<noteq> 0)) (\<lambda>_.
     andthen (select_delete_candidates None (Some now) max_rows max_bytes) (\<lambda>cs.
     andthen (for_each (delete_candidate (\<lambda>m. m_expires m \<le> now)) cs) (\<lambda>_.
     andthen (lift (sum_sizes cs)) (\<lambda>bytes.
     andthen (delete_expired_operations now max_rows) (\<lambda>_.
       reading (\<lambda>d. \<lparr>db_messages = length cs, db_bytes = bytes, next_expiry = next_expiry_of d,
         expired_remaining = list_ex (\<lambda>m. m_claim m = None \<and> m_expires m \<le> now) (messages d)
                             \<or> list_ex (expired_operation now) (operations d)\<rparr>))))))"

definition purge_queue :: "nat \<Rightarrow> nat \<Rightarrow> nat \<Rightarrow> delete_batch tx" where
  "purge_queue qid max_rows max_bytes =
     andthen (require LimitInvalid (max_rows \<noteq> 0 \<and> max_bytes \<noteq> 0)) (\<lambda>_.
     andthen (reading (\<lambda>d. list_ex (\<lambda>q. q_id q = qid \<and> q_state q = Deleting) (queues d))) (\<lambda>deleting.
     andthen (require QueueInvariantViolation deleting) (\<lambda>_.
     andthen (select_delete_candidates (Some qid) None max_rows max_bytes) (\<lambda>cs.
     andthen (for_each (delete_candidate (\<lambda>m. m_queue m = qid)) cs) (\<lambda>_.
     andthen (lift (sum_sizes cs)) (\<lambda>bytes.
     andthen (stmt queue_sql_error
        (delete_operations (\<lambda>x. o_queue x = qid \<and> o_finalized x \<noteq> None))) (\<lambda>_.
       reading (\<lambda>d. \<lparr>db_messages = length cs, db_bytes = bytes, next_expiry = next_expiry_of d,
         expired_remaining = list_ex (\<lambda>m. m_queue m = qid) (messages d)
                             \<or> list_ex (\<lambda>x. o_queue x = qid) (operations d)\<rparr>))))))))"

section \<open>Counters\<close>

record counter_mismatch =
  mm_queue :: nat
  stored_count :: int
  actual_count :: int
  stored_bytes :: int
  actual_bytes :: int

definition counter_row :: "db \<Rightarrow> queue_row \<Rightarrow> counter_mismatch" where
  "counter_row d q = \<lparr>mm_queue = q_id q, stored_count = q_count q,
     actual_count = count_where (\<lambda>m. m_queue m = q_id q) (messages d),
     stored_bytes = q_bytes q,
     actual_bytes = sum_where (\<lambda>m. m_queue m = q_id q) m_bytes (messages d)\<rparr>"

definition queue_counter_mismatches :: "db \<Rightarrow> counter_mismatch list" where
  "queue_counter_mismatches d =
     filter (\<lambda>x. stored_count x \<noteq> actual_count x \<or> stored_bytes x \<noteq> actual_bytes x)
       (map (counter_row d) (queues d))"

definition repair_queue_counter :: "counter_mismatch \<Rightarrow> bool tx" where
  "repair_queue_counter x =
     andthen (reading (\<lambda>d. (count_where (\<lambda>m. m_queue m = mm_queue x) (messages d),
                            sum_where (\<lambda>m. m_queue m = mm_queue x) m_bytes (messages d)))) (\<lambda>actual.
     andthen (stmt map_sql_error (update_queues
        (\<lambda>q. q_id q = mm_queue x \<and> q_count q = stored_count x \<and> q_bytes q = stored_bytes x
             \<and> actual = (actual_count x, actual_bytes x))
        (\<lambda>q. q\<lparr>q_count := actual_count x, q_bytes := actual_bytes x\<rparr>))) (\<lambda>changed.
       ret (changed = 1)))"

definition queue_workload_summary :: "int \<Rightarrow> db \<Rightarrow> workload_summary" where
  "queue_workload_summary now d =
    (let ready = filter (\<lambda>m. m_claim m = None) (messages d);
         due = filter (\<lambda>m. m_expires m \<le> now) ready
     in \<lparr>ws_ready = length due, ws_claimed = 0, ws_expired = 0,
         ws_oldest_due = min_opt (map m_expires due), ws_next_due = min_opt (map m_expires ready)\<rparr>)"

end
