(* ===== verification/Queue_Producer_Proofs.thy ===== *)
theory Queue_Producer_Proofs
  imports Queue_Producer
begin

text \<open>
  Correctness of the producer half of the queue store: every operation keeps the
  table invariant; a successful enqueue appends exactly the requested messages and
  is idempotent; a different request under the same operation identity is refused;
  the retention sweep always succeeds and removes only expired messages within its
  budget.
\<close>

section \<open>The invariant is kept\<close>

lemma keeps_update_queues:
  "(\<And>q. q_id (f q) = q_id q \<and> q_count (f q) = q_count q \<and> q_bytes (f q) = q_bytes q) \<Longrightarrow>
     keeps queue_inv (stmt err (update_queues p f))"
  by (rule keeps_stmt) (erule update_queues_inv, assumption, simp)

lemma keeps_update_operations:
  "(\<And>x. o_request (f x) = o_request x) \<Longrightarrow> keeps queue_inv (stmt err (update_operations p f))"
  by (rule keeps_stmt) (erule update_operations_inv, assumption, simp)

lemma keeps_insert_projected:
  "keeps queue_inv (stmt err (insert_queue (projected_row pr)))"
  "keeps queue_inv (stmt err (insert_queue_or_ignore (projected_row pr)))"
  by (rule keeps_stmt, erule insert_queue_inv, assumption, simp_all add: projected_row_def,
      rule keeps_stmt, erule insert_queue_or_ignore_inv, assumption, simp_all)

lemmas keeps_queue =
  keeps_intros keeps_statements keeps_update_queues keeps_update_operations keeps_insert_projected

lemma keeps_metrics: "keeps queue_inv (metrics_tx qid)"
  unfolding metrics_tx_def by (intro keeps_queue)

lemma keeps_projections:
  "keeps queue_inv (create_queue_projection self pr)"
  "keeps queue_inv (verify_queue_projection self pr)"
  "keeps queue_inv (insert_projection_tx self pr)"
  "keeps queue_inv (begin_queue_config qid lc cg now)"
  "keeps queue_inv (project_queue_config self pr)"
  "keeps queue_inv (reconcile_queue_config self pr)"
  "keeps queue_inv (finish_queue_config qid lc cg now)"
  "keeps queue_inv (fence_queue_delete qid lc now)"
  "keeps queue_inv (delete_queue_state_tx qid lc)"
  unfolding create_queue_projection_def verify_queue_projection_def insert_projection_tx_def
    begin_queue_config_def project_queue_config_def reconcile_queue_config_def
    finish_queue_config_def fence_queue_delete_def delete_queue_state_tx_def
  by (intro keeps_queue keeps_metrics; simp)+

lemma keeps_enqueue:
  "keeps queue_inv (enqueue_queue sha fmt r gen now)"
  "keeps queue_inv (finalize_queue_enqueue request qid lc now)"
  unfolding enqueue_queue_def replay_enqueue_def enqueue_fresh_def read_state_tx_def
    enqueue_message_def insert_enqueue_operation_def finalize_queue_enqueue_def
  by (intro keeps_queue keeps_metrics; simp)+

lemma keeps_retention:
  "keeps queue_inv (sweep_queue_retention now max_rows max_bytes)"
  "keeps queue_inv (purge_queue qid max_rows max_bytes)"
  unfolding sweep_queue_retention_def purge_queue_def select_delete_candidates_def
    delete_candidate_def delete_expired_operations_def
  by (intro keeps_queue)+

lemma keeps_repair: "keeps queue_inv (repair_queue_counter x)"
proof (rule keepsI)
  fix d b d' assume inv: "queue_inv d" and run: "repair_queue_counter x d = Inr (b, d')"
  let ?n = "count_where (\<lambda>m. m_queue m = mm_queue x) (messages d)"
    and ?b = "sum_where (\<lambda>m. m_queue m = mm_queue x) m_bytes (messages d)"
  let ?g = "\<lambda>q. if q_id q = mm_queue x \<and> q_count q = stored_count x \<and> q_bytes q = stored_bytes x
      \<and> (?n, ?b) = (actual_count x, actual_bytes x)
    then q\<lparr>q_count := actual_count x, q_bytes := actual_bytes x\<rparr> else q"
  from run have d': "d' = d\<lparr>queues := map ?g (queues d)\<rparr>"
    by (auto simp: repair_queue_counter_def tx_simps update_queues_def split: if_splits)
  show "queue_inv d'"
  proof (rule same_messages_inv [OF inv])
    show "map q_id (queues d') = map q_id (queues d)" by (simp add: d')
    show "counters_ok d'"
      using queue_invD(3) [OF inv] by (auto simp: d' counters_ok_def list_all_iff)
    show "distinct (map o_request (operations d'))"
      using queue_invD(1) [OF inv] by (simp add: d' keys_ok_def)
  qed (simp_all add: d')
qed

lemma ensure_queue_projection_inv:
  assumes "queue_inv d"
  shows "queue_inv (snd (ensure_queue_projection self pr d))"
proof -
  obtain r1 d1 where first: "transaction (insert_projection_tx self pr) d = (r1, d1)"
    by fastforce
  have "queue_inv d1"
    using transaction_inv [OF keeps_projections(3) assms, of self pr] first by simp
  then show ?thesis
    using transaction_inv [OF keeps_projections(2), of d1 self pr]
    by (simp add: ensure_queue_projection_def first split: sum.split)
qed

lemma delete_queue_projection_inv:
  "queue_inv d \<Longrightarrow> queue_inv (snd (delete_queue_projection qid lc d))"
  unfolding delete_queue_projection_def Let_def
  by (rule transaction_inv [where I = queue_inv, OF keeps_projections(9)],
      rule transaction_inv [where I = queue_inv, OF keeps_statements(4)])

section \<open>What an enqueue writes\<close>

text \<open>The rows an accepted request appends, numbered from a first sequence number.\<close>

fun queued_rows ::
  "enqueue_request \<Rightarrow> queue_row \<Rightarrow> int \<Rightarrow> int \<Rightarrow> nat \<Rightarrow> (nat \<times> message_input) list \<Rightarrow> message_row list" where
  "queued_rows r q now expires seq [] = []"
| "queued_rows r q now expires seq ((i, m) # ims) =
     (new_message r now expires i (now + int (effective_delay r q m) * 1000) m)\<lparr>m_seq := seq\<rparr>
       # queued_rows r q now expires (Suc seq) ims"

lemma length_queued_rows [simp]: "length (queued_rows r q now e seq ims) = length ims"
  by (induction r q now e seq ims rule: queued_rows.induct) simp_all

lemma checked_timestamp_Inr:
  "checked_timestamp now s = Inr t \<longleftrightarrow>
     t = now + int s * 1000 \<and> in_i64 (int s * 1000) \<and> in_i64 (now + int s * 1000)"
  by (auto simp: checked_timestamp_def result_simps rust_arith)

lemma count_insert_other: "q_id q \<noteq> m_queue m \<Longrightarrow> count_insert m q = q"
  by (simp add: count_insert_def)

text \<open>One message: the row, the sequence counter and the cached counters.\<close>

lemma enqueue_message_run:
  assumes "enqueue_message r q now expires (i, m) d = Inr (j, d')"
  defines "row \<equiv> new_message r now expires i (now + int (effective_delay r q m) * 1000) m"
  shows "j = i" "insert_message row d = Inr ((), d')"
  using assms
  by (auto simp: enqueue_message_def tx_simps checked_timestamp_Inr)

lemma enqueue_messages_run:
  assumes "map_each (enqueue_message r q now expires) ims d = Inr (ids, d')"
  shows "ids = map fst ims
    \<and> messages d' = messages d @ queued_rows r q now expires (next_seq d) ims
    \<and> operations d' = operations d \<and> batches d' = batches d \<and> pendings d' = pendings d
    \<and> consumers d' = consumers d \<and> map q_config (queues d') = map q_config (queues d)
    \<and> map q_id (queues d') = map q_id (queues d)"
  using assms
proof (induction ims arbitrary: d ids)
  case Nil
  then show ?case by (simp add: tx_simps)
next
  case (Cons im ims)
  obtain i m where im: "im = (i, m)" by (cases im)
  from Cons.prems obtain j d1 js where
    first: "enqueue_message r q now expires (i, m) d = Inr (j, d1)"
    and rest: "map_each (enqueue_message r q now expires) ims d1 = Inr (js, d')" and ids: "ids = j # js"
    by (auto simp: tx_simps im)
  note row = enqueue_message_run [OF first]
  note ins = insert_message_Inr [OF row(2)]
  have cfg: "map q_config (map (count_insert x) qs) = map q_config qs" for x qs
    by (simp add: count_insert_def)
  show ?case
    using Cons.IH [OF rest] row(1) cfg
    by (simp add: ins(1) ids im)
qed

lemma enqueue_backlog:
  assumes "map_each (enqueue_message r q now expires) ims d = Inr (ids, d')" "ims \<noteq> []"
    and "distinct (map q_id (queues d))"
  shows "\<exists>q' \<in> set (queues d'). q_id q' = rq_queue r \<and> q_state q' = Accepting
    \<and> q_lifecycle q' = rq_lifecycle r \<and> q_bytes q' \<le> int (max_backlog_bytes (q_config q'))"
  using assms
proof (induction ims arbitrary: d ids)
  case Nil
  then show ?case by simp
next
  case (Cons im ims)
  obtain i m where im: "im = (i, m)" by (cases im)
  from Cons.prems obtain j d1 js where
    first: "enqueue_message r q now expires (i, m) d = Inr (j, d1)"
    and rest: "map_each (enqueue_message r q now expires) ims d1 = Inr (js, d')"
    by (auto simp: tx_simps im)
  note ins = insert_message_Inr [OF enqueue_message_run(2) [OF first]]
  show ?case
  proof (cases "ims = []")
    case True
    with rest have d': "d' = d1" by (simp add: tx_simps)
    obtain q' where q': "q' \<in> set (queues d)"
      "message_authority (new_message r now expires i (now + int (effective_delay r q m) * 1000) m) q'"
      using ins(6) by blast
    let ?q = "count_insert (new_message r now expires i (now + int (effective_delay r q m) * 1000) m) q'"
    have "?q \<in> set (queues d')" using q'(1) by (simp add: d' ins(1))
    moreover have "q_id ?q = rq_queue r \<and> q_state ?q = Accepting \<and> q_lifecycle ?q = rq_lifecycle r
        \<and> q_bytes ?q \<le> int (max_backlog_bytes (q_config ?q))"
      using q'(2) by (simp add: message_authority_def count_insert_def new_message_def)
    ultimately show ?thesis by blast
  next
    case False
    have "distinct (map q_id (queues d1))"
      using Cons.prems(3) by (simp add: ins(1))
    then show ?thesis using Cons.IH [OF rest False] by blast
  qed
qed

text \<open>The shape of every successful fresh enqueue.\<close>

lemma enqueue_fresh_Inr:
  assumes "enqueue_fresh r fp gen now d = Inr (res, d')"
  obtains q ids d1 d2 where
    "List.find (\<lambda>q. q_id q = rq_queue r) (queues d) = Some q"
    "q_lifecycle q = rq_lifecycle r" "q_config_gen q = rq_config_gen r" "q_state q = Accepting"
    "map_each (enqueue_message r q now (now + int (retention_seconds (q_config q)) * 1000))
       (zip (map gen [0..<length (rq_messages r)]) (rq_messages r)) d = Inr (ids, d1)"
    "metrics_tx (rq_queue r) d1 = Inr (metrics res, d1)" "message_ids res = ids"
    "insert_enqueue_operation r fp ids (metrics res) now (retention_seconds (q_config q))
       (now + int (retention_seconds (q_config q)) * 1000) d1 = Inr ((), d')"
proof -
  have metrics_same: "metrics_tx qid x = Inr (mt, y) \<Longrightarrow> y = x" for qid x mt y
    by (auto simp: metrics_tx_def tx_simps split: option.splits)
  have acc: "accepting_state st = Inr u \<longleftrightarrow> st = Accepting" for st u
    by (cases st) (simp_all add: accepting_state_def)
  from assms obtain q total e ids d1 mt d2 where
    q: "List.find (\<lambda>q. q_id q = rq_queue r) (queues d) = Some q"
    "q_lifecycle q = rq_lifecycle r" "q_config_gen q = rq_config_gen r" "q_state q = Accepting"
    and e: "checked_timestamp now (retention_seconds (q_config q)) = Inr e"
    and ids: "map_each (enqueue_message r q now e)
       (zip (map gen [0..<length (rq_messages r)]) (rq_messages r)) d = Inr (ids, d1)"
    and mt: "metrics_tx (rq_queue r) d1 = Inr (mt, d2)"
    and op: "insert_enqueue_operation r fp ids mt now (retention_seconds (q_config q)) e d2 = Inr ((), d')"
    and res: "res = \<lparr>message_ids = ids, metrics = mt\<rparr>"
    unfolding enqueue_fresh_def read_state_tx_def tx_simps acc
    by (clarsimp simp: tx_simps split: option.split_asm if_split_asm)
  have e': "e = now + int (retention_seconds (q_config q)) * 1000"
    using e by (simp add: checked_timestamp_Inr)
  show thesis
    using that [OF q ids [unfolded e']] mt metrics_same [OF mt] op res e' by simp
qed

section \<open>Idempotency\<close>

lemma find_append_new:
  "List.find p xs = None \<Longrightarrow> p x \<Longrightarrow> List.find p (xs @ [x]) = Some x"
  by (induction xs) (auto split: if_splits)

lemma replay_existing:
  assumes "validate_request r = Inr ()"
    and "List.find (\<lambda>x. o_request x = rq_request r) (operations d) = Some x"
    and "o_queue x = rq_queue r" "o_generation x = rq_lifecycle r"
    and "o_fingerprint x = enqueue_fingerprint sha fmt r"
  shows "enqueue_queue sha fmt r gen now d = Inr (\<lparr>message_ids = o_message_ids x, metrics = o_metrics x\<rparr>, d)"
  using assms
  by (simp add: enqueue_queue_def replay_enqueue_def andthen_def lift_def reading_def ret_def)

text \<open>A successful enqueue leaves an operation row that answers every repetition.\<close>

lemma enqueue_leaves_operation:
  assumes "enqueue_queue sha fmt r gen now d = Inr (res, d')"
  obtains x where "validate_request r = Inr ()"
    and "List.find (\<lambda>x. o_request x = rq_request r) (operations d') = Some x"
    and "o_queue x = rq_queue r" "o_generation x = rq_lifecycle r"
    and "o_fingerprint x = enqueue_fingerprint sha fmt r"
    and "message_ids res = o_message_ids x" "metrics res = o_metrics x"
proof -
  let ?fp = "enqueue_fingerprint sha fmt r"
  from assms obtain rep where valid: "validate_request r = Inr ()"
    and rep: "replay_enqueue r ?fp d = Inr (rep, d)"
    and cont: "(case rep of Some res \<Rightarrow> ret res | None \<Rightarrow> enqueue_fresh r ?fp gen now) d = Inr (res, d')"
    by (fastforce simp: enqueue_queue_def replay_enqueue_def tx_simps split: option.splits if_splits)
  show thesis
  proof (cases rep)
    case (Some old)
    then have "d' = d" "res = old" using cont by (simp_all add: tx_simps)
    moreover from rep Some obtain x where
      "List.find (\<lambda>x. o_request x = rq_request r) (operations d) = Some x"
      "o_queue x = rq_queue r" "o_generation x = rq_lifecycle r" "o_fingerprint x = ?fp"
      "old = \<lparr>message_ids = o_message_ids x, metrics = o_metrics x\<rparr>"
      by (auto simp: replay_enqueue_def tx_simps split: option.splits if_splits)
    ultimately show thesis using that [OF valid, of x] by simp
  next
    case None
    with rep have new: "List.find (\<lambda>x. o_request x = rq_request r) (operations d) = None"
      by (auto simp: replay_enqueue_def tx_simps split: option.splits if_splits)
    from cont None have "enqueue_fresh r ?fp gen now d = Inr (res, d')" by simp
    then obtain q ids d1 where
      run: "map_each (enqueue_message r q now (now + int (retention_seconds (q_config q)) * 1000))
         (zip (map gen [0..<length (rq_messages r)]) (rq_messages r)) d = Inr (ids, d1)"
      and ids: "message_ids res = ids"
      and op: "insert_enqueue_operation r ?fp ids (metrics res) now (retention_seconds (q_config q))
         (now + int (retention_seconds (q_config q)) * 1000) d1 = Inr ((), d')"
      by (rule enqueue_fresh_Inr)
    have same: "operations d1 = operations d" using enqueue_messages_run [OF run] by simp
    from op obtain x where "operations d' = operations d1 @ [x]"
      and x: "o_request x = rq_request r" "o_queue x = rq_queue r" "o_generation x = rq_lifecycle r"
        "o_fingerprint x = ?fp" "o_message_ids x = ids" "o_metrics x = metrics res"
      by (auto simp: insert_enqueue_operation_def tx_simps insert_operation_def split: if_splits)
    then have "List.find (\<lambda>x. o_request x = rq_request r) (operations d') = Some x"
      using new same by (simp add: find_append_new)
    then show thesis using that [OF valid] x ids by simp
  qed
qed

text \<open>
  C8. Enqueue is idempotent: once a request has been accepted, repeating it at any
  later time, with whatever identifiers the generator would draw, returns the
  original message identifiers and metrics and changes nothing.
\<close>

theorem enqueue_replay_idempotent:
  assumes "transaction (enqueue_queue sha fmt r gen now) d = (Inr res, d')"
  shows "transaction (enqueue_queue sha fmt r gen' now') d' = (Inr res, d')"
proof -
  have "enqueue_queue sha fmt r gen now d = Inr (res, d')"
    using assms by (auto simp: transaction_def split: sum.splits prod.splits)
  then obtain x where "validate_request r = Inr ()"
    "List.find (\<lambda>x. o_request x = rq_request r) (operations d') = Some x"
    "o_queue x = rq_queue r" "o_generation x = rq_lifecycle r"
    "o_fingerprint x = enqueue_fingerprint sha fmt r"
    and res: "message_ids res = o_message_ids x" "metrics res = o_metrics x"
    by (rule enqueue_leaves_operation)
  then have "enqueue_queue sha fmt r gen' now' d' =
      Inr (\<lparr>message_ids = o_message_ids x, metrics = o_metrics x\<rparr>, d')"
    by (blast intro: replay_existing)
  moreover have "res = \<lparr>message_ids = o_message_ids x, metrics = o_metrics x\<rparr>"
    using res by simp
  ultimately show ?thesis by (simp add: transaction_def)
qed

text \<open>A small store and request used by the witnesses.\<close>

definition sample_queue :: queue_row where
  "sample_queue = \<lparr>q_id = 7, q_lifecycle = 1, q_config_gen = 1, q_state = Accepting,
     q_config = default_queue_config, q_count = 0, q_bytes = 0, q_created = 0, q_updated = 0\<rparr>"

definition sample_db :: db where
  "sample_db = empty_db\<lparr>queues := [sample_queue]\<rparr>"

definition sample_request :: enqueue_request where
  "sample_request = \<lparr>rq_queue = 7, rq_request = 3, rq_output_gate = False, rq_lifecycle = 1,
     rq_config_gen = 1, rq_batch_delay = Some 5,
     rq_messages = [\<lparr>in_type = Text, in_body = [1, 2, 3], in_delay = None\<rparr>,
                    \<lparr>in_type = Json, in_body = [4], in_delay = Some 0\<rparr>]\<rparr>"

definition sample_sha :: "byte list \<Rightarrow> byte list" where
  "sample_sha bs = replicate 32 (word_of_nat (length bs))"

definition sample_fmt :: "nat \<Rightarrow> byte list" where
  "sample_fmt i = be_bytes 36 i"

lemma sample_inv: "queue_inv sample_db"
  by (simp add: sample_db_def empty_db_def sample_queue_def queue_inv_def keys_ok_def rows_ok_def
      counters_ok_def claims_ok_def)

lemmas enqueue_eval =
  sample_db_def empty_db_def sample_queue_def sample_request_def sample_sha_def default_queue_config_def
  transaction_def enqueue_queue_def enqueue_fresh_def enqueue_message_def replay_enqueue_def
  enqueue_fingerprint_def
  insert_enqueue_operation_def read_state_tx_def metrics_tx_def andthen_def lift_def reading_def ret_def
  require_def stmt_def throw_def validate_request_def validate_delay_def validate_dynamic_limits_def
  accepting_state_def checked_timestamp_def checked_mul_i64_def checked_add_i64_def checked_add_u64_def
  saturating_add_u64_def in_i64_def i64_min_def i64_max_def u64_max_def u32_max_def i64_of_u64_def
  u64_of_i64_def as_i64_def insert_message_def message_authority_def message_checks_def new_message_def
  count_insert_def effective_delay_def queue_metrics_values_def oldest_enqueued_def order_limit_def
  insert_operation_def operation_checks_def has_queue_def queue_limits

lemma sample_enqueue:
  "\<exists>res d'. transaction (enqueue_queue sample_sha sample_fmt sample_request (\<lambda>i. 100 + i) 1000) sample_db
     = (Inr res, d')"
  by (simp add: enqueue_eval upt_rec)

theorem enqueue_replay_idempotent_witness:
  "\<exists>res d'. transaction (enqueue_queue sample_sha sample_fmt sample_request (\<lambda>i. 100 + i) 1000) sample_db
       = (Inr res, d')
     \<and> transaction (enqueue_queue sample_sha sample_fmt sample_request (\<lambda>i. 900 + i) 5000) d'
       = (Inr res, d')"
  using sample_enqueue enqueue_replay_idempotent by blast

section \<open>Effect of a fresh enqueue\<close>

lemma enqueue_new_Inr:
  assumes "enqueue_queue sha fmt r gen now d = Inr (res, d')"
    and "List.find (\<lambda>x. o_request x = rq_request r) (operations d) = None"
  shows "enqueue_fresh r (enqueue_fingerprint sha fmt r) gen now d = Inr (res, d')"
    and "rq_messages r \<noteq> []"
  using assms
  by (auto simp: enqueue_queue_def replay_enqueue_def tx_simps validate_request_def split: option.splits if_splits)

lemma insert_enqueue_operation_messages:
  "insert_enqueue_operation r fp ids mt c ret_s e d = Inr (u, d') \<Longrightarrow>
     messages d' = messages d \<and> queues d' = queues d \<and> next_seq d' = next_seq d"
  by (auto simp: insert_enqueue_operation_def tx_simps insert_operation_def split: if_splits)

lemma metrics_exact:
  assumes "queue_inv d" "metrics_tx qid d = Inr (mt, d')"
  shows "int (backlog_count mt) = count_where (\<lambda>m. m_queue m = qid) (messages d)"
    and "int (backlog_bytes mt) = sum_where (\<lambda>m. m_queue m = qid) m_bytes (messages d)"
proof -
  obtain q where q: "List.find (\<lambda>q. q_id q = qid) (queues d) = Some q"
    and mt: "queue_metrics_values (q_count q) (q_bytes q) (oldest_enqueued qid d) = Inr mt"
    using assms(2) by (auto simp: metrics_tx_def tx_simps split: option.splits)
  have "q \<in> set (queues d)" "q_id q = qid"
    using q by (auto simp: find_Some_iff)
  then have "q_count q = count_where (\<lambda>m. m_queue m = qid) (messages d)"
    "q_bytes q = sum_where (\<lambda>m. m_queue m = qid) m_bytes (messages d)"
    using queue_invD(3) [OF assms(1)] by (auto simp: counters_ok_def list_all_iff)
  moreover from mt have "int (backlog_count mt) = q_count q" "int (backlog_bytes mt) = q_bytes q"
    by (auto simp: queue_metrics_values_def result_simps u64_of_i64_def split: if_splits)
  ultimately show "int (backlog_count mt) = count_where (\<lambda>m. m_queue m = qid) (messages d)"
    "int (backlog_bytes mt) = sum_where (\<lambda>m. m_queue m = qid) m_bytes (messages d)"
    by simp_all
qed

text \<open>
  C9. A fresh enqueue that succeeds appends exactly one ready row per requested
  message, in order, with the body, the expiry of the queue's retention and the
  delay chosen by precedence (message, batch, queue default), returns the drawn
  identifiers and the exact backlog of the queue, and leaves the queue within its
  backlog quota. A failed enqueue changes nothing.
\<close>

theorem enqueue_appends_exactly:
  assumes "queue_inv d"
    and "List.find (\<lambda>x. o_request x = rq_request r) (operations d) = None"
  shows "case transaction (enqueue_queue sha fmt r gen now) d of
      (Inl e, d') \<Rightarrow> d' = d
    | (Inr res, d') \<Rightarrow> \<exists>q \<in> set (queues d).
        q_id q = rq_queue r \<and> q_state q = Accepting
        \<and> q_lifecycle q = rq_lifecycle r \<and> q_config_gen q = rq_config_gen r
        \<and> message_ids res = map gen [0..<length (rq_messages r)]
        \<and> messages d' = messages d @ queued_rows r q now
             (now + int (retention_seconds (q_config q)) * 1000) (next_seq d)
             (zip (map gen [0..<length (rq_messages r)]) (rq_messages r))
        \<and> int (backlog_count (metrics res)) = count_where (\<lambda>m. m_queue m = rq_queue r) (messages d')
        \<and> int (backlog_bytes (metrics res)) = sum_where (\<lambda>m. m_queue m = rq_queue r) m_bytes (messages d')
        \<and> (\<exists>q' \<in> set (queues d'). q_id q' = rq_queue r
             \<and> q_bytes q' \<le> int (max_backlog_bytes (q_config q')))"
proof (cases "enqueue_queue sha fmt r gen now d")
  case (Inl e)
  then show ?thesis by (simp add: transaction_def)
next
  case (Inr p)
  obtain res d' where p: "p = (res, d')" by (cases p)
  have run: "enqueue_queue sha fmt r gen now d = Inr (res, d')" using Inr p by simp
  note fresh = enqueue_new_Inr [OF run assms(2)]
  let ?ims = "zip (map gen [0..<length (rq_messages r)]) (rq_messages r)"
  obtain q ids d1 where
    q: "List.find (\<lambda>q. q_id q = rq_queue r) (queues d) = Some q"
      "q_lifecycle q = rq_lifecycle r" "q_config_gen q = rq_config_gen r" "q_state q = Accepting"
    and each: "map_each (enqueue_message r q now (now + int (retention_seconds (q_config q)) * 1000))
       ?ims d = Inr (ids, d1)"
    and mt: "metrics_tx (rq_queue r) d1 = Inr (metrics res, d1)" and ids: "message_ids res = ids"
    and op: "insert_enqueue_operation r (enqueue_fingerprint sha fmt r) ids (metrics res) now
       (retention_seconds (q_config q)) (now + int (retention_seconds (q_config q)) * 1000) d1 = Inr ((), d')"
    using fresh(1) by (rule enqueue_fresh_Inr)
  have mem: "q \<in> set (queues d)" "q_id q = rq_queue r" using q(1) by (auto simp: find_Some_iff)
  note rows = enqueue_messages_run [OF each]
  have "keeps queue_inv (map_each (enqueue_message r q now
      (now + int (retention_seconds (q_config q)) * 1000)) ?ims)"
    unfolding enqueue_message_def by (intro keeps_queue)
  then have inv1: "queue_inv d1"
    using assms(1) each unfolding keeps_def by blast
  have same: "messages d' = messages d1" "queues d' = queues d1"
    using insert_enqueue_operation_messages [OF op] by simp_all
  have "?ims \<noteq> []" using fresh(2) by (cases "rq_messages r") simp_all
  then have "\<exists>q' \<in> set (queues d1). q_id q' = rq_queue r \<and> q_bytes q' \<le> int (max_backlog_bytes (q_config q'))"
    using enqueue_backlog [OF each] queue_invD(1) [OF assms(1)] by (auto simp: keys_ok_def)
  then show ?thesis
    using mem q(2-4) ids rows metrics_exact [OF inv1 mt]
    by (auto simp: transaction_def run same intro!: bexI [of _ q])
qed

theorem enqueue_appends_exactly_witness:
  "\<exists>res d'. transaction (enqueue_queue sample_sha sample_fmt sample_request (\<lambda>i. 100 + i) 1000) sample_db
       = (Inr res, d')
     \<and> message_ids res = [100, 101] \<and> map m_available (messages d') = [6000, 1000]"
proof -
  obtain res d' where run: "transaction (enqueue_queue sample_sha sample_fmt sample_request
      (\<lambda>i. 100 + i) 1000) sample_db = (Inr res, d')"
    using sample_enqueue by blast
  have none: "List.find (\<lambda>x. o_request x = rq_request sample_request) (operations sample_db) = None"
    by (simp add: sample_db_def empty_db_def)
  show ?thesis
    using enqueue_appends_exactly [OF sample_inv none,
        where sha = sample_sha and fmt = sample_fmt and gen = "\<lambda>i. 100 + i" and now = 1000] run
    by (auto simp: sample_db_def empty_db_def sample_queue_def sample_request_def new_message_def
        effective_delay_def default_queue_config_def upt_rec)
qed

section \<open>The request fingerprint\<close>

fun be_value :: "byte list \<Rightarrow> nat" where
  "be_value [] = 0"
| "be_value (b # bs) = unat b * 256 ^ length bs + be_value bs"

lemma be_bytes_Suc: "be_bytes (Suc n) v = word_of_nat (v div 256 ^ n) # be_bytes n v"
proof -
  have "be_bytes (Suc n) v = map (\<lambda>i. word_of_nat (v div 256 ^ (n - i))) (0 # map Suc [0..<n])"
    by (simp add: be_bytes_def upt_rec [of 0 "Suc n"] map_Suc_upt del: upt_Suc)
  then show ?thesis by (simp add: be_bytes_def)
qed

lemma length_be_bytes [simp]: "length (be_bytes n v) = n"
  by (simp add: be_bytes_def)

lemma be_value_be_bytes: "be_value (be_bytes n v) = v mod 256 ^ n"
proof (induction n)
  case 0
  then show ?case by (simp add: be_bytes_def)
next
  case (Suc n)
  have "v mod (256 ^ n * 256) = 256 ^ n * (v div 256 ^ n mod 256) + v mod 256 ^ n"
    by (rule mod_mult2_eq)
  then show ?case
    using Suc by (simp add: be_bytes_Suc unat_of_nat mult.commute)
qed

lemma be_bytes_inj: "be_bytes n v = be_bytes n w \<Longrightarrow> v < 256 ^ n \<Longrightarrow> w < 256 ^ n \<Longrightarrow> v = w"
  by (metis be_value_be_bytes mod_less)

text \<open>The value ranges of the request's identifiers and of its 32-bit and 64-bit fields.\<close>

definition input_in_range :: "message_input \<Rightarrow> bool" where
  "input_in_range m \<longleftrightarrow> length (in_body m) \<le> u64_max
     \<and> (case in_delay m of None \<Rightarrow> True | Some v \<Rightarrow> v \<le> u32_max)"

definition request_in_range :: "enqueue_request \<Rightarrow> bool" where
  "request_in_range r \<longleftrightarrow> rq_queue r < 2 ^ 128 \<and> rq_lifecycle r \<le> u64_max \<and> rq_config_gen r \<le> u64_max
     \<and> length (rq_messages r) \<le> u64_max
     \<and> (case rq_batch_delay r of None \<Rightarrow> True | Some v \<Rightarrow> v \<le> u32_max)
     \<and> list_all input_in_range (rq_messages r)"

lemma u64_range: "n \<le> u64_max \<Longrightarrow> n < 256 ^ 8"
  by (simp add: u64_max_def)

lemma u32_range: "n \<le> u32_max \<Longrightarrow> n < 256 ^ 4"
  by (simp add: u32_max_def)

lemma type_bytes_prefix:
  "type_bytes t @ xs = type_bytes u @ ys \<Longrightarrow> t = u \<and> xs = ys"
  by (cases t; cases u) (simp_all add: type_bytes_def)

lemma delay_bytes_prefix:
  assumes "(case x of Some v \<Rightarrow> [1] @ be_bytes 4 v | None \<Rightarrow> [0]) @ xs
         = (case y of Some v \<Rightarrow> [1] @ be_bytes 4 v | None \<Rightarrow> [0 :: byte]) @ ys"
    and "case x of None \<Rightarrow> True | Some v \<Rightarrow> v \<le> u32_max"
    and "case y of None \<Rightarrow> True | Some v \<Rightarrow> v \<le> u32_max"
  shows "x = y \<and> xs = ys"
  using assms by (cases x; cases y) (auto dest: be_bytes_inj u32_range)

lemma message_preimage_prefix:
  assumes "message_preimage m @ xs = message_preimage m' @ ys"
    and "input_in_range m" "input_in_range m'"
  shows "m = m' \<and> xs = ys"
proof -
  have range: "length (in_body m) \<le> u64_max" "length (in_body m') \<le> u64_max"
    using assms(2,3) by (simp_all add: input_in_range_def)
  let ?rest = "\<lambda>m zs. be_bytes 8 (length (in_body m)) @ in_body m
      @ (case in_delay m of Some v \<Rightarrow> [1] @ be_bytes 4 v | None \<Rightarrow> [0]) @ zs"
  have "type_bytes (in_type m) @ 0xff # ?rest m xs = type_bytes (in_type m') @ 0xff # ?rest m' ys"
    using assms(1) range by (simp add: message_preimage_def min_absorb1)
  from type_bytes_prefix [OF this] have tail: "in_type m = in_type m'" "?rest m xs = ?rest m' ys"
    by simp_all
  then have "length (in_body m) = length (in_body m')"
    using range by (auto dest: be_bytes_inj u64_range)
  with tail(2) have body: "in_body m = in_body m'"
    and rest: "(case in_delay m of Some v \<Rightarrow> [1] @ be_bytes 4 v | None \<Rightarrow> [0]) @ xs
      = (case in_delay m' of Some v \<Rightarrow> [1] @ be_bytes 4 v | None \<Rightarrow> [0]) @ ys"
    by simp_all
  have "in_delay m = in_delay m' \<and> xs = ys"
    by (rule delay_bytes_prefix [OF rest]) (use assms in \<open>simp_all add: input_in_range_def\<close>)
  then show ?thesis using tail(1) body by simp
qed

lemma messages_preimage_inj:
  assumes "concat (map message_preimage ms) = concat (map message_preimage ms')"
    and "length ms = length ms'" "list_all input_in_range ms" "list_all input_in_range ms'"
  shows "ms = ms'"
  using assms
proof (induction ms arbitrary: ms')
  case (Cons m ms)
  then obtain m' ms1 where ms': "ms' = m' # ms1" by (cases ms') auto
  with Cons.prems have "m = m' \<and> concat (map message_preimage ms) = concat (map message_preimage ms1)"
    by (intro message_preimage_prefix) simp_all
  with Cons ms' show ?case by simp
qed simp

lemma enqueue_preimage_inj:
  assumes eq: "enqueue_preimage fmt r = enqueue_preimage fmt r'"
    and fmt: "\<And>i. length (fmt i) = 36" "inj_on fmt {..<2 ^ 128}"
    and range: "request_in_range r" "request_in_range r'"
    and same: "rq_request r = rq_request r'"
  shows "r = r'"
proof -
  let ?tail = "\<lambda>r. (case rq_batch_delay r of Some delay \<Rightarrow> be_bytes 4 delay | None \<Rightarrow> [])
      @ concat (map message_preimage (rq_messages r))"
  have bounds: "rq_lifecycle r < 256 ^ 8" "rq_lifecycle r' < 256 ^ 8" "rq_config_gen r < 256 ^ 8"
    "rq_config_gen r' < 256 ^ 8" "length (rq_messages r) < 256 ^ 8" "length (rq_messages r') < 256 ^ 8"
    using range unfolding request_in_range_def by (blast intro: u64_range)+
  from eq range have parts: "fmt (rq_queue r) = fmt (rq_queue r')"
    "be_bytes 8 (rq_lifecycle r) = be_bytes 8 (rq_lifecycle r')"
    "be_bytes 8 (rq_config_gen r) = be_bytes 8 (rq_config_gen r')"
    "rq_output_gate r = rq_output_gate r'"
    "be_bytes 8 (length (rq_messages r)) = be_bytes 8 (length (rq_messages r'))"
    "be_bytes 4 (if rq_batch_delay r = None then 0 else 1) = be_bytes 4 (if rq_batch_delay r' = None then 0 else 1)"
    "?tail r = ?tail r'"
    by (auto simp: enqueue_preimage_def fmt(1) request_in_range_def min_absorb1 split: if_splits)
  have "(if rq_batch_delay r = None then 0 else 1 :: nat) = (if rq_batch_delay r' = None then 0 else 1)"
    by (rule be_bytes_inj [OF parts(6)]) auto
  then have "(rq_batch_delay r = None) = (rq_batch_delay r' = None)" by (auto split: if_splits)
  with parts(7) range have delay: "rq_batch_delay r = rq_batch_delay r'"
    and msgs: "concat (map message_preimage (rq_messages r)) = concat (map message_preimage (rq_messages r'))"
    by (auto simp: request_in_range_def dest: be_bytes_inj u32_range split: option.splits)
  have "length (rq_messages r) = length (rq_messages r')"
    using parts(5) bounds by (auto dest: be_bytes_inj)
  then have "rq_messages r = rq_messages r'"
    using messages_preimage_inj [OF msgs] range by (simp add: request_in_range_def)
  moreover have "rq_lifecycle r = rq_lifecycle r'" "rq_config_gen r = rq_config_gen r'"
    using parts(2,3) bounds by (auto dest: be_bytes_inj)
  moreover have "rq_queue r = rq_queue r'" using parts(1) fmt(2) range by (auto simp: request_in_range_def dest: inj_onD)
  ultimately show ?thesis using parts(4) delay same by simp
qed

text \<open>
  An operation identity cannot be reused for another request: after an accepted
  enqueue, any well-formed request with the same identity but different content
  (queue, generations, output gate, delays, bodies or content types) is answered
  with \<open>IdempotencyConflict\<close> and changes nothing, provided the hash separates the two
  encodings. The encoding itself is injective.
\<close>

theorem enqueue_identity_reuse_refused:
  assumes "transaction (enqueue_queue sha fmt r gen now) d = (Inr res, d')"
    and "rq_request r' = rq_request r" "r' \<noteq> r" "validate_request r' = Inr ()"
    and "request_in_range r" "request_in_range r'"
    and "\<And>i. length (fmt i) = 36" "inj_on fmt {..<2 ^ 128}"
    and "sha (enqueue_preimage fmt r) = sha (enqueue_preimage fmt r') \<Longrightarrow>
           enqueue_preimage fmt r = enqueue_preimage fmt r'"
  shows "transaction (enqueue_queue sha fmt r' gen' now') d' = (Inl IdempotencyConflict, d')"
proof -
  have run: "enqueue_queue sha fmt r gen now d = Inr (res, d')"
    using assms(1) by (auto simp: transaction_def split: sum.splits prod.splits)
  obtain x where x: "List.find (\<lambda>x. o_request x = rq_request r) (operations d') = Some x"
    "o_fingerprint x = enqueue_fingerprint sha fmt r"
    using enqueue_leaves_operation [OF run] by metis
  have "o_fingerprint x \<noteq> enqueue_fingerprint sha fmt r'"
    using enqueue_preimage_inj [of fmt r r'] assms(2-) x(2) by (auto simp: enqueue_fingerprint_def)
  then show ?thesis
    using x(1) assms(2,4)
    by (simp add: transaction_def enqueue_queue_def replay_enqueue_def andthen_def lift_def reading_def
        throw_def)
qed

definition other_request :: enqueue_request where
  "other_request = sample_request\<lparr>rq_messages := [\<lparr>in_type = Text, in_body = [9], in_delay = None\<rparr>]\<rparr>"

theorem enqueue_identity_reuse_refused_witness:
  "\<exists>res d'. transaction (enqueue_queue sample_sha sample_fmt sample_request (\<lambda>i. 100 + i) 1000) sample_db
       = (Inr res, d')
     \<and> transaction (enqueue_queue sample_sha sample_fmt other_request (\<lambda>i. 200 + i) 2000) d'
       = (Inl IdempotencyConflict, d')"
proof -
  obtain res d' where run: "transaction (enqueue_queue sample_sha sample_fmt sample_request
      (\<lambda>i. 100 + i) 1000) sample_db = (Inr res, d')"
    using sample_enqueue by blast
  have "transaction (enqueue_queue sample_sha sample_fmt other_request (\<lambda>i. 200 + i) 2000) d'
      = (Inl IdempotencyConflict, d')"
  proof (rule enqueue_identity_reuse_refused [OF run])
    show "validate_request other_request = Inr ()"
      by (simp add: other_request_def sample_request_def validate_request_def validate_delay_def
          queue_limits u32_max_def checked_add_u64_def u64_max_def)
    show "inj_on sample_fmt {..<2 ^ 128}"
      by (rule inj_onI) (auto simp: sample_fmt_def intro: be_bytes_inj)
    show "enqueue_preimage sample_fmt sample_request = enqueue_preimage sample_fmt other_request"
      if "sample_sha (enqueue_preimage sample_fmt sample_request)
        = sample_sha (enqueue_preimage sample_fmt other_request)"
    proof -
      have "length (enqueue_preimage sample_fmt sample_request) = 105"
        "length (enqueue_preimage sample_fmt other_request) = 84"
        by (simp_all add: enqueue_preimage_def sample_fmt_def other_request_def sample_request_def
            message_preimage_def type_bytes_def)
      with that show ?thesis by (simp add: sample_sha_def)
    qed
  qed (simp_all add: other_request_def sample_request_def request_in_range_def input_in_range_def
      u64_max_def u32_max_def sample_fmt_def)
  with run show ?thesis by blast
qed

end
