(* ===== verification/Queue_Consumer.thy ===== *)
theory Queue_Consumer
  imports Queue_Producer_Proofs
begin

text \<open>
  The consumer half of the queue store (\<open>crates/storage/src/scheduler/queue_consumer.rs\<close>
  and \<open>queue_consumer/helpers.rs\<close>): claiming delivery batches with a wrap-around
  cursor, completing a batch with one decision per message, and forwarding
  terminal messages to their dead-letter queue. \<open>gen\<close> supplies the identifiers drawn by
  \<open>QueueBatchId::generate\<close>, one per candidate consumer.
\<close>

section \<open>Data\<close>

record consumer_config =
  max_batch_size :: nat
  max_batch_timeout_seconds :: nat
  max_retries :: nat
  retry_delay_seconds :: nat
  max_concurrency :: nat

definition default_consumer_config :: consumer_config where
  "default_consumer_config = \<lparr>max_batch_size = 10, max_batch_timeout_seconds = 5, max_retries = 3,
     retry_delay_seconds = 0, max_concurrency = 4\<rparr>"

definition validate_consumer_config :: "consumer_config \<Rightarrow> nat \<Rightarrow> unit result" where
  "validate_consumer_config c local_max =
    (if \<not> (1 \<le> max_batch_size c \<and> max_batch_size c \<le> 100)
        \<or> max_batch_timeout_seconds c > 60 \<or> max_retries c > 100
        \<or> retry_delay_seconds c > 86400 \<or> max_concurrency c = 0
        \<or> max_concurrency c > local_max
     then Inl LimitInvalid else Inr ())"

record claimed_message =
  cm_id :: nat
  cm_enqueued :: int
  cm_attempt :: nat
  cm_type :: content_type
  cm_body :: "byte list"

record claimed_batch =
  cb_id :: nat
  cb_instance :: nat
  cb_queue :: nat
  cb_consumer :: nat
  cb_generation :: nat
  cb_version :: nat
  cb_worker :: nat
  cb_execution :: nat
  cb_entrypoint :: "string option"
  cb_max_retries :: nat
  cb_dlq :: "(nat \<times> nat) option"
  cb_retry_delay :: nat
  cb_messages :: "claimed_message list"

datatype completion_action = Ack | Retry nat

record completion_decision =
  cd_message :: nat
  cd_action :: completion_action

record completion_summary =
  acknowledged :: nat
  retried :: nat
  dead_lettered :: nat
  dlq_pending :: nat
  discarded :: nat
  stale :: bool

record forward_summary =
  moved :: nat
  fw_expired :: nat
  deferred :: nat

definition u16_max :: nat where "u16_max = 65535"

definition saturating_add_u16 :: "nat \<Rightarrow> nat \<Rightarrow> nat" where
  "saturating_add_u16 a b = min (a + b) u16_max"

text \<open>Reading a row fails when its attempt counter does not fit 16 bits.\<close>

definition map_message :: "message_row \<Rightarrow> bool" where
  "map_message m \<longleftrightarrow> m_attempts m \<le> u16_max"

section \<open>Claiming\<close>

definition deliverable :: "db \<Rightarrow> int \<Rightarrow> message_row \<Rightarrow> bool" where
  "deliverable d now m \<longleftrightarrow> m_claim m = None \<and> m_available m \<le> now \<and> m_expires m > now
     \<and> \<not> is_pending d (m_id m)"

definition due_messages :: "db \<Rightarrow> nat \<Rightarrow> int \<Rightarrow> nat \<Rightarrow> message_row list" where
  "due_messages d qid now limit =
     order_limit (\<lambda>m. (m_available m, m_seq m)) limit
       (filter (\<lambda>m. m_queue m = qid \<and> deliverable d now m) (messages d))"

definition eligible_consumer :: "db \<Rightarrow> int \<Rightarrow> consumer_row \<Rightarrow> bool" where
  "eligible_consumer d now c \<longleftrightarrow>
     c_active c \<and> has_queue (c_queue c) d
     \<and> length (filter (\<lambda>b. b_queue b = c_queue c) (batches d)) < c_max_concurrency c
     \<and> ((case due_messages d (c_queue c) now 1 of
            [] \<Rightarrow> False
          | m # _ \<Rightarrow> now \<ge> m_available m + int (c_max_batch_timeout_ms c))
         \<or> min 100 (length (filter (\<lambda>m. m_queue m = c_queue c \<and> deliverable d now m) (messages d)))
             \<ge> c_max_batch_size c)"

definition eligible_consumers_tx :: "int \<Rightarrow> nat \<Rightarrow> nat option \<Rightarrow> consumer_row list tx" where
  "eligible_consumers_tx now limit after =
     reading (\<lambda>d. order_limit
       (\<lambda>c. (if (case after of None \<Rightarrow> True | Some a \<Rightarrow> c_queue c > a) then 0 else 1 :: nat,
             c_queue c, c_id c)) limit
       (filter (eligible_consumer d now) (consumers d)))"

definition due_messages_tx :: "consumer_row \<Rightarrow> int \<Rightarrow> message_row list tx" where
  "due_messages_tx c now =
     andthen (reading (\<lambda>d. due_messages d (c_queue c) now (c_max_batch_size c))) (\<lambda>ms.
     andthen (require QueueInvariantViolation (list_all map_message ms)) (\<lambda>_. ret ms))"

definition claim_of :: "nat \<Rightarrow> consumer_row \<Rightarrow> claim_ref" where
  "claim_of batch c = \<lparr>cl_batch = batch, cl_consumer = c_id c, cl_generation = c_generation c\<rparr>"

definition claim_message :: "nat \<Rightarrow> consumer_row \<Rightarrow> int \<Rightarrow> message_row \<Rightarrow> unit tx" where
  "claim_message batch c now m =
     andthen (lift (as_i64_all [c_generation c])) (\<lambda>_.
     andthen (stmt map_sql_error (\<lambda>d. update_messages
        (\<lambda>x. m_seq x = m_seq m \<and> deliverable d now x)
        (\<lambda>x. x\<lparr>m_claim := Some (claim_of batch c)\<rparr>) d)) (\<lambda>changed.
       require QueueInvariantViolation (changed = 1)))"

definition batch_of_claim :: "nat \<Rightarrow> consumer_row \<Rightarrow> int \<Rightarrow> message_row list \<Rightarrow> batch_row" where
  "batch_of_claim batch c now ms = \<lparr>b_id = batch, b_queue = c_queue c, b_consumer = c_id c,
     b_generation = c_generation c, b_version = c_version c, b_execution = c_execution c,
     b_entrypoint = c_entrypoint c, b_count = length ms, b_created = now\<rparr>"

definition claimed_batch_of ::
  "nat \<Rightarrow> nat \<Rightarrow> consumer_row \<Rightarrow> message_row list \<Rightarrow> claimed_batch" where
  "claimed_batch_of self batch c ms = \<lparr>cb_id = batch, cb_instance = self, cb_queue = c_queue c,
     cb_consumer = c_id c, cb_generation = c_generation c, cb_version = c_version c,
     cb_worker = c_worker c, cb_execution = c_execution c, cb_entrypoint = c_entrypoint c,
     cb_max_retries = c_max_retries c, cb_dlq = c_dlq c, cb_retry_delay = c_retry_delay_seconds c,
     cb_messages = map (\<lambda>m. \<lparr>cm_id = m_id m, cm_enqueued = m_enqueued m,
        cm_attempt = saturating_add_u16 (m_attempts m) 1, cm_type = m_type m, cm_body = m_body m\<rparr>) ms\<rparr>"

definition claim_consumer ::
  "nat \<Rightarrow> int \<Rightarrow> nat \<times> consumer_row \<Rightarrow> claimed_batch option tx" where
  "claim_consumer self now ic =
    (case ic of (batch, c) \<Rightarrow>
       andthen (due_messages_tx c now) (\<lambda>ms.
         if ms = [] then ret None
         else
           andthen (lift (as_i64_all [c_generation c, c_execution c])) (\<lambda>_.
           andthen (stmt map_sql_error (insert_batch (batch_of_claim batch c now ms))) (\<lambda>_.
           andthen (for_each (claim_message batch c now) ms) (\<lambda>_.
             ret (Some (claimed_batch_of self batch c ms)))))))"

definition claim_queue_batches ::
  "nat \<Rightarrow> (nat \<Rightarrow> nat) \<Rightarrow> int \<Rightarrow> nat \<Rightarrow> nat option \<Rightarrow> claimed_batch list tx" where
  "claim_queue_batches self gen now max_batches after =
     andthen (require QueueInvariantViolation (max_batches \<noteq> 0)) (\<lambda>_.
     andthen (eligible_consumers_tx now max_batches after) (\<lambda>cs.
     andthen (map_each (claim_consumer self now) (zip (map gen [0..<length cs]) cs)) (\<lambda>bs.
       ret (List.map_filter (\<lambda>b. b) bs))))"

section \<open>Message transitions of a claimed batch\<close>

definition batch_claim :: "claimed_batch \<Rightarrow> claim_ref" where
  "batch_claim b = \<lparr>cl_batch = cb_id b, cl_consumer = cb_consumer b, cl_generation = cb_generation b\<rparr>"

definition claimed_messages_tx :: "claimed_batch \<Rightarrow> message_row list tx" where
  "claimed_messages_tx b =
     andthen (lift (as_i64_all [cb_generation b])) (\<lambda>_.
     andthen (reading (\<lambda>d. sort_key m_seq
        (filter (\<lambda>m. m_claim m = Some (batch_claim b)) (messages d)))) (\<lambda>ms.
     andthen (require QueueInvariantViolation (list_all map_message ms)) (\<lambda>_. ret ms)))"

definition retry_message_tx :: "message_row \<Rightarrow> claimed_batch \<Rightarrow> nat \<Rightarrow> int \<Rightarrow> nat \<Rightarrow> unit tx" where
  "retry_message_tx m b attempt now delay =
     andthen (lift (ok_or QueueInvariantViolation (checked_add_i64 now (int delay * 1000)))) (\<lambda>available.
     andthen (lift (as_i64_all [cb_generation b])) (\<lambda>_.
     andthen (stmt map_sql_error (update_messages
        (\<lambda>x. m_seq x = m_seq m \<and> m_claim x = Some (batch_claim b))
        (\<lambda>x. x\<lparr>m_claim := None, m_attempts := attempt, m_available := available\<rparr>))) (\<lambda>changed.
       require QueueInvariantViolation (changed = 1))))"

definition delete_claimed_message_tx :: "message_row \<Rightarrow> claimed_batch \<Rightarrow> unit tx" where
  "delete_claimed_message_tx m b =
     andthen (lift (as_i64_all [cb_generation b])) (\<lambda>_.
     andthen (stmt map_sql_error (delete_messages
        (\<lambda>x. m_seq x = m_seq m \<and> m_claim x = Some (batch_claim b)))) (\<lambda>changed.
       require QueueInvariantViolation (changed = 1)))"

definition dlq_accepts_tx :: "nat \<times> nat \<Rightarrow> nat \<Rightarrow> bool tx" where
  "dlq_accepts_tx target body_len =
     andthen (lift (as_i64_all [snd target])) (\<lambda>_.
     andthen (reading (\<lambda>d. List.find (\<lambda>q. q_id q = fst target \<and> q_lifecycle q = snd target) (queues d)))
       (\<lambda>found. case found of
          None \<Rightarrow> ret False
        | Some q \<Rightarrow> ret (q_state q = Accepting
            \<and> (case checked_add_i64 (q_bytes q) (min (int body_len) i64_max) of
                 None \<Rightarrow> False | Some v \<Rightarrow> v \<le> int (max_backlog_bytes (q_config q))))))"

definition dlq_row :: "message_row \<Rightarrow> nat \<times> nat \<Rightarrow> int \<Rightarrow> int \<Rightarrow> message_row" where
  "dlq_row m target now expires = \<lparr>m_seq = 0, m_id = m_id m, m_queue = fst target,
     m_generation = snd target, m_enqueued = now, m_available = now, m_expires = expires,
     m_type = m_type m, m_body = m_body m, m_bytes = int (length (m_body m)), m_attempts = 0,
     m_claim = None\<rparr>"

definition insert_dlq_message_tx :: "message_row \<Rightarrow> nat \<times> nat \<Rightarrow> int \<Rightarrow> unit tx" where
  "insert_dlq_message_tx m target now =
     andthen (lift (as_i64_all [snd target])) (\<lambda>_.
     andthen (reading (\<lambda>d. List.find (\<lambda>q. q_id q = fst target \<and> q_lifecycle q = snd target
                                          \<and> q_state q = Accepting) (queues d))) (\<lambda>found.
       case found of
         None \<Rightarrow> throw (map_sql_error NoRows)
       | Some q \<Rightarrow>
           andthen (lift (ok_or QueueInvariantViolation
              (checked_mul_i64 (int (retention_seconds (q_config q))) 1000))) (\<lambda>ms.
           andthen (lift (ok_or QueueInvariantViolation (checked_add_i64 now ms))) (\<lambda>expires.
           andthen (lift (as_i64_all [length (m_body m)])) (\<lambda>_.
             stmt map_sql_error (insert_message (dlq_row m target now expires)))))))"

definition move_to_dlq_tx :: "message_row \<Rightarrow> claimed_batch \<Rightarrow> nat \<times> nat \<Rightarrow> int \<Rightarrow> bool tx" where
  "move_to_dlq_tx m b target now =
     andthen (dlq_accepts_tx target (length (m_body m))) (\<lambda>accepts.
       if \<not> accepts then ret False
       else
         andthen (delete_claimed_message_tx m b) (\<lambda>_.
         andthen (insert_dlq_message_tx m target now) (\<lambda>_. ret True)))"

definition move_ready_to_dlq_tx :: "message_row \<Rightarrow> nat \<times> nat \<Rightarrow> int \<Rightarrow> bool tx" where
  "move_ready_to_dlq_tx m target now =
     andthen (dlq_accepts_tx target (length (m_body m))) (\<lambda>accepts.
       if \<not> accepts then ret False
       else
         andthen (stmt map_sql_error (delete_messages (\<lambda>x. m_seq x = m_seq m \<and> m_claim x = None))) (\<lambda>changed.
         andthen (require QueueInvariantViolation (changed = 1)) (\<lambda>_.
         andthen (insert_dlq_message_tx m target now) (\<lambda>_. ret True))))"

definition add_ms :: "int \<Rightarrow> nat \<Rightarrow> int result" where
  "add_ms now delta =
     rbind (ok_or QueueInvariantViolation (i64_of_u64 delta)) (\<lambda>ms.
       ok_or QueueInvariantViolation (checked_add_i64 now ms))"

section \<open>Completion\<close>

text \<open>What happened to one message; the summary counts these.\<close>

datatype disposition = Acknowledged | Retried | DeadLettered | DlqPending | Discarded

definition terminal_message :: "claimed_batch \<Rightarrow> int \<Rightarrow> nat \<Rightarrow> message_row \<Rightarrow> disposition tx" where
  "terminal_message b now delivery m =
    (case cb_dlq b of
       None \<Rightarrow> andthen (delete_claimed_message_tx m b) (\<lambda>_. ret Discarded)
     | Some target \<Rightarrow>
         andthen (move_to_dlq_tx m b target now) (\<lambda>accepted.
           if accepted then ret DeadLettered
           else
             andthen (retry_message_tx m b delivery now 0) (\<lambda>_.
             andthen (lift (as_i64_all [snd target])) (\<lambda>_.
             andthen (lift (add_ms now 1000)) (\<lambda>next_at.
             andthen (stmt map_sql_error (insert_pending
                \<lparr>p_message = m_id m, p_source = cb_queue b, p_target = fst target,
                 p_target_gen = snd target, p_attempts = delivery, p_next = next_at,
                 p_created = now\<rparr>)) (\<lambda>_. ret DlqPending))))))"

definition complete_message ::
  "claimed_batch \<Rightarrow> completion_decision list \<Rightarrow> int \<Rightarrow> message_row \<Rightarrow> disposition tx" where
  "complete_message b decisions now m =
    (case map_of (map (\<lambda>x. (cd_message x, cd_action x)) decisions) (m_id m) of
       None \<Rightarrow> throw QueueDispositionInvalid
     | Some Ack \<Rightarrow> andthen (delete_claimed_message_tx m b) (\<lambda>_. ret Acknowledged)
     | Some (Retry delay) \<Rightarrow>
         (let delivery = saturating_add_u16 (m_attempts m) 1
          in if now \<ge> m_expires m then
               andthen (delete_claimed_message_tx m b) (\<lambda>_. ret Discarded)
             else if delivery \<le> cb_max_retries b then
               andthen (retry_message_tx m b delivery now delay) (\<lambda>_. ret Retried)
             else terminal_message b now delivery m))"

definition count_disposition :: "disposition \<Rightarrow> disposition list \<Rightarrow> nat" where
  "count_disposition x xs = length (filter (\<lambda>y. y = x) xs)"

definition summary_of :: "disposition list \<Rightarrow> completion_summary" where
  "summary_of xs = \<lparr>acknowledged = count_disposition Acknowledged xs,
     retried = count_disposition Retried xs, dead_lettered = count_disposition DeadLettered xs,
     dlq_pending = count_disposition DlqPending xs, discarded = count_disposition Discarded xs,
     stale = False\<rparr>"

definition stale_summary :: completion_summary where
  "stale_summary = (summary_of [])\<lparr>stale := True\<rparr>"

definition decisions_valid :: "claimed_batch \<Rightarrow> completion_decision list \<Rightarrow> unit result" where
  "decisions_valid b decisions =
    (if length decisions \<noteq> length (cb_messages b) then Inl QueueDispositionInvalid
     else if \<not> distinct (map cd_message decisions)
             \<or> set (map cd_message decisions) \<noteq> set (map cm_id (cb_messages b))
     then Inl QueueDispositionInvalid
     else if list_ex (\<lambda>x. case cd_action x of Ack \<Rightarrow> False | Retry delay \<Rightarrow> delay > 86400) decisions
     then Inl QueueRetryDelayInvalid
     else Inr ())"

definition complete_queue_batch ::
  "claimed_batch \<Rightarrow> completion_decision list \<Rightarrow> int \<Rightarrow> completion_summary tx" where
  "complete_queue_batch b decisions now =
     andthen (lift (decisions_valid b decisions)) (\<lambda>_.
     andthen (reading (\<lambda>d. List.find (\<lambda>x. b_id x = cb_id b \<and> b_consumer x = cb_consumer b) (batches d)))
       (\<lambda>authority.
          if (case authority of None \<Rightarrow> True | Some x \<Rightarrow> b_generation x \<noteq> cb_generation b)
          then ret stale_summary
          else
            andthen (claimed_messages_tx b) (\<lambda>ms.
            andthen (require QueueInvariantViolation (length ms = length decisions)) (\<lambda>_.
            andthen (map_each (complete_message b decisions now) ms) (\<lambda>outcomes.
            andthen (lift (as_i64_all [cb_generation b])) (\<lambda>_.
            andthen (stmt map_sql_error (delete_batches
               (\<lambda>x. b_id x = cb_id b \<and> b_consumer x = cb_consumer b
                    \<and> b_generation x = cb_generation b))) (\<lambda>deleted.
            andthen (require QueueInvariantViolation (deleted = 1)) (\<lambda>_.
              ret (summary_of outcomes)))))))))"

section \<open>Forwarding to dead-letter queues\<close>

datatype forward_outcome = Moved | Expired | Deferred

definition forward_pending :: "int \<Rightarrow> nat \<Rightarrow> nat \<Rightarrow> forward_outcome tx" where
  "forward_pending now retry_backoff_ms mid =
     andthen (reading (\<lambda>d. (List.find (\<lambda>p. p_message p = mid) (pendings d),
                            List.find (\<lambda>m. m_id m = mid \<and> m_claim m = None) (messages d)))) (\<lambda>found.
       case found of
         (Some p, Some m) \<Rightarrow>
           andthen (require (map_sql_error NoRows) (map_message m)) (\<lambda>_.
             if now \<ge> m_expires m then
               andthen (stmt map_sql_error (delete_pendings (\<lambda>x. p_message x = mid))) (\<lambda>_.
               andthen (stmt map_sql_error (delete_messages
                  (\<lambda>x. m_seq x = m_seq m \<and> m_claim x = None))) (\<lambda>_. ret Expired))
             else
               andthen (move_ready_to_dlq_tx m (p_target p, p_target_gen p) now) (\<lambda>accepted.
                 if accepted then
                   andthen (stmt map_sql_error (delete_pendings (\<lambda>x. p_message x = mid))) (\<lambda>_. ret Moved)
                 else
                   andthen (lift (add_ms now retry_backoff_ms)) (\<lambda>next_at.
                   andthen (stmt map_sql_error (update_pending_next (\<lambda>x. p_message x = mid) next_at))
                     (\<lambda>_. ret Deferred))))
       | _ \<Rightarrow> throw (map_sql_error NoRows))"

definition count_forward :: "forward_outcome \<Rightarrow> forward_outcome list \<Rightarrow> nat" where
  "count_forward x xs = length (filter (\<lambda>y. y = x) xs)"

definition forward_queue_dlq_pending :: "int \<Rightarrow> nat \<Rightarrow> nat \<Rightarrow> forward_summary tx" where
  "forward_queue_dlq_pending now retry_backoff_ms limit =
     andthen (require QueueInvariantViolation (limit \<noteq> 0)) (\<lambda>_.
     andthen (reading (\<lambda>d. map p_message (order_limit (\<lambda>p. (p_next p, p_message p)) limit
                (filter (\<lambda>p. p_next p \<le> now) (pendings d))))) (\<lambda>ids.
     andthen (map_each (forward_pending now retry_backoff_ms) ids) (\<lambda>outcomes.
       ret \<lparr>moved = count_forward Moved outcomes, fw_expired = count_forward Expired outcomes,
            deferred = count_forward Deferred outcomes\<rparr>)))"

section \<open>The invariant is kept\<close>

lemma keeps_claim_message: "keeps queue_inv (claim_message batch c now m)"
proof -
  have "keeps queue_inv (stmt map_sql_error (\<lambda>d. update_messages
        (\<lambda>x. m_seq x = m_seq m \<and> deliverable d now x)
        (\<lambda>x. x\<lparr>m_claim := Some (claim_of batch c)\<rparr>) d))"
    by (rule keeps_stmt) (erule update_messages_inv, assumption, simp add: deliverable_def)
  then show ?thesis
    unfolding claim_message_def by (intro keeps_intros)
qed

lemma keeps_claim_consumer: "keeps queue_inv (claim_consumer self now ic)"
  unfolding claim_consumer_def due_messages_tx_def
  by (intro keeps_intros keeps_statements keeps_claim_message)

lemma keeps_claim: "keeps queue_inv (claim_queue_batches self gen now max_batches after)"
  unfolding claim_queue_batches_def eligible_consumers_tx_def
  by (intro keeps_intros keeps_claim_consumer)

lemmas keeps_consumer = keeps_queue keeps_update_messages

lemma keeps_transitions:
  "keeps queue_inv (retry_message_tx m b n now delay)"
  "keeps queue_inv (delete_claimed_message_tx m b)"
  "keeps queue_inv (insert_dlq_message_tx m target now)"
  "keeps queue_inv (dlq_accepts_tx target len)"
  unfolding retry_message_tx_def delete_claimed_message_tx_def insert_dlq_message_tx_def
    dlq_accepts_tx_def
  by (intro keeps_consumer; simp)+

lemma keeps_moves:
  "keeps queue_inv (move_to_dlq_tx m b target now)"
  "keeps queue_inv (move_ready_to_dlq_tx m target now)"
  unfolding move_to_dlq_tx_def move_ready_to_dlq_tx_def
  by (intro keeps_intros keeps_statements keeps_transitions)+

lemma keeps_terminal: "keeps queue_inv (terminal_message b now n m)"
  unfolding terminal_message_def
  by (intro keeps_intros keeps_statements keeps_transitions keeps_moves)

lemma keeps_complete_message: "keeps queue_inv (complete_message b ds now m)"
  unfolding complete_message_def Let_def
  by (auto simp: keeps_basic intro!: keeps_andthen keeps_transitions keeps_terminal
      split: option.split completion_action.split)

lemma keeps_complete: "keeps queue_inv (complete_queue_batch b ds now)"
  unfolding complete_queue_batch_def claimed_messages_tx_def
  by (intro keeps_intros keeps_statements keeps_complete_message)

lemma keeps_forward_pending: "keeps queue_inv (forward_pending now backoff mid)"
proof -
  have found: "keeps queue_inv (case found of (Some p, Some m) \<Rightarrow> f p m | _ \<Rightarrow> throw e)"
    if "\<And>p m. keeps queue_inv (f p m)" for found :: "pending_row option \<times> message_row option"
      and f :: "pending_row \<Rightarrow> message_row \<Rightarrow> forward_outcome tx" and e
    using that by (auto simp: keeps_basic split: prod.split option.split)
  show ?thesis
    unfolding forward_pending_def
    by (intro found keeps_andthen keeps_basic keeps_if keeps_statements keeps_moves)
qed

lemma keeps_forward: "keeps queue_inv (forward_queue_dlq_pending now backoff limit)"
  unfolding forward_queue_dlq_pending_def
  by (intro keeps_intros keeps_forward_pending)

end
