(* ===== verification/Queue_Claim.thy ===== *)
theory Queue_Claim
  imports Queue_Consumer
begin

text \<open>
  What \<open>claim_queue_batches\<close> promises: on a consistent store it always succeeds,
  every batch holds due messages of one queue in delivery order within the consumer's
  batch size, no message is handed out twice, exactly the messages handed out become
  claimed, and no queue exceeds its consumer's concurrency.
\<close>

section \<open>Marking messages as claimed\<close>

definition mark :: "nat set \<Rightarrow> claim_ref \<Rightarrow> message_row \<Rightarrow> message_row" where
  "mark seqs r m = (if m_seq m \<in> seqs then m\<lparr>m_claim := Some r\<rparr> else m)"

lemma mark_simps [simp]:
  "m_seq (mark s r m) = m_seq m" "m_id (mark s r m) = m_id m" "m_queue (mark s r m) = m_queue m"
  "m_attempts (mark s r m) = m_attempts m"
  "m_seq m \<notin> s \<Longrightarrow> mark s r m = m" "mark {} r m = m"
  by (simp_all add: mark_def)

lemma mark_mark: "mark s r (mark {i} r m) = mark (insert i s) r m"
  by (simp add: mark_def)

lemma claim_message_ok:
  assumes inv: "queue_inv d" and m: "m \<in> set (messages d)" "deliverable d now m"
    and backed: "claim_backed d (m_queue m) (claim_of batch c)" and gen: "int (c_generation c) \<le> i64_max"
  shows "claim_message batch c now m d =
    Inr ((), d\<lparr>messages := map (mark {m_seq m} (claim_of batch c)) (messages d)\<rparr>)"
proof -
  let ?p = "\<lambda>x. m_seq x = m_seq m \<and> deliverable d now x"
  let ?f = "\<lambda>x. x\<lparr>m_claim := Some (claim_of batch c)\<rparr>"
  have one: "filter ?p (messages d) = [m]"
    by (rule filter_seq) (use m queue_invD(1) [OF inv] in \<open>simp_all add: keys_ok_def\<close>)
  have same: "x = m" if "x \<in> set (messages d)" "m_seq x = m_seq m" for x
    by (rule message_seq_inj [OF inv that(1) m(1) that(2)])
  have "message_checks m" using queue_invD(2) [OF inv] m(1) by (auto simp: rows_ok_def list_all_iff)
  then have "immutable_guard x (?f x) \<and> transition_guard d x (?f x) \<and> message_checks (?f x)"
    if "x \<in> set (messages d)" "?p x" for x
    using same [OF that(1)] that(2) backed
    by (auto simp: immutable_guard_def transition_guard_def message_checks_def deliverable_def)
  moreover have "map (\<lambda>x. if ?p x then ?f x else x) (messages d)
      = map (mark {m_seq m} (claim_of batch c)) (messages d)"
    by (rule map_cong [OF refl]) (use same m in \<open>auto simp: mark_def\<close>)
  ultimately have "update_messages ?p ?f d =
      Inr (1, d\<lparr>messages := map (mark {m_seq m} (claim_of batch c)) (messages d)\<rparr>)"
    using one by (simp add: update_messages_def list_all_iff)
  then show ?thesis
    using gen by (simp add: claim_message_def andthen_def lift_def stmt_def require_def ret_def
        as_i64_def i64_of_u64_def)
qed

lemma claim_messages_ok:
  assumes "queue_inv d" "distinct (map m_seq ms)" "int (c_generation c) \<le> i64_max"
    and "\<And>m. m \<in> set ms \<Longrightarrow> m \<in> set (messages d) \<and> deliverable d now m
           \<and> claim_backed d (m_queue m) (claim_of batch c)"
  shows "for_each (claim_message batch c now) ms d =
    Inr ((), d\<lparr>messages := map (mark (m_seq ` set ms) (claim_of batch c)) (messages d)\<rparr>)"
  using assms
proof (induction ms arbitrary: d)
  case Nil
  then show ?case by (simp add: ret_def)
next
  case (Cons m ms)
  let ?d1 = "d\<lparr>messages := map (mark {m_seq m} (claim_of batch c)) (messages d)\<rparr>"
  have step: "claim_message batch c now m d = Inr ((), ?d1)"
    by (rule claim_message_ok) (use Cons.prems in auto)
  have inv1: "queue_inv ?d1" by (rule keepsD [OF keeps_claim_message Cons.prems(1) step])
  have "x \<in> set (messages ?d1) \<and> deliverable ?d1 now x \<and> claim_backed ?d1 (m_queue x) (claim_of batch c)"
    if x: "x \<in> set ms" for x
  proof -
    have "m_seq x \<noteq> m_seq m" using Cons.prems(2) x by (auto simp: image_iff)
    then have "mark {m_seq m} (claim_of batch c) x = x" by simp
    then have "x \<in> set (messages ?d1)" using Cons.prems(4) x by (force simp: image_iff)
    then show ?thesis
      using Cons.prems(4) [of x] x by (simp add: deliverable_def is_pending_def claim_backed_def)
  qed
  then have "for_each (claim_message batch c now) ms ?d1 =
      Inr ((), ?d1\<lparr>messages := map (mark (m_seq ` set ms) (claim_of batch c)) (messages ?d1)\<rparr>)"
    using Cons.prems(2,3) by (intro Cons.IH [OF inv1]) auto
  then show ?case
    by (simp add: andthen_def step mark_mark comp_def)
qed

section \<open>One consumer\<close>

definition consumer_checks :: "consumer_row \<Rightarrow> bool" where
  "consumer_checks c \<longleftrightarrow> c_generation c \<ge> 1 \<and> c_execution c \<ge> 1
     \<and> 1 \<le> c_max_batch_size c \<and> c_max_batch_size c \<le> 100 \<and> c_max_concurrency c \<ge> 1
     \<and> int (c_generation c) \<le> i64_max \<and> int (c_execution c) \<le> i64_max"

text \<open>The rows of \<open>queue_consumer_state\<close> satisfy its checks; a queue has one consumer.\<close>

definition consumers_ok :: "db \<Rightarrow> bool" where
  "consumers_ok d \<longleftrightarrow> list_all consumer_checks (consumers d) \<and> distinct (map c_queue (consumers d))
     \<and> list_all map_message (messages d)"

lemma due_messages_in:
  assumes "m \<in> set (due_messages d q now n)"
  shows "m \<in> set (messages d)" "m_queue m = q" "deliverable d now m"
proof -
  have "m \<in> set (filter (\<lambda>m. m_queue m = q \<and> deliverable d now m) (messages d))"
    using assms set_order_limit_subset unfolding due_messages_def by (rule subsetD [rotated])
  then show "m \<in> set (messages d)" "m_queue m = q" "deliverable d now m" by auto
qed

lemma due_messages_seq: "queue_inv d \<Longrightarrow> distinct (map m_seq (due_messages d q now n))"
  unfolding due_messages_def
  by (intro distinct_order_limit) (simp add: queue_inv_def keys_ok_def distinct_map_filter)

lemma due_messages_id: "queue_inv d \<Longrightarrow> distinct (map m_id (due_messages d q now n))"
  unfolding due_messages_def
  by (intro distinct_order_limit) (simp add: queue_inv_def keys_ok_def distinct_map_filter)

lemma claim_consumer_ok:
  assumes inv: "queue_inv d" and ok: "consumers_ok d" and c: "c \<in> set (consumers d)" "c_active c"
    and q: "has_queue (c_queue c) d" and fresh: "batch \<notin> b_id ` set (batches d)"
    and ms_def: "ms = due_messages d (c_queue c) now (c_max_batch_size c)"
  shows "claim_consumer self now (batch, c) d =
    (if ms = [] then Inr (None, d)
     else Inr (Some (claimed_batch_of self batch c ms),
       d\<lparr>batches := batches d @ [batch_of_claim batch c now ms],
         messages := map (mark (m_seq ` set ms) (claim_of batch c)) (messages d)\<rparr>))"
proof (cases "ms = []")
  case True
  then show ?thesis
    by (simp add: claim_consumer_def due_messages_tx_def andthen_def reading_def require_def ret_def ms_def)
next
  case False
  let ?b = "batch_of_claim batch c now ms"
  let ?d1 = "d\<lparr>batches := batches d @ [?b]\<rparr>"
  have chk: "consumer_checks c" using ok c by (auto simp: consumers_ok_def list_all_iff)
  have len: "1 \<le> length ms" "length ms \<le> c_max_batch_size c"
    using False by (simp_all add: Suc_le_eq) (simp add: ms_def due_messages_def)
  have attempts: "list_all map_message ms"
    using ok due_messages_in(1) by (auto simp: consumers_ok_def list_all_iff ms_def)
  have ins: "insert_batch ?b d = Inr ((), ?d1)"
    using chk len fresh q c
    by (auto simp: insert_batch_def batch_of_claim_def list_ex_iff batch_authority_def consumer_checks_def
        image_iff)
  have inv1: "queue_inv ?d1" by (rule insert_batch_inv [OF inv ins])
  have "for_each (claim_message batch c now) ms ?d1 =
      Inr ((), ?d1\<lparr>messages := map (mark (m_seq ` set ms) (claim_of batch c)) (messages ?d1)\<rparr>)"
  proof (rule claim_messages_ok [OF inv1])
    show "distinct (map m_seq ms)" unfolding ms_def by (rule due_messages_seq [OF inv])
    show "int (c_generation c) \<le> i64_max" using chk by (simp add: consumer_checks_def)
    show "m \<in> set (messages ?d1) \<and> deliverable ?d1 now m \<and> claim_backed ?d1 (m_queue m) (claim_of batch c)"
      if "m \<in> set ms" for m
      using due_messages_in [of m d "c_queue c" now] that
      by (auto simp: ms_def deliverable_def is_pending_def claim_backed_def batch_backs_def
          batch_of_claim_def claim_of_def)
  qed
  then show ?thesis
    using False attempts ins chk
    by (simp add: claim_consumer_def due_messages_tx_def andthen_def reading_def require_def ret_def
        ms_def [symmetric] stmt_def lift_def as_i64_def i64_of_u64_def consumer_checks_def)
qed

section \<open>A whole claim\<close>

definition due_batch :: "nat \<Rightarrow> db \<Rightarrow> int \<Rightarrow> nat \<times> consumer_row \<Rightarrow> claimed_batch" where
  "due_batch self d now ic =
     claimed_batch_of self (fst ic) (snd ic)
       (due_messages d (c_queue (snd ic)) now (c_max_batch_size (snd ic)))"

definition batch_ids :: "claimed_batch \<Rightarrow> nat list" where
  "batch_ids b = map cm_id (cb_messages b)"

definition mark_claims :: "claimed_batch list \<Rightarrow> message_row \<Rightarrow> message_row" where
  "mark_claims bs m = (case List.find (\<lambda>b. m_id m \<in> set (batch_ids b)) bs of
     None \<Rightarrow> m | Some b \<Rightarrow> m\<lparr>m_claim := Some (batch_claim b)\<rparr>)"

lemma mark_claims_Nil [simp]: "mark_claims [] m = m"
  by (simp add: mark_claims_def)

lemma mark_claims_Cons: "mark_claims (b # bs) m =
    (if m_id m \<in> set (batch_ids b) then m\<lparr>m_claim := Some (batch_claim b)\<rparr> else mark_claims bs m)"
  by (simp add: mark_claims_def)

lemma mark_claims_other: "(\<And>b. b \<in> set bs \<Longrightarrow> m_id m \<notin> set (batch_ids b)) \<Longrightarrow> mark_claims bs m = m"
  by (induction bs) (simp_all add: mark_claims_Cons)

lemma due_batch_simps [simp]:
  "batch_ids (due_batch self d now ic) = map m_id (due_messages d (c_queue (snd ic)) now (c_max_batch_size (snd ic)))"
  "batch_claim (due_batch self d now ic) = claim_of (fst ic) (snd ic)"
  "cb_queue (due_batch self d now ic) = c_queue (snd ic)"
  by (simp_all add: due_batch_def claimed_batch_of_def batch_ids_def batch_claim_def claim_of_def)

text \<open>Claims of one queue do not disturb another.\<close>

lemma due_messages_frame:
  assumes "\<And>m. m \<in> set (messages d) \<Longrightarrow> m_queue m = q \<Longrightarrow> m_seq m \<notin> s"
    and "messages d1 = map (mark s r) (messages d)" "pendings d1 = pendings d"
  shows "due_messages d1 q now n = due_messages d q now n"
proof -
  have "filter (\<lambda>m. m_queue m = q \<and> deliverable d1 now m) (map (mark s r) ms)
      = filter (\<lambda>m. m_queue m = q \<and> deliverable d now m) ms"
    if "\<And>m. m \<in> set ms \<Longrightarrow> m_queue m = q \<Longrightarrow> m_seq m \<notin> s" for ms
    using that by (induction ms) (auto simp: deliverable_def is_pending_def assms(3))
  from this [of "messages d"] show ?thesis
    using assms(1) by (simp add: due_messages_def assms(2))
qed

lemma mark_claims_step:
  assumes inv: "queue_inv d" and m: "m \<in> set (messages d)"
    and other: "\<And>ic. ic \<in> set ics \<Longrightarrow> c_queue (snd ic) \<noteq> c_queue c"
    and ms: "ms = due_messages d (c_queue c) now (c_max_batch_size c)"
  shows "mark_claims (map (due_batch self d now) ics) (mark (m_seq ` set ms) (claim_of i c) m)
    = mark_claims (map (due_batch self d now) ((i, c) # ics)) m"
proof (cases "m \<in> set ms")
  case True
  then have q: "m_queue m = c_queue c" using due_messages_in by (simp add: ms)
  have "m_id m \<notin> set (batch_ids b)" if "b \<in> set (map (due_batch self d now) ics)" for b
  proof
    assume "m_id m \<in> set (batch_ids b)"
    with that obtain ic x where "ic \<in> set ics" "x \<in> set (due_messages d (c_queue (snd ic)) now (c_max_batch_size (snd ic)))"
      "m_id x = m_id m" by auto
    with due_messages_in [OF this(2)] message_id_inj [OF inv _ m] other q show False by metis
  qed
  then have "mark_claims (map (due_batch self d now) ics) (m\<lparr>m_claim := Some (claim_of i c)\<rparr>)
      = m\<lparr>m_claim := Some (claim_of i c)\<rparr>"
    by (intro mark_claims_other) simp
  with True show ?thesis by (simp add: mark_def mark_claims_Cons ms)
next
  case False
  then have "m_seq m \<notin> m_seq ` set ms" "m_id m \<notin> m_id ` set ms"
    using message_seq_inj [OF inv _ m] message_id_inj [OF inv _ m] due_messages_in(1) ms by (metis imageE)+
  then show ?thesis by (simp add: mark_claims_Cons ms)
qed

lemma claim_consumers_ok:
  assumes "queue_inv d" "consumers_ok d"
    and "\<And>i c. (i, c) \<in> set ics \<Longrightarrow> c \<in> set (consumers d) \<and> c_active c \<and> has_queue (c_queue c) d
           \<and> i \<notin> b_id ` set (batches d) \<and> due_messages d (c_queue c) now (c_max_batch_size c) \<noteq> []"
    and "distinct (map fst ics)" "distinct (map (c_queue \<circ> snd) ics)"
  shows "map_each (claim_consumer self now) ics d =
    Inr (map (Some \<circ> due_batch self d now) ics,
      d\<lparr>batches := batches d @ map (\<lambda>(i, c). batch_of_claim i c now
            (due_messages d (c_queue c) now (c_max_batch_size c))) ics,
        messages := map (mark_claims (map (due_batch self d now) ics)) (messages d)\<rparr>)"
  using assms
proof (induction ics arbitrary: d)
  case Nil
  then show ?case by (simp add: ret_def)
next
  case (Cons ic ics)
  obtain i c where ic [simp]: "ic = (i, c)" by fastforce
  let ?ms = "due_messages d (c_queue c) now (c_max_batch_size c)"
  let ?row = "\<lambda>d (i, c). batch_of_claim i c now (due_messages d (c_queue c) now (c_max_batch_size c))"
  obtain d1 where d1: "d1 = d\<lparr>batches := batches d @ [batch_of_claim i c now ?ms],
     messages := map (mark (m_seq ` set ?ms) (claim_of i c)) (messages d)\<rparr>" by simp
  have step: "claim_consumer self now (i, c) d = Inr (Some (due_batch self d now (i, c)), d1)"
    using claim_consumer_ok [OF Cons.prems(1,2), of c i ?ms now self] Cons.prems(3) [of i c]
    by (simp add: due_batch_def d1)
  have inv1: "queue_inv d1" by (rule keepsD [OF keeps_claim_consumer Cons.prems(1) step])
  have ok1: "consumers_ok d1"
    using Cons.prems(2) by (simp add: consumers_ok_def list_all_iff map_message_def d1)
  have other: "c_queue (snd ic') \<noteq> c_queue c" if "ic' \<in> set ics" for ic'
  proof -
    have "c_queue c \<notin> (c_queue \<circ> snd) ` set ics" using Cons.prems(5) by (simp add: comp_def)
    with imageI [OF that, of "c_queue \<circ> snd"] show ?thesis by (metis comp_apply)
  qed
  have frame: "due_messages d1 (c_queue (snd ic')) now n = due_messages d (c_queue (snd ic')) now n"
    if "ic' \<in> set ics" for ic' n
  proof (rule due_messages_frame [where r = "claim_of i c"])
    show "m_seq m \<notin> m_seq ` set ?ms" if m: "m \<in> set (messages d)" "m_queue m = c_queue (snd ic')" for m
    proof
      assume "m_seq m \<in> m_seq ` set ?ms"
      then obtain x where x: "x \<in> set ?ms" "m_seq m = m_seq x" by blast
      with message_seq_inj [OF Cons.prems(1) m(1)] due_messages_in [OF x(1)] have "m_queue m = c_queue c"
        by blast
      with m(2) other [OF \<open>ic' \<in> set ics\<close>] show False by simp
    qed
  qed (simp_all add: d1)
  have batch: "map (due_batch self d1 now) ics = map (due_batch self d now) ics"
    "map (Some \<circ> due_batch self d1 now) ics = map (Some \<circ> due_batch self d now) ics"
    "map (?row d1) ics = map (?row d) ics"
    using frame by (auto simp: due_batch_def split_beta)
  have msgs: "map (mark_claims (map (due_batch self d now) ics)) (messages d1)
      = map (mark_claims (map (due_batch self d now) (ic # ics))) (messages d)"
    unfolding d1 ic using mark_claims_step [OF Cons.prems(1) _ other refl] by simp
  have "map_each (claim_consumer self now) ics d1 = Inr (map (Some \<circ> due_batch self d1 now) ics,
      d1\<lparr>batches := batches d1 @ map (?row d1) ics,
        messages := map (mark_claims (map (due_batch self d1 now) ics)) (messages d1)\<rparr>)"
  proof (rule Cons.IH [OF inv1 ok1])
    fix i' c' assume ic': "(i', c') \<in> set ics"
    have "i' \<noteq> i" using Cons.prems(4) imageI [OF ic', of fst] by auto
    then show "c' \<in> set (consumers d1) \<and> c_active c' \<and> has_queue (c_queue c') d1
        \<and> i' \<notin> b_id ` set (batches d1) \<and> due_messages d1 (c_queue c') now (c_max_batch_size c') \<noteq> []"
      using Cons.prems(3) [of i' c'] ic' frame [OF ic']
      by (simp add: has_queue_def batch_of_claim_def d1)
  qed (use Cons.prems(4,5) in simp_all)
  then have "map_each (claim_consumer self now) ics d1 = Inr (map (Some \<circ> due_batch self d now) ics,
      d\<lparr>batches := batches d @ map (?row d) (ic # ics),
        messages := map (mark_claims (map (due_batch self d now) (ic # ics))) (messages d)\<rparr>)"
    unfolding batch msgs by (simp add: d1)
  with step show ?case by (simp add: andthen_def ret_def)
qed

section \<open>Eligibility\<close>

lemma eligible_due:
  assumes "eligible_consumer d now c" "consumer_checks c"
  shows "due_messages d (c_queue c) now (c_max_batch_size c) \<noteq> []"
proof -
  let ?due = "filter (\<lambda>m. m_queue m = c_queue c \<and> deliverable d now m) (messages d)"
  have "?due \<noteq> []"
  proof
    assume "?due = []"
    then have "due_messages d (c_queue c) now 1 = []" by (simp add: due_messages_def order_limit_def)
    with assms \<open>?due = []\<close> show False by (auto simp: eligible_consumer_def consumer_checks_def)
  qed
  then have "0 < length (due_messages d (c_queue c) now (c_max_batch_size c))"
    using assms(2) by (simp add: due_messages_def consumer_checks_def)
  then show ?thesis by auto
qed

definition selected_consumers :: "db \<Rightarrow> int \<Rightarrow> nat \<Rightarrow> nat option \<Rightarrow> consumer_row list" where
  "selected_consumers d now n after =
     order_limit (\<lambda>c. (if (case after of None \<Rightarrow> True | Some a \<Rightarrow> c_queue c > a) then 0 else 1 :: nat,
       c_queue c, c_id c)) n (filter (eligible_consumer d now) (consumers d))"

definition in_flight_batches :: "db \<Rightarrow> nat \<Rightarrow> nat" where
  "in_flight_batches d q = length (filter (\<lambda>b. b_queue b = q) (batches d))"

definition expected_claims ::
  "nat \<Rightarrow> (nat \<Rightarrow> nat) \<Rightarrow> int \<Rightarrow> nat \<Rightarrow> nat option \<Rightarrow> db \<Rightarrow> claimed_batch list" where
  "expected_claims self gen now n after d =
    (let cs = selected_consumers d now n after
     in map (due_batch self d now) (zip (map gen [0..<length cs]) cs))"

lemma claim_run:
  assumes inv: "queue_inv d" and ok: "consumers_ok d" and n: "n \<noteq> 0"
    and gen: "inj gen" "range gen \<inter> b_id ` set (batches d) = {}"
    and ics_def: "ics = zip (map gen [0..<length (selected_consumers d now n after)])
      (selected_consumers d now n after)"
  shows "claim_queue_batches self gen now n after d = Inr (expected_claims self gen now n after d,
    d\<lparr>batches := batches d @ map (\<lambda>(i, c). batch_of_claim i c now
          (due_messages d (c_queue c) now (c_max_batch_size c))) ics,
      messages := map (mark_claims (expected_claims self gen now n after d)) (messages d)\<rparr>)"
proof -
  let ?cs = "selected_consumers d now n after"
  have cs: "c \<in> set (consumers d) \<and> eligible_consumer d now c" if "c \<in> set ?cs" for c
  proof -
    have "set ?cs \<subseteq> set (filter (eligible_consumer d now) (consumers d))"
      unfolding selected_consumers_def by (rule set_order_limit_subset)
    with that show ?thesis by auto
  qed
  have dq: "distinct (map c_queue ?cs)"
    unfolding selected_consumers_def
    by (intro distinct_order_limit) (use ok in \<open>simp add: consumers_ok_def distinct_map_filter\<close>)
  have run: "map_each (claim_consumer self now) ics d = Inr (map (Some \<circ> due_batch self d now) ics,
      d\<lparr>batches := batches d @ map (\<lambda>(i, c). batch_of_claim i c now
            (due_messages d (c_queue c) now (c_max_batch_size c))) ics,
        messages := map (mark_claims (map (due_batch self d now) ics)) (messages d)\<rparr>)"
  proof (rule claim_consumers_ok [OF inv ok])
    fix i c assume ic: "(i, c) \<in> set ics"
    then have c: "c \<in> set ?cs" and i: "i \<in> range gen"
      unfolding ics_def by (blast dest: set_zip_rightD, fastforce dest: set_zip_leftD)
    moreover have "consumer_checks c"
      using cs [OF c] ok by (auto simp: consumers_ok_def list_all_iff)
    ultimately show "c \<in> set (consumers d) \<and> c_active c \<and> has_queue (c_queue c) d
        \<and> i \<notin> b_id ` set (batches d) \<and> due_messages d (c_queue c) now (c_max_batch_size c) \<noteq> []"
      using cs [OF c] eligible_due [of d now c] gen(2) by (auto simp: eligible_consumer_def)
  next
    show "distinct (map fst ics)"
      using gen(1) by (simp add: ics_def distinct_map inj_on_subset [OF gen(1)])
    show "distinct (map (c_queue \<circ> snd) ics)"
      using dq by (simp add: ics_def flip: map_map)
  qed
  have "List.map_filter (\<lambda>b. b) (map (Some \<circ> f) xs) = map f xs" for f :: "nat \<times> consumer_row \<Rightarrow> claimed_batch" and xs
    by (induction xs) (simp_all add: List.map_filter_simps)
  then show ?thesis
    using run n
    by (simp add: claim_queue_batches_def eligible_consumers_tx_def andthen_def require_def ret_def
        reading_def expected_claims_def selected_consumers_def [symmetric] ics_def [symmetric] Let_def)
qed

lemma claimed_in_flight:
  assumes ok: "consumers_ok d" and c: "c \<in> set (consumers d)" and len: "length gs = length (selected_consumers d now n after)"
  shows "length (filter (\<lambda>b. b_queue b = c_queue c) (map (\<lambda>(i, c). batch_of_claim i c now
      (due_messages d (c_queue c) now (c_max_batch_size c))) (zip gs (selected_consumers d now n after))))
    \<le> (if in_flight_batches d (c_queue c) < c_max_concurrency c then 1 else 0)"
proof -
  let ?cs = "selected_consumers d now n after"
  have count: "length (filter (\<lambda>b. b_queue b = q) (map (\<lambda>(i, c). batch_of_claim i c now (f c)) (zip gs cs)))
      = length (filter (\<lambda>c. c_queue c = q) cs)" if "length gs = length cs" for q f and gs :: "nat list" and cs
    using that by (induction gs cs rule: list_induct2) (simp_all add: batch_of_claim_def)
  have sel: "set ?cs \<subseteq> set (filter (eligible_consumer d now) (consumers d))"
    unfolding selected_consumers_def by (rule set_order_limit_subset)
  have dq: "distinct (map c_queue ?cs)"
    unfolding selected_consumers_def
    by (intro distinct_order_limit) (use ok in \<open>simp add: consumers_ok_def distinct_map_filter\<close>)
  have same: "x = c" if "x \<in> set ?cs" "c_queue x = c_queue c" for x
    using that sel c ok by (auto simp: consumers_ok_def distinct_map inj_on_def)
  have "length (filter (\<lambda>x. c_queue x = c_queue c) xs) \<le> 1" if "distinct (map c_queue xs)" for xs
    using that by (induction xs) (auto simp: filter_empty_conv image_iff)
  from this [OF dq] have "length (filter (\<lambda>x. c_queue x = c_queue c) ?cs) \<le> 1" .
  moreover have "filter (\<lambda>x. c_queue x = c_queue c) ?cs = []" if "\<not> in_flight_batches d (c_queue c) < c_max_concurrency c"
    using same sel that by (fastforce simp: filter_empty_conv eligible_consumer_def in_flight_batches_def)
  ultimately show ?thesis using count [OF len] by auto
qed

lemma distinct_batch_ids:
  assumes inv: "queue_inv d" and "distinct (map c_queue cs)" "length gs = length cs"
  shows "distinct (concat (map batch_ids (map (due_batch self d now) (zip gs cs))))"
proof -
  have "concat (map batch_ids (map (due_batch self d now) (zip gs cs)))
      = concat (map (\<lambda>c. map m_id (due_messages d (c_queue c) now (c_max_batch_size c))) cs)"
    using assms(3) by (induction gs cs rule: list_induct2) simp_all
  moreover have "distinct (concat (map (\<lambda>c. map m_id (due_messages d (c_queue c) now (c_max_batch_size c))) cs))"
    using assms(2)
  proof (induction cs)
    case (Cons c cs)
    have "m_id m \<noteq> m_id x" if "m \<in> set (due_messages d (c_queue c) now (c_max_batch_size c))"
      "c' \<in> set cs" "x \<in> set (due_messages d (c_queue c') now (c_max_batch_size c'))" for m x c'
      using due_messages_in [OF that(1)] due_messages_in [OF that(3)] that(2) Cons.prems
        message_id_inj [OF inv] by (metis distinct.simps(2) image_eqI list.set_map list.simps(9))
    with Cons due_messages_id [OF inv] show ?case by fastforce
  qed simp
  ultimately show ?thesis by simp
qed

text \<open>
  C1. Claiming always succeeds on a consistent store, and returns one batch per
  selected consumer, in cursor order: exactly the first messages of its queue, in
  delivery order, that are due, unexpired and not waiting for a dead-letter queue,
  at least one and at most the consumer's batch size. Exactly the messages handed out
  become claimed, each by its own batch; no message is in two batches; every other
  message is untouched; and no queue has more batches in flight than its consumer's
  concurrency allows.
\<close>

theorem claim_batches_exact:
  assumes "queue_inv d" "consumers_ok d" "n \<noteq> 0"
    and "inj gen" "range gen \<inter> b_id ` set (batches d) = {}"
  shows "\<exists>bs d'. transaction (claim_queue_batches self gen now n after) d = (Inr bs, d')
    \<and> bs = expected_claims self gen now n after d \<and> length bs \<le> n
    \<and> messages d' = map (mark_claims bs) (messages d)
    \<and> distinct (concat (map batch_ids bs))
    \<and> (\<forall>b \<in> set bs. cb_messages b \<noteq> [])
    \<and> (\<forall>c \<in> set (consumers d). in_flight_batches d (c_queue c) \<le> c_max_concurrency c
          \<longrightarrow> in_flight_batches d' (c_queue c) \<le> c_max_concurrency c)
    \<and> queue_inv d'"
proof -
  let ?cs = "selected_consumers d now n after"
  let ?gs = "map gen [0..<length ?cs]"
  let ?bs = "expected_claims self gen now n after d"
  note run = claim_run [OF assms refl, of self now after]
  let ?d' = "d\<lparr>batches := batches d @ map (\<lambda>(i, c). batch_of_claim i c now
          (due_messages d (c_queue c) now (c_max_batch_size c))) (zip ?gs ?cs),
      messages := map (mark_claims ?bs) (messages d)\<rparr>"
  have cs: "set ?cs \<subseteq> set (filter (eligible_consumer d now) (consumers d))"
    unfolding selected_consumers_def by (rule set_order_limit_subset)
  have dq: "distinct (map c_queue ?cs)"
    unfolding selected_consumers_def
    by (intro distinct_order_limit) (use assms(2) in \<open>simp add: consumers_ok_def distinct_map_filter\<close>)
  show ?thesis
  proof (intro exI conjI)
    show "transaction (claim_queue_batches self gen now n after) d = (Inr ?bs, ?d')"
      using run by (simp add: transaction_def)
    show "?bs = expected_claims self gen now n after d" ..
    show "length ?bs \<le> n" by (simp add: expected_claims_def Let_def selected_consumers_def)
    show "messages ?d' = map (mark_claims ?bs) (messages d)" by simp
    show "distinct (concat (map batch_ids ?bs))"
      unfolding expected_claims_def Let_def by (rule distinct_batch_ids [OF assms(1) dq]) simp
    show "\<forall>b \<in> set ?bs. cb_messages b \<noteq> []"
      unfolding expected_claims_def Let_def
      using cs assms(2) eligible_due
      by (fastforce simp: due_batch_def claimed_batch_of_def consumers_ok_def list_all_iff dest: set_zip_rightD)
    show "\<forall>c \<in> set (consumers d). in_flight_batches d (c_queue c) \<le> c_max_concurrency c
        \<longrightarrow> in_flight_batches ?d' (c_queue c) \<le> c_max_concurrency c"
      using claimed_in_flight [OF assms(2), of _ ?gs now n after]
      by (fastforce simp: in_flight_batches_def split: if_splits)
    show "queue_inv ?d'" by (rule keepsD [OF keeps_claim assms(1) run])
  qed
qed

definition claim_consumer_row :: consumer_row where
  "claim_consumer_row = \<lparr>c_id = 3, c_queue = 7, c_generation = 1, c_version = 20, c_worker = 30,
     c_execution = 1, c_entrypoint = None, c_active = True, c_max_batch_size = 10,
     c_max_batch_timeout_ms = 5000, c_max_retries = 3, c_retry_delay_seconds = 0,
     c_max_concurrency = 1, c_dlq = None\<rparr>"

definition claimable_message :: "nat \<Rightarrow> int \<Rightarrow> message_row" where
  "claimable_message i available = \<lparr>m_seq = i, m_id = 50 + i, m_queue = 7, m_generation = 1,
     m_enqueued = 0, m_available = available, m_expires = 90000, m_type = Bytes, m_body = [1, 2],
     m_bytes = 2, m_attempts = 0, m_claim = None\<rparr>"

definition claimable_db :: db where
  "claimable_db = sample_db\<lparr>queues := [sample_queue\<lparr>q_count := 3, q_bytes := 6\<rparr>],
     messages := [claimable_message 1 20000, claimable_message 2 10000, claimable_message 3 80000],
     next_seq := 4, consumers := [claim_consumer_row]\<rparr>"

lemma claimable_inv: "queue_inv claimable_db" "consumers_ok claimable_db"
  by (simp_all add: claimable_db_def sample_db_def empty_db_def sample_queue_def claimable_message_def
      queue_inv_def keys_ok_def rows_ok_def counters_ok_def claims_ok_def claim_ok_def has_queue_def
      message_checks_def consumers_ok_def claim_consumer_row_def consumer_checks_def i64_max_def
      map_message_def u16_max_def)

lemmas claimable_eval =
  expected_claims_def selected_consumers_def order_limit_def eligible_consumer_def deliverable_def
  due_messages_def is_pending_def has_queue_def claimable_db_def claim_consumer_row_def
  claimable_message_def sample_db_def sample_queue_def empty_db_def

lemma claimable_claims:
  "map batch_ids (expected_claims 1 (\<lambda>i. 100 + i) 70000 5 None claimable_db) = [[52, 51]]"
  by (simp add: claimable_eval Let_def)

theorem claim_batches_exact_witness:
  "\<exists>bs d'. transaction (claim_queue_batches 1 (\<lambda>i. 100 + i) 70000 5 None) claimable_db = (Inr bs, d')
     \<and> map batch_ids bs = [[52, 51]] \<and> in_flight_batches d' 7 \<le> 1"
proof -
  have fresh: "inj (\<lambda>i. 100 + i :: nat)" "range (\<lambda>i. 100 + i :: nat) \<inter> b_id ` set (batches claimable_db) = {}"
    by (simp_all add: claimable_db_def sample_db_def empty_db_def)
  have c: "claim_consumer_row \<in> set (consumers claimable_db)"
    "in_flight_batches claimable_db 7 \<le> 1" "c_queue claim_consumer_row = 7" "c_max_concurrency claim_consumer_row = 1"
    by (simp_all add: claimable_db_def sample_db_def empty_db_def in_flight_batches_def claim_consumer_row_def)
  obtain bs d' where run: "transaction (claim_queue_batches 1 (\<lambda>i. 100 + i) 70000 5 None) claimable_db = (Inr bs, d')"
    "bs = expected_claims 1 (\<lambda>i. 100 + i) 70000 5 None claimable_db"
    "\<forall>c \<in> set (consumers claimable_db). in_flight_batches claimable_db (c_queue c) \<le> c_max_concurrency c
       \<longrightarrow> in_flight_batches d' (c_queue c) \<le> c_max_concurrency c"
    using claim_batches_exact [OF claimable_inv _ fresh, of 5 1 70000 None] by auto
  have "in_flight_batches d' 7 \<le> 1" using run(3) c by fastforce
  with run(1,2) claimable_claims show ?thesis by (intro exI [of _ bs] exI [of _ d']) simp
qed

end
