(* ===== verification/Queue_Completion.thy ===== *)
theory Queue_Completion
  imports Queue_Claim
begin

text \<open>
  What \<open>complete_queue_batch\<close> and \<open>forward_queue_dlq_pending\<close> promise about the
  messages they handle: a message leaves the store only when it was acknowledged, has
  expired, or has used up its retries without a dead-letter queue; otherwise it is
  still stored, with its identity and body, ready for delivery. All other messages are
  untouched.
\<close>

section \<open>Replacing one message\<close>

definition same_content :: "message_row \<Rightarrow> message_row \<Rightarrow> bool" where
  "same_content m y \<longleftrightarrow> m_id y = m_id m \<and> m_type y = m_type m \<and> m_body y = m_body m"

definition replaced :: "message_row \<Rightarrow> bool \<Rightarrow> db \<Rightarrow> db \<Rightarrow> bool" where
  "replaced m gone d d' \<longleftrightarrow> batches d' = batches d
     \<and> length (messages d') + (if gone then 1 else 0) = length (messages d)
     \<and> (\<forall>y \<in> set (messages d). y \<noteq> m \<longrightarrow> y \<in> set (messages d'))
     \<and> (\<forall>y \<in> set (messages d'). (y \<in> set (messages d) \<and> y \<noteq> m)
          \<or> (\<not> gone \<and> same_content m y \<and> m_claim y = None))
     \<and> (\<not> gone \<longrightarrow> (\<exists>y \<in> set (messages d'). same_content m y \<and> m_claim y = None))"

lemma filter_one_not:
  "queue_inv d \<Longrightarrow> m \<in> set (messages d) \<Longrightarrow> p m \<Longrightarrow>
   filter (\<lambda>x. \<not> (m_seq x = m_seq m \<and> p x)) (messages d) = filter (\<lambda>x. x \<noteq> m) (messages d)"
  by (rule filter_cong [OF refl]) (auto dest: message_seq_inj)

lemma length_filter_one: "distinct xs \<Longrightarrow> m \<in> set xs \<Longrightarrow> Suc (length (filter (\<lambda>x. x \<noteq> m) xs)) = length xs"
proof (induction xs)
  case (Cons a xs)
  have "filter (\<lambda>x. x \<noteq> m) xs = xs" if "m \<notin> set xs" using that by (auto simp: filter_id_conv)
  with Cons show ?case by (cases "a = m") auto
qed simp

lemma distinct_messages: "queue_inv d \<Longrightarrow> distinct (messages d)"
  by (simp add: queue_inv_def keys_ok_def distinct_map)

lemma delete_one_message:
  assumes "queue_inv d" "m \<in> set (messages d)" "p m"
    and del: "delete_messages (\<lambda>x. m_seq x = m_seq m \<and> p x) d = Inr (k, d')"
  shows "messages d' = filter (\<lambda>x. x \<noteq> m) (messages d)" "batches d' = batches d"
    "Suc (length (messages d')) = length (messages d)" "pendings d' = pendings d"
    "\<And>q. has_queue q d' = has_queue q d"
  using delete_messages_Inr(1) [OF del] filter_one_not [of d m p, OF assms(1-3)] distinct_messages [OF assms(1)]
    length_filter_one [of "messages d" m] assms(2)
  by (auto simp: has_queue_def list_ex_iff simp del: de_Morgan_conj)

lemma replaced_delete:
  assumes "queue_inv d" "m \<in> set (messages d)" "p m"
    and "delete_messages (\<lambda>x. m_seq x = m_seq m \<and> p x) d = Inr (k, d')"
  shows "replaced m True d d'"
  using delete_one_message [of d m p, OF assms] by (auto simp: replaced_def)

lemma replaced_delete_insert:
  assumes "queue_inv d" "m \<in> set (messages d)" "p m"
    and "delete_messages (\<lambda>x. m_seq x = m_seq m \<and> p x) d = Inr (k, d1)"
    and "insert_message (dlq_row m target now expires) d1 = Inr (u, d')"
  shows "replaced m False d d'"
  using delete_one_message [of d m p, OF assms(1-4)] insert_message_Inr(1) [OF assms(5)]
  by (auto simp: replaced_def same_content_def dlq_row_def)

lemma replaced_update:
  assumes inv: "queue_inv d" and m: "m \<in> set (messages d)" "p m"
    and upd: "update_messages (\<lambda>x. m_seq x = m_seq m \<and> p x) f d = Inr (k, d')"
    and f: "m_claim (f m) = None"
  shows "replaced m False d d'"
proof -
  note ok = update_messages_Inr [OF upd]
  have "(if m_seq y = m_seq m \<and> p y then f y else y) = (if y = m then f m else y)"
    if "y \<in> set (messages d)" for y
    using message_seq_inj [OF inv that m(1)] m(2) by auto
  then have msgs: "messages d' = map (\<lambda>y. if y = m then f m else y) (messages d)"
    "batches d' = batches d"
    by (simp_all add: ok(1))
  have "same_content m (f m)"
    using ok(3) [OF m(1)] m(2) by (auto simp: immutable_guard_def same_content_def)
  then show ?thesis
    using m f by (auto simp: replaced_def msgs)
qed

section \<open>One completed message\<close>

text \<open>The decision removes the message for good.\<close>

definition removed :: "claimed_batch \<Rightarrow> completion_decision list \<Rightarrow> int \<Rightarrow> message_row \<Rightarrow> bool" where
  "removed b ds now m \<longleftrightarrow>
    (case map_of (map (\<lambda>x. (cd_message x, cd_action x)) ds) (m_id m) of
       None \<Rightarrow> False
     | Some Ack \<Rightarrow> True
     | Some (Retry delay) \<Rightarrow> now \<ge> m_expires m
         \<or> (saturating_add_u16 (m_attempts m) 1 > cb_max_retries b \<and> cb_dlq b = None))"

definition leaves :: "disposition \<Rightarrow> bool" where
  "leaves x \<longleftrightarrow> x = Acknowledged \<or> x = Discarded"

lemma delete_claimed_effect:
  assumes "queue_inv d" "m \<in> set (messages d)" "m_claim m = Some (batch_claim b)"
    and "delete_claimed_message_tx m b d = Inr (u, d')"
  shows "replaced m True d d'"
proof -
  obtain k where "delete_messages (\<lambda>x. m_seq x = m_seq m \<and> m_claim x = Some (batch_claim b)) d = Inr (k, d')"
    using assms(4) by (auto simp: delete_claimed_message_tx_def tx_simps)
  with assms(1-3) show ?thesis by (rule replaced_delete)
qed

lemma retry_effect:
  assumes "queue_inv d" "m \<in> set (messages d)" "m_claim m = Some (batch_claim b)"
    and "retry_message_tx m b n now delay d = Inr (u, d')"
  shows "replaced m False d d'"
proof -
  obtain k available where
    "update_messages (\<lambda>x. m_seq x = m_seq m \<and> m_claim x = Some (batch_claim b))
       (\<lambda>x. x\<lparr>m_claim := None, m_attempts := n, m_available := available\<rparr>) d = Inr (k, d')"
    using assms(4) by (auto simp: retry_message_tx_def tx_simps)
  with assms(1-3) show ?thesis by (rule replaced_update) simp
qed

lemma insert_dlq_run:
  assumes "insert_dlq_message_tx m target now d = Inr (u, d')"
  obtains expires v where "insert_message (dlq_row m target now expires) d = Inr (v, d')"
  using assms by (auto simp: insert_dlq_message_tx_def tx_simps split: option.splits)

lemma dlq_accepts_run: "dlq_accepts_tx target n d = Inr (a, d') \<Longrightarrow> d' = d"
  by (auto simp: dlq_accepts_tx_def tx_simps split: option.splits)

lemma move_effect:
  assumes "queue_inv d" "m \<in> set (messages d)" "m_claim m = Some (batch_claim b)"
    and run: "move_to_dlq_tx m b target now d = Inr (a, d')"
  shows "if a then replaced m False d d' else d' = d"
proof (cases a)
  case True
  with run obtain d1 u v where "delete_claimed_message_tx m b d = Inr (u, d1)"
    "insert_dlq_message_tx m target now d1 = Inr (v, d')"
    by (auto simp: move_to_dlq_tx_def tx_simps dest!: dlq_accepts_run split: if_splits)
  then obtain k expires w where
    "delete_messages (\<lambda>x. m_seq x = m_seq m \<and> m_claim x = Some (batch_claim b)) d = Inr (k, d1)"
    "insert_message (dlq_row m target now expires) d1 = Inr (w, d')"
    by (auto simp: delete_claimed_message_tx_def tx_simps elim!: insert_dlq_run)
  with True replaced_delete_insert [OF assms(1,2), of "\<lambda>x. m_claim x = Some (batch_claim b)"] assms(3)
  show ?thesis by simp
next
  case False
  with run show ?thesis
    by (auto simp: move_to_dlq_tx_def tx_simps dest!: dlq_accepts_run split: if_splits)
qed

lemma replaced_pendings:
  "replaced m g d d' \<Longrightarrow> messages d'' = messages d' \<Longrightarrow> batches d'' = batches d' \<Longrightarrow> replaced m g d d''"
  by (simp add: replaced_def)

lemma terminal_effect:
  assumes "queue_inv d" "m \<in> set (messages d)" "m_claim m = Some (batch_claim b)"
    and run: "terminal_message b now n m d = Inr (x, d')"
  shows "replaced m (leaves x) d d'" "leaves x \<longleftrightarrow> cb_dlq b = None"
proof -
  note here = assms(1-3)
  have "replaced m (leaves x) d d' \<and> (leaves x \<longleftrightarrow> cb_dlq b = None)"
  proof (cases "cb_dlq b")
    case None
    with run delete_claimed_effect [OF here] show ?thesis
      by (auto simp: terminal_message_def tx_simps leaves_def)
  next
    case (Some target)
    then obtain a d1 where mv: "move_to_dlq_tx m b target now d = Inr (a, d1)"
      using run by (auto simp: terminal_message_def tx_simps)
    show ?thesis
    proof (cases a)
      case True
      with Some run mv move_effect [OF here mv] show ?thesis
        by (auto simp: terminal_message_def tx_simps leaves_def)
    next
      case False
      with move_effect [OF here mv] have "d1 = d" by simp
      with False Some run mv obtain u d2 p v where r: "retry_message_tx m b n now 0 d = Inr (u, d2)"
        and "insert_pending p d2 = Inr (v, d')" "x = DlqPending"
        by (auto simp: terminal_message_def tx_simps)
      moreover from this have "messages d' = messages d2" "batches d' = batches d2"
        by (auto simp: insert_pending_def split: if_splits)
      ultimately show ?thesis
        using replaced_pendings [OF retry_effect [OF here r]] Some by (simp add: leaves_def)
    qed
  qed
  then show "replaced m (leaves x) d d'" "leaves x \<longleftrightarrow> cb_dlq b = None" by blast+
qed

lemma complete_message_effect:
  assumes "queue_inv d" "m \<in> set (messages d)" "m_claim m = Some (batch_claim b)"
    and run: "complete_message b ds now m d = Inr (x, d')"
  shows "replaced m (removed b ds now m) d d'" "leaves x \<longleftrightarrow> removed b ds now m"
proof -
  note effects = delete_claimed_effect [OF assms(1-3)] retry_effect [OF assms(1-3)] terminal_effect [OF assms(1-3)]
  have "replaced m (removed b ds now m) d d' \<and> (leaves x \<longleftrightarrow> removed b ds now m)"
    using run effects
    by (auto simp: complete_message_def removed_def leaves_def tx_simps Let_def
        split: option.splits completion_action.splits if_splits)
  then show "replaced m (removed b ds now m) d d'" "leaves x \<longleftrightarrow> removed b ds now m" by blast+
qed

section \<open>A whole batch\<close>

definition stored :: "message_row \<Rightarrow> db \<Rightarrow> bool" where
  "stored m d \<longleftrightarrow> (\<exists>y \<in> set (messages d). same_content m y \<and> m_claim y = None)"

text \<open>The effect of settling the messages \<open>ms\<close>, those satisfying \<open>gone\<close> for good.\<close>

definition settled :: "(message_row \<Rightarrow> bool) \<Rightarrow> message_row list \<Rightarrow> db \<Rightarrow> db \<Rightarrow> bool" where
  "settled gone ms d d' \<longleftrightarrow> batches d' = batches d
     \<and> length (messages d') + length (filter gone ms) = length (messages d)
     \<and> (\<forall>y \<in> set (messages d). y \<notin> set ms \<longrightarrow> y \<in> set (messages d'))
     \<and> (\<forall>y \<in> set (messages d'). (y \<in> set (messages d) \<and> y \<notin> set ms)
          \<or> (\<exists>m \<in> set ms. \<not> gone m \<and> same_content m y \<and> m_claim y = None))
     \<and> (\<forall>m \<in> set ms. \<not> gone m \<longrightarrow> stored m d')"

lemma replacedD:
  assumes "replaced m gone d d'"
  shows "batches d' = batches d"
    "length (messages d') + (if gone then 1 else 0) = length (messages d)"
    "y \<in> set (messages d) \<Longrightarrow> y \<noteq> m \<Longrightarrow> y \<in> set (messages d')"
    "y \<in> set (messages d') \<Longrightarrow>
       (y \<in> set (messages d) \<and> y \<noteq> m) \<or> (\<not> gone \<and> same_content m y \<and> m_claim y = None)"
    "\<not> gone \<Longrightarrow> stored m d'"
  using assms unfolding replaced_def stored_def by blast+

lemma settledD:
  assumes "settled gone ms d d'"
  shows "batches d' = batches d"
    "length (messages d') + length (filter gone ms) = length (messages d)"
    "y \<in> set (messages d) \<Longrightarrow> y \<notin> set ms \<Longrightarrow> y \<in> set (messages d')"
    "y \<in> set (messages d') \<Longrightarrow> (y \<in> set (messages d) \<and> y \<notin> set ms)
       \<or> (\<exists>m \<in> set ms. \<not> gone m \<and> same_content m y \<and> m_claim y = None)"
    "m \<in> set ms \<Longrightarrow> \<not> gone m \<Longrightarrow> stored m d'"
  using assms unfolding settled_def by blast+

lemma settled_step:
  assumes r: "replaced m (gone m) d d1" and t: "settled gone ms d1 d'"
    and claimed: "\<And>x. x \<in> set ms \<Longrightarrow> m_claim x \<noteq> None"
  shows "settled gone (m # ms) d d'"
  unfolding settled_def
proof (intro conjI ballI impI)
  show "batches d' = batches d" using replacedD(1) [OF r] settledD(1) [OF t] by simp
  show "length (messages d') + length (filter gone (m # ms)) = length (messages d)"
    using replacedD(2) [OF r] settledD(2) [OF t] by (simp split: if_splits)
  show "y \<in> set (messages d')" if "y \<in> set (messages d)" "y \<notin> set (m # ms)" for y
    using settledD(3) [OF t] replacedD(3) [OF r] that by simp
  show "(y \<in> set (messages d) \<and> y \<notin> set (m # ms))
      \<or> (\<exists>x \<in> set (m # ms). \<not> gone x \<and> same_content x y \<and> m_claim y = None)" if "y \<in> set (messages d')" for y
    using settledD(4) [OF t that] replacedD(4) [OF r, of y] by auto
  show "stored x d'" if "x \<in> set (m # ms)" "\<not> gone x" for x
  proof (cases "x \<in> set ms")
    case False
    with that obtain y where y: "y \<in> set (messages d1)" "same_content x y" "m_claim y = None"
      using replacedD(5) [OF r] by (auto simp: stored_def)
    with claimed have "y \<in> set (messages d')" using settledD(3) [OF t] by blast
    with y show ?thesis by (auto simp: stored_def)
  qed (use settledD(5) [OF t] that in simp)
qed

lemma complete_messages_effect:
  assumes "queue_inv d" "distinct ms" "map_each (complete_message b ds now) ms d = Inr (xs, d')"
    and "\<And>m. m \<in> set ms \<Longrightarrow> m \<in> set (messages d) \<and> m_claim m = Some (batch_claim b)"
  shows "settled (removed b ds now) ms d d'" "map leaves xs = map (removed b ds now) ms"
proof -
  have "settled (removed b ds now) ms d d' \<and> map leaves xs = map (removed b ds now) ms"
    using assms
  proof (induction ms arbitrary: d xs)
    case Nil
    then show ?case by (auto simp: tx_simps settled_def)
  next
    case (Cons m ms)
    obtain x ys d1 where step: "complete_message b ds now m d = Inr (x, d1)"
      and rest: "map_each (complete_message b ds now) ms d1 = Inr (ys, d')" and xs: "xs = x # ys"
      using Cons.prems(3) by (auto simp: tx_simps)
    have m: "m \<in> set (messages d)" "m_claim m = Some (batch_claim b)" using Cons.prems(4) by auto
    note eff = complete_message_effect [OF Cons.prems(1) m step]
    have inv1: "queue_inv d1" by (rule keepsD [OF keeps_complete_message Cons.prems(1) step])
    have "x \<in> set (messages d1) \<and> m_claim x = Some (batch_claim b)" if "x \<in> set ms" for x
      using replacedD(3) [OF eff(1), of x] Cons.prems(2) Cons.prems(4) [of x] that by auto
    then have "settled (removed b ds now) ms d1 d' \<and> map leaves ys = map (removed b ds now) ms"
      using Cons.IH [OF inv1 _ rest] Cons.prems(2) by simp
    moreover from this have "settled (removed b ds now) (m # ms) d d'"
      using settled_step [where gone = "removed b ds now", OF eff(1)] Cons.prems(4) by simp
    ultimately show ?case using eff(2) by (simp add: xs)
  qed
  then show "settled (removed b ds now) ms d d'" "map leaves xs = map (removed b ds now) ms" by blast+
qed

definition batch_rows :: "claimed_batch \<Rightarrow> db \<Rightarrow> message_row list" where
  "batch_rows b d = sort_key m_seq (filter (\<lambda>m. m_claim m = Some (batch_claim b)) (messages d))"

lemma batch_rows_set [simp]:
  "set (batch_rows b d) = {m \<in> set (messages d). m_claim m = Some (batch_claim b)}"
  by (auto simp: batch_rows_def)

lemma complete_run:
  assumes run: "complete_queue_batch b ds now d = Inr (s, d')" and fresh: "\<not> stale s"
  obtains xs d1 where "map_each (complete_message b ds now) (batch_rows b d) d = Inr (xs, d1)"
    "length (batch_rows b d) = length ds" "s = summary_of xs"
    "messages d' = messages d1"
  using run fresh
  by (auto simp: complete_queue_batch_def claimed_messages_tx_def tx_simps batch_rows_def
      stale_summary_def delete_batches_def split: if_splits)

lemma count_disposition_sum:
  "count_disposition Acknowledged xs + count_disposition Retried xs + count_disposition DeadLettered xs
     + count_disposition DlqPending xs + count_disposition Discarded xs = length xs"
proof (induction xs)
  case (Cons x xs)
  then show ?case by (cases x) (simp_all add: count_disposition_def)
qed (simp add: count_disposition_def)

lemma count_leaves:
  "count_disposition Acknowledged xs + count_disposition Discarded xs = length (filter leaves xs)"
proof (induction xs)
  case (Cons x xs)
  then show ?case by (cases x) (simp_all add: count_disposition_def leaves_def)
qed (simp add: count_disposition_def)

lemma length_map_each: "map_each f xs d = Inr (ys, d') \<Longrightarrow> length ys = length xs"
  by (induction xs arbitrary: d ys) (auto simp: tx_simps)

lemma length_filter_map_eq: "map p xs = map q ys \<Longrightarrow> length (filter p xs) = length (filter q ys)"
proof (induction xs arbitrary: ys)
  case (Cons x xs)
  then show ?case by (cases ys) auto
qed simp

text \<open>
  C2. Completing a batch settles every message of it exactly as decided: it leaves the
  store precisely when it was acknowledged, has expired, or was to be retried with no
  attempts left and no dead-letter queue; otherwise a ready message with the same
  identity, content type and body is stored. Every other message is kept as it is,
  nothing remains claimed by the batch, the counters of the summary add up to the
  number of decisions, and they account for the change in the number of messages.
\<close>

theorem complete_batch_conserves:
  assumes inv: "queue_inv d" and run: "transaction (complete_queue_batch b ds now) d = (Inr s, d')"
    and fresh: "\<not> stale s"
  shows "(\<forall>m \<in> set (batch_rows b d). stored m d' \<longleftrightarrow> \<not> removed b ds now m)
    \<and> (\<forall>m \<in> set (messages d). m \<notin> set (batch_rows b d) \<longrightarrow> m \<in> set (messages d'))
    \<and> batch_rows b d' = []
    \<and> acknowledged s + retried s + dead_lettered s + dlq_pending s + discarded s = length ds
    \<and> length (messages d') + acknowledged s + discarded s = length (messages d)
    \<and> queue_inv d'"
proof -
  have tx: "complete_queue_batch b ds now d = Inr (s, d')"
    using run by (auto simp: transaction_def split: sum.splits prod.splits)
  obtain xs d1 where all: "map_each (complete_message b ds now) (batch_rows b d) d = Inr (xs, d1)"
    and len: "length (batch_rows b d) = length ds" and s: "s = summary_of xs"
    and msgs: "messages d' = messages d1"
    by (rule complete_run [OF tx fresh])
  have "distinct (batch_rows b d)" using distinct_messages [OF inv] by (simp add: batch_rows_def)
  from complete_messages_effect [OF inv this all]
  have eff: "settled (removed b ds now) (batch_rows b d) d d1"
    "map leaves xs = map (removed b ds now) (batch_rows b d)" by simp_all
  have gone: "\<not> stored m d'" if m: "m \<in> set (batch_rows b d)" "removed b ds now m" for m
  proof
    assume "stored m d'"
    then obtain y where y: "y \<in> set (messages d1)" "m_id y = m_id m"
      unfolding stored_def same_content_def msgs by blast
    have md: "m \<in> set (messages d)" using m(1) by simp
    show False
      using settledD(4) [OF eff(1) y(1)]
    proof (elim disjE conjE bexE)
      assume "y \<in> set (messages d)" "y \<notin> set (batch_rows b d)"
      with message_id_inj [OF inv _ md y(2)] m(1) show False by blast
    next
      fix x assume x: "x \<in> set (batch_rows b d)" "\<not> removed b ds now x" "same_content x y"
      then have "x \<in> set (messages d)" "m_id x = m_id m" using y(2) by (simp_all add: same_content_def)
      with message_id_inj [OF inv _ md] x(2) m(2) show False by blast
    qed
  qed
  have same: "stored m d' = stored m d1" for m by (simp add: stored_def msgs)
  show ?thesis
  proof (intro conjI ballI impI)
    show "stored m d' \<longleftrightarrow> \<not> removed b ds now m" if "m \<in> set (batch_rows b d)" for m
      using gone [OF that] settledD(5) [OF eff(1) that] same by blast
    show "m \<in> set (messages d')" if "m \<in> set (messages d)" "m \<notin> set (batch_rows b d)" for m
      using settledD(3) [OF eff(1) that] by (simp add: msgs)
    have "m_claim y \<noteq> Some (batch_claim b)" if "y \<in> set (messages d1)" for y
      using settledD(4) [OF eff(1) that] by auto
    then show "batch_rows b d' = []" by (simp add: batch_rows_def msgs filter_False)
    show "acknowledged s + retried s + dead_lettered s + dlq_pending s + discarded s = length ds"
      using count_disposition_sum [of xs] length_map_each [OF all] len by (simp add: s summary_of_def)
    show "length (messages d') + acknowledged s + discarded s = length (messages d)"
      using settledD(2) [OF eff(1)] count_leaves [of xs] length_filter_map_eq [OF eff(2)]
      by (simp add: msgs s summary_of_def)
    show "queue_inv d'" by (rule keepsD [OF keeps_complete inv tx])
  qed
qed

definition claimed_row :: "nat \<Rightarrow> nat \<Rightarrow> message_row" where
  "claimed_row i attempts = (claimable_message i 10000)\<lparr>m_attempts := attempts,
     m_claim := Some \<lparr>cl_batch = 100, cl_consumer = 3, cl_generation = 1\<rparr>\<rparr>"

definition claimed_db :: db where
  "claimed_db = claimable_db\<lparr>messages := [claimed_row 1 0, claimed_row 2 0, claimable_message 3 80000],
     batches := [\<lparr>b_id = 100, b_queue = 7, b_consumer = 3, b_generation = 1, b_version = 20,
       b_execution = 1, b_entrypoint = None, b_count = 2, b_created = 70000\<rparr>]\<rparr>"

definition sample_batch :: claimed_batch where
  "sample_batch = claimed_batch_of 1 100 claim_consumer_row [claimed_row 1 0, claimed_row 2 0]"

definition sample_decisions :: "completion_decision list" where
  "sample_decisions = [\<lparr>cd_message = 51, cd_action = Ack\<rparr>, \<lparr>cd_message = 52, cd_action = Retry 3\<rparr>]"

lemma claimed_inv: "queue_inv claimed_db"
  by (simp add: claimed_db_def claimable_db_def claimed_row_def sample_db_def empty_db_def sample_queue_def
      claimable_message_def queue_inv_def keys_ok_def rows_ok_def counters_ok_def claims_ok_def claim_ok_def
      has_queue_def message_checks_def claim_backed_def batch_backs_def is_pending_def)

lemmas completion_eval =
  complete_queue_batch_def claimed_messages_tx_def complete_message_def delete_claimed_message_tx_def
  retry_message_tx_def decisions_valid_def andthen_def reading_def lift_def stmt_def require_def ret_def
  throw_def delete_messages_def update_messages_def delete_batches_def delete_guard_def count_delete_def
  immutable_guard_def transition_guard_def message_checks_def claim_backed_def batch_backs_def
  claimed_db_def claimable_db_def claimed_row_def sample_db_def empty_db_def sample_queue_def
  claimable_message_def sample_batch_def sample_decisions_def claimed_batch_of_def claim_consumer_row_def
  batch_claim_def map_message_def u16_max_def as_i64_def i64_of_u64_def i64_max_def i64_min_def
  checked_add_i64_def in_i64_def saturating_add_u16_def summary_of_def count_disposition_def

lemma claimed_complete:
  "\<exists>s d'. transaction (complete_queue_batch sample_batch sample_decisions 75000) claimed_db = (Inr s, d')
     \<and> acknowledged s = 1 \<and> retried s = 1 \<and> \<not> stale s"
  by (simp add: transaction_def completion_eval Let_def)

theorem complete_batch_conserves_witness:
  "\<exists>s d'. transaction (complete_queue_batch sample_batch sample_decisions 75000) claimed_db = (Inr s, d')
     \<and> \<not> stale s \<and> length (messages d') = 2 \<and> stored (claimed_row 2 0) d'"
proof -
  obtain s d' where run: "transaction (complete_queue_batch sample_batch sample_decisions 75000) claimed_db = (Inr s, d')"
    and s: "acknowledged s = 1" "retried s = 1" "\<not> stale s"
    using claimed_complete by blast
  note conserved = complete_batch_conserves [OF claimed_inv run s(3)]
  have "length sample_decisions = 2" "length (messages claimed_db) = 3"
    by (simp_all add: sample_decisions_def claimed_db_def)
  with conserved s have len: "length (messages d') = 2" by linarith
  have "claimed_row 2 0 \<in> set (batch_rows sample_batch claimed_db)"
    by (simp add: claimed_db_def claimed_row_def sample_batch_def claimed_batch_of_def claim_consumer_row_def batch_claim_def)
  moreover have "\<not> removed sample_batch sample_decisions 75000 (claimed_row 2 0)"
    by (simp add: removed_def sample_decisions_def claimed_row_def claimable_message_def saturating_add_u16_def
        u16_max_def sample_batch_def claimed_batch_of_def claim_consumer_row_def)
  ultimately show ?thesis using conserved run s(3) len by blast
qed

text \<open>
  A completion that arrives after its batch lost the claim (the batch is gone or
  belongs to another generation) reports itself stale and changes nothing, whatever it
  decides.
\<close>

theorem complete_stale_noop:
  assumes "decisions_valid b ds = Inr ()"
    and "\<And>x. x \<in> set (batches d) \<Longrightarrow> b_id x = cb_id b \<Longrightarrow> b_consumer x = cb_consumer b
           \<Longrightarrow> b_generation x \<noteq> cb_generation b"
  shows "transaction (complete_queue_batch b ds now) d = (Inr stale_summary, d) \<and> stale stale_summary"
  using assms
  by (auto simp: transaction_def complete_queue_batch_def andthen_def reading_def lift_def ret_def
      stale_summary_def find_Some_iff split: option.splits dest!: nth_mem)

theorem complete_stale_noop_witness:
  "transaction (complete_queue_batch sample_batch sample_decisions 75000) (claimed_db\<lparr>batches := []\<rparr>)
     = (Inr stale_summary, claimed_db\<lparr>batches := []\<rparr>)"
  using complete_stale_noop [of sample_batch sample_decisions "claimed_db\<lparr>batches := []\<rparr>" 75000]
  by (simp add: decisions_valid_def sample_batch_def sample_decisions_def claimed_batch_of_def claimed_row_def
      claimable_message_def)

end
