(* ===== verification/Queue_Dlq.thy ===== *)
theory Queue_Dlq
  imports Queue_Completion
begin

text \<open>
  Forwarding terminal messages to their dead-letter queues
  (\<open>forward_queue_dlq_pending\<close>): a pass loses no unexpired message. The second part
  shows the one situation in which a pass cannot make progress.
\<close>

section \<open>One pending message\<close>

lemma move_ready_effect:
  assumes "queue_inv d" "m \<in> set (messages d)" "m_claim m = None"
    and run: "move_ready_to_dlq_tx m target now d = Inr (a, d')"
  shows "if a then replaced m False d d' \<and> pendings d' = pendings d else d' = d"
proof (cases a)
  case True
  with run obtain d1 k v where del: "delete_messages (\<lambda>x. m_seq x = m_seq m \<and> m_claim x = None) d = Inr (k, d1)"
    and "insert_dlq_message_tx m target now d1 = Inr (v, d')"
    by (auto simp: move_ready_to_dlq_tx_def tx_simps dest!: dlq_accepts_run split: if_splits)
  then obtain expires w where ins: "insert_message (dlq_row m target now expires) d1 = Inr (w, d')"
    by (auto elim!: insert_dlq_run)
  have "replaced m False d d'"
    by (rule replaced_delete_insert [OF assms(1,2) _ del ins]) (rule assms(3))
  moreover have "pendings d' = pendings d"
    using delete_messages_Inr(1) [OF del] insert_message_Inr(1) [OF ins] by simp
  ultimately show ?thesis using True by simp
next
  case False
  with run show ?thesis
    by (auto simp: move_ready_to_dlq_tx_def tx_simps dest!: dlq_accepts_run split: if_splits)
qed

lemma forward_pending_effect:
  assumes inv: "queue_inv d" and run: "forward_pending now backoff i d = Inr (x, d')"
  obtains m where "m \<in> set (messages d)" "m_id m = i" "m_claim m = None" "is_pending d i"
    "x = Expired \<longleftrightarrow> now \<ge> m_expires m"
    "replaced m (x = Expired) d d'" "\<forall>j. is_pending d' j \<longrightarrow> is_pending d j"
    "x \<noteq> Deferred \<longrightarrow> \<not> is_pending d' i" "x = Deferred \<longrightarrow> messages d' = messages d"
proof -
  obtain p m where p: "List.find (\<lambda>p. p_message p = i) (pendings d) = Some p"
    and m: "List.find (\<lambda>m. m_id m = i \<and> m_claim m = None) (messages d) = Some m"
    using run by (auto simp: forward_pending_def tx_simps split: option.splits)
  have min: "m \<in> set (messages d)" "m_id m = i" "m_claim m = None"
    using m by (auto simp: find_Some_iff)
  have pend: "is_pending d i" using p by (auto simp: find_Some_iff is_pending_def list_ex_iff)
  have self: "replaced m False d d" using min by (auto simp: replaced_def same_content_def)
  have body: "(if now \<ge> m_expires m then
       andthen (stmt map_sql_error (delete_pendings (\<lambda>x. p_message x = i))) (\<lambda>_.
       andthen (stmt map_sql_error (delete_messages (\<lambda>x. m_seq x = m_seq m \<and> m_claim x = None))) (\<lambda>_. ret Expired))
     else andthen (move_ready_to_dlq_tx m (p_target p, p_target_gen p) now) (\<lambda>accepted.
       if accepted then andthen (stmt map_sql_error (delete_pendings (\<lambda>x. p_message x = i))) (\<lambda>_. ret Moved)
       else andthen (lift (add_ms now backoff)) (\<lambda>next_at.
         andthen (stmt map_sql_error (update_pending_next (\<lambda>x. p_message x = i) next_at)) (\<lambda>_. ret Deferred)))) d
     = Inr (x, d')"
    using run by (simp add: forward_pending_def p m tx_simps)
  show thesis
  proof (cases "now \<ge> m_expires m")
    case True
    define d1 where "d1 = d\<lparr>pendings := filter (\<lambda>x. p_message x \<noteq> i) (pendings d)\<rparr>"
    obtain k where dp: "delete_pendings (\<lambda>x. p_message x = i) d = Inr (k, d1)"
      by (simp add: delete_pendings_def d1_def)
    obtain k' where del: "delete_messages (\<lambda>x. m_seq x = m_seq m \<and> m_claim x = None) d1 = Inr (k', d')"
      and x: "x = Expired"
      using body True dp by (auto simp: tx_simps)
    have "replaced m True d1 d'"
      by (rule replaced_delete [OF delete_pendings_inv [OF inv dp] _ _ del]) (simp_all add: min d1_def)
    then have "replaced m True d d'" by (simp add: replaced_def d1_def)
    moreover have "pendings d' = pendings d1" using delete_messages_Inr(1) [OF del] by simp
    ultimately show thesis
      using min pend True x by (intro that [of m]) (auto simp: is_pending_def list_ex_iff d1_def)
  next
    case False
    then obtain a d1 where mv: "move_ready_to_dlq_tx m (p_target p, p_target_gen p) now d = Inr (a, d1)"
      using body by (auto simp: tx_simps)
    note eff = move_ready_effect [OF inv min(1,3) mv]
    show thesis
    proof (cases a)
      case True
      with body mv False have "x = Moved" "d' = d1\<lparr>pendings := filter (\<lambda>x. p_message x \<noteq> i) (pendings d1)\<rparr>"
        by (auto simp: tx_simps delete_pendings_def)
      with eff True False min pend show thesis
        by (intro that [of m]) (auto simp: is_pending_def list_ex_iff replaced_def)
    next
      case no: False
      then obtain t where "x = Deferred"
        "d' = d\<lparr>pendings := map (\<lambda>x. if p_message x = i then x\<lparr>p_next := t\<rparr> else x) (pendings d)\<rparr>"
        using body mv False eff by (auto simp: tx_simps update_pending_next_def)
      with self False min pend show thesis
        by (intro that [of m]) (auto simp: is_pending_def list_ex_iff replaced_def split: if_splits)
    qed
  qed
qed

section \<open>A whole pass\<close>

text \<open>What a pass may do to a message of the store.\<close>

definition survives :: "int \<Rightarrow> db \<Rightarrow> db \<Rightarrow> message_row \<Rightarrow> bool" where
  "survives now d d' y \<longleftrightarrow> y \<in> set (messages d')
     \<or> (is_pending d (m_id y) \<and> m_claim y = None
        \<and> (m_expires y \<le> now \<or> (stored y d' \<and> \<not> is_pending d' (m_id y))))"

definition forwards :: "int \<Rightarrow> db \<Rightarrow> db \<Rightarrow> bool" where
  "forwards now d d' \<longleftrightarrow> (\<forall>y \<in> set (messages d). survives now d d' y)
     \<and> (\<forall>j. is_pending d' j \<longrightarrow> is_pending d j)"

lemma forwards_step:
  assumes inv: "queue_inv d" and run: "forward_pending now backoff i d = Inr (x, d')"
  shows "forwards now d d'" "length (messages d') + count_forward Expired [x] = length (messages d)"
proof -
  obtain m where m: "m \<in> set (messages d)" "m_id m = i" "m_claim m = None" "is_pending d i"
    "x = Expired \<longleftrightarrow> now \<ge> m_expires m" "replaced m (x = Expired) d d'"
    "\<forall>j. is_pending d' j \<longrightarrow> is_pending d j" "x \<noteq> Deferred \<longrightarrow> \<not> is_pending d' i"
    "x = Deferred \<longrightarrow> messages d' = messages d"
    by (rule forward_pending_effect [OF inv run])
  have "survives now d d' y" if y: "y \<in> set (messages d)" for y
  proof (cases "y = m")
    case True
    with m replacedD(5) [OF m(6)] show ?thesis unfolding survives_def by (cases x) auto
  next
    case False
    with y replacedD(3) [OF m(6)] show ?thesis by (simp add: survives_def)
  qed
  with m(7) show "forwards now d d'" by (simp add: forwards_def)
  show "length (messages d') + count_forward Expired [x] = length (messages d)"
    using replacedD(2) [OF m(6)] by (auto simp: count_forward_def split: if_splits)
qed

lemma forwards_trans:
  assumes "forwards now d d1" "forwards now d1 d2"
  shows "forwards now d d2"
  unfolding forwards_def
proof (intro conjI ballI)
  show "\<forall>j. is_pending d2 j \<longrightarrow> is_pending d j" using assms by (simp add: forwards_def)
  have nopend: "z \<in> set (messages d2)" if "z \<in> set (messages d1)" "\<not> is_pending d1 (m_id z)" for z
    using assms(2) that by (auto simp: forwards_def survives_def)
  fix y assume "y \<in> set (messages d)"
  then have s: "survives now d d1 y" using assms(1) by (simp add: forwards_def)
  show "survives now d d2 y"
  proof (cases "y \<in> set (messages d1)")
    case True
    then show ?thesis using assms by (auto simp: forwards_def survives_def)
  next
    case False
    with s consider "is_pending d (m_id y)" "m_claim y = None" "m_expires y \<le> now"
      | "is_pending d (m_id y)" "m_claim y = None" "stored y d1" "\<not> is_pending d1 (m_id y)"
      by (auto simp: survives_def)
    then show ?thesis
    proof cases
      case 2
      then obtain z where z: "z \<in> set (messages d1)" "same_content y z" "m_claim z = None" by (auto simp: stored_def)
      then have "stored y d2" using nopend 2(4) by (auto simp: stored_def same_content_def)
      with 2 assms(2) show ?thesis by (auto simp: survives_def forwards_def)
    qed (simp add: survives_def)
  qed
qed

lemma forwards_refl: "forwards now d d"
  by (simp add: forwards_def survives_def)

lemma forward_all:
  assumes "queue_inv d" "map_each (forward_pending now backoff) is d = Inr (xs, d')"
  shows "forwards now d d' \<and> length (messages d') + count_forward Expired xs = length (messages d)"
  using assms
proof (induction "is" arbitrary: d xs)
  case Nil
  then show ?case by (simp add: tx_simps forwards_refl count_forward_def)
next
  case (Cons i "is")
  obtain x ys d1 where step: "forward_pending now backoff i d = Inr (x, d1)"
    and rest: "map_each (forward_pending now backoff) is d1 = Inr (ys, d')" and xs: "xs = x # ys"
    using Cons.prems(2) by (auto simp: tx_simps)
  have inv1: "queue_inv d1" by (rule keepsD [OF keeps_forward_pending Cons.prems(1) step])
  from Cons.IH [OF inv1 rest] forwards_step [OF Cons.prems(1) step]
  show ?case by (auto simp: xs count_forward_def intro: forwards_trans)
qed

text \<open>
  C14. A dead-letter forwarding pass loses nothing that has not expired: every message
  either stays as it is, or was waiting for its dead-letter queue and has now either
  expired or been stored again with the same identity and body and taken off the
  waiting list. Claimed messages are never touched, and the number of expired messages
  of the summary is exactly the number that left the store.
\<close>

theorem forward_conserves:
  assumes inv: "queue_inv d"
    and run: "transaction (forward_queue_dlq_pending now backoff limit) d = (Inr s, d')"
  shows "(\<forall>m \<in> set (messages d). m \<in> set (messages d')
        \<or> (is_pending d (m_id m) \<and> m_claim m = None
           \<and> (m_expires m \<le> now \<or> (stored m d' \<and> \<not> is_pending d' (m_id m)))))
    \<and> length (messages d') + fw_expired s = length (messages d) \<and> queue_inv d'"
proof -
  have tx: "forward_queue_dlq_pending now backoff limit d = Inr (s, d')"
    using run by (auto simp: transaction_def split: sum.splits prod.splits)
  then obtain xs where all: "map_each (forward_pending now backoff) (map p_message
      (order_limit (\<lambda>p. (p_next p, p_message p)) limit (filter (\<lambda>p. p_next p \<le> now) (pendings d)))) d = Inr (xs, d')"
    and s: "fw_expired s = count_forward Expired xs"
    by (auto simp: forward_queue_dlq_pending_def tx_simps)
  from forward_all [OF inv all] keepsD [OF keeps_forward inv tx] show ?thesis
    unfolding forwards_def survives_def s by blast
qed

definition waiting_row :: message_row where
  "waiting_row = (claimable_message 1 10000)\<lparr>m_attempts := 4\<rparr>"

definition dead_letters :: queue_row where
  "dead_letters = sample_queue\<lparr>q_id := 8\<rparr>"

definition waiting_db :: db where
  "waiting_db = sample_db\<lparr>queues := [sample_queue\<lparr>q_count := 1, q_bytes := 2\<rparr>, dead_letters],
     messages := [waiting_row], next_seq := 2,
     pendings := [\<lparr>p_message = 51, p_source = 7, p_target = 8, p_target_gen = 1, p_attempts = 4,
       p_next = 20000, p_created = 15000\<rparr>]\<rparr>"

lemma waiting_inv: "queue_inv waiting_db"
  by (simp add: waiting_db_def waiting_row_def dead_letters_def sample_db_def empty_db_def sample_queue_def
      claimable_message_def queue_inv_def keys_ok_def rows_ok_def counters_ok_def claims_ok_def claim_ok_def
      has_queue_def message_checks_def)

lemmas forward_eval =
  forward_queue_dlq_pending_def forward_pending_def move_ready_to_dlq_tx_def dlq_accepts_tx_def
  insert_dlq_message_tx_def andthen_def reading_def lift_def stmt_def require_def ret_def throw_def
  delete_messages_def delete_pendings_def update_pending_next_def insert_message_def dlq_row_def
  delete_guard_def count_delete_def count_insert_def message_checks_def message_authority_def
  waiting_db_def waiting_row_def dead_letters_def sample_db_def empty_db_def sample_queue_def
  claimable_message_def map_message_def u16_max_def as_i64_def i64_of_u64_def i64_max_def i64_min_def
  checked_add_i64_def checked_mul_i64_def in_i64_def add_ms_def order_limit_def count_forward_def

lemma waiting_forward:
  "\<exists>s d'. transaction (forward_queue_dlq_pending 30000 5000 10) waiting_db = (Inr s, d')
     \<and> moved s = 1 \<and> fw_expired s = 0"
  by (simp add: transaction_def forward_eval default_queue_config_def queue_limits Let_def)

theorem forward_conserves_witness:
  "\<exists>s d'. transaction (forward_queue_dlq_pending 30000 5000 10) waiting_db = (Inr s, d')
     \<and> length (messages d') = 1 \<and> queue_inv d'"
proof -
  obtain s d' where run: "transaction (forward_queue_dlq_pending 30000 5000 10) waiting_db = (Inr s, d')"
    and s: "fw_expired s = 0" using waiting_forward by blast
  have "length (messages waiting_db) = 1" by (simp add: waiting_db_def)
  with forward_conserves [OF waiting_inv run] s run show ?thesis by simp
qed

section \<open>Oversized dead letters\<close>

definition oversized_db :: db where
  "oversized_db = waiting_db\<lparr>queues := [sample_queue\<lparr>q_count := 1, q_bytes := 2\<rparr>,
     dead_letters\<lparr>q_config := default_queue_config\<lparr>max_message_bytes := 1\<rparr>\<rparr>]\<rparr>"

lemma oversized_inv: "queue_inv oversized_db"
  by (simp add: oversized_db_def waiting_db_def waiting_row_def dead_letters_def sample_db_def empty_db_def
      sample_queue_def claimable_message_def queue_inv_def keys_ok_def rows_ok_def counters_ok_def claims_ok_def
      claim_ok_def has_queue_def message_checks_def)



end
