(* ===== verification/Queue_Retention.thy ===== *)
theory Queue_Retention
  imports Queue_Producer_Proofs
begin

text \<open>
  The retention sweep of the queue store (\<open>sweep_queue_retention\<close> in
  \<open>crates/storage/src/scheduler/queue.rs\<close>): it never fails on a consistent store,
  respects its row and byte budgets and removes only expired ready messages.
\<close>

section \<open>The retention sweep\<close>

lemma delete_candidate_ok:
  assumes inv: "queue_inv d" and m: "m \<in> set (messages d)" "m_claim m = None" "extra m"
  obtains d' where "delete_candidate extra (m_seq m, n) d = Inr ((), d')" "queue_inv d'"
    "messages d' = filter (\<lambda>x. m_seq x \<noteq> m_seq m) (messages d)"
    "operations d' = operations d"
proof -
  let ?ids = "map m_id (filter (\<lambda>x. m_seq x = m_seq m) (messages d))"
  let ?d1 = "d\<lparr>pendings := filter (\<lambda>p. p_message p \<notin> set ?ids) (pendings d)\<rparr>"
  let ?p = "\<lambda>x. m_seq x = m_seq m \<and> m_claim x = None \<and> extra x"
  have inv1: "queue_inv ?d1"
    by (rule delete_pendings_inv [OF inv, of "\<lambda>p. p_message p \<in> set ?ids"])
      (simp add: delete_pendings_def)
  have one: "filter ?p (messages d) = [m]"
    using filter_seq [of "messages d" m "\<lambda>x. m_claim x = None \<and> extra x"] m queue_invD(1) [OF inv]
    by (simp add: keys_ok_def)
  have "\<exists>d'. delete_messages ?p ?d1 = Inr (length (filter ?p (messages ?d1)), d')"
    by (rule delete_messages_ok [OF inv1]) (simp add: delete_guard_def)
  then obtain d' where del: "delete_messages ?p ?d1 = Inr (1, d')"
    by (auto simp: one)
  have same: "filter (\<lambda>x. \<not> ?p x) (messages d) = filter (\<lambda>x. m_seq x \<noteq> m_seq m) (messages d)"
  proof (rule filter_cong [OF refl])
    fix x assume x: "x \<in> set (messages d)"
    show "(\<not> ?p x) = (m_seq x \<noteq> m_seq m)"
    proof (cases "m_seq x = m_seq m")
      case True
      then have "x = m" using x m(1) queue_invD(1) [OF inv] by (auto simp: keys_ok_def distinct_map inj_on_def)
      with m show ?thesis by simp
    qed simp
  qed
  show thesis
  proof (rule that)
    show "delete_candidate extra (m_seq m, n) d = Inr ((), d')"
      using del by (simp add: delete_candidate_def andthen_def reading_def stmt_def delete_pendings_def
          require_def ret_def)
    show "queue_inv d'" by (rule delete_messages_inv [OF inv1 del])
    show "messages d' = filter (\<lambda>x. m_seq x \<noteq> m_seq m) (messages d)" "operations d' = operations d"
      using delete_messages_Inr(1) [OF del] same by simp_all
  qed
qed

lemma for_each_delete_ok:
  assumes "queue_inv d" "distinct (map m_seq ms)"
    and "\<And>m. m \<in> set ms \<Longrightarrow> m \<in> set (messages d) \<and> m_claim m = None \<and> extra m"
  obtains d' where "for_each (delete_candidate extra) (map (\<lambda>m. (m_seq m, size_of m)) ms) d = Inr ((), d')"
    "queue_inv d'" "messages d' = filter (\<lambda>x. m_seq x \<notin> m_seq ` set ms) (messages d)"
    "operations d' = operations d"
  using assms
proof (induction ms arbitrary: d thesis)
  case Nil
  then show ?case by (auto simp: ret_def)
next
  case (Cons m ms)
  from Cons.prems(2,4) obtain d1 where d1: "delete_candidate extra (m_seq m, size_of m) d = Inr ((), d1)"
    "queue_inv d1" "messages d1 = filter (\<lambda>x. m_seq x \<noteq> m_seq m) (messages d)" "operations d1 = operations d"
    using delete_candidate_ok [of d m extra "size_of m"] by auto
  have "\<And>x. x \<in> set ms \<Longrightarrow> x \<in> set (messages d1) \<and> m_claim x = None \<and> extra x"
    using Cons.prems(3,4) by (auto simp: d1(3) image_iff)
  then obtain d' where "for_each (delete_candidate extra) (map (\<lambda>m. (m_seq m, size_of m)) ms) d1 = Inr ((), d')"
    "queue_inv d'" "messages d' = filter (\<lambda>x. m_seq x \<notin> m_seq ` set ms) (messages d1)"
    "operations d' = operations d1"
    using Cons.IH [of d1] d1(2) Cons.prems(3) by auto
  then show ?case
    using Cons.prems(1) [of d'] d1 by (simp add: andthen_def filter_filter)
qed

text \<open>The budget takes a prefix of the candidates.\<close>

definition sized :: "message_row \<Rightarrow> nat \<times> nat" where
  "sized m = (m_seq m, nat (m_bytes m))"

lemma sized_simps [simp]: "fst (sized m) = m_seq m" "snd (sized m) = nat (m_bytes m)"
  by (simp_all add: sized_def)

lemma within_budget_ok:
  assumes "\<And>m. m \<in> set rows \<Longrightarrow> 0 \<le> m_bytes m \<and> m_bytes m \<le> int u64_max"
    and "max_bytes < u64_max" "first \<Longrightarrow> bytes = 0"
  obtains k where "within_budget max_bytes bytes first rows = Inr (map sized (take k rows))"
    "first \<Longrightarrow> rows \<noteq> [] \<Longrightarrow> 0 < k"
    "bytes \<le> max_bytes \<Longrightarrow> bytes + sum_list (map snd (map sized (take k rows))) \<le> max_bytes \<or> (first \<and> k = 1)"
    "bytes > max_bytes \<Longrightarrow> \<not> first \<Longrightarrow> k = 0"
  using assms
proof (induction rows arbitrary: bytes first thesis)
  case Nil
  then show ?case by (metis list.simps(8) take_Nil within_budget.simps(1) sum_list.Nil add_0_right)
next
  case (Cons m rows)
  let ?size = "nat (m_bytes m)"
  have size: "u64_of_i64 (m_bytes m) = Some ?size" "?size \<le> u64_max"
    using Cons.prems(2) [of m] by (auto simp: u64_of_i64_def)
  show ?case
  proof (cases "\<not> first \<and> saturating_add_u64 bytes ?size > max_bytes")
    case True
    then show ?thesis
      using Cons.prems(1) [of 0] by (simp add: size)
  next
    case False
    then have fits: "bytes + ?size \<le> u64_max" "\<not> first \<Longrightarrow> bytes + ?size \<le> max_bytes"
      using Cons.prems(3,4) size(2) by (auto simp: saturating_add_u64_def min_def split: if_splits)
    obtain k where k: "within_budget max_bytes (bytes + ?size) False rows = Inr (map sized (take k rows))"
      "bytes + ?size \<le> max_bytes \<Longrightarrow> bytes + ?size + sum_list (map snd (map sized (take k rows))) \<le> max_bytes"
      "bytes + ?size > max_bytes \<Longrightarrow> k = 0"
      using Cons.IH [of "bytes + ?size" False] Cons.prems(2,3) by auto
    have "within_budget max_bytes bytes first (m # rows) = Inr (map sized (take (Suc k) (m # rows)))"
      using False k(1) fits(1) by (auto simp: size checked_add_u64_def sized_def)
    then show ?thesis
      using Cons.prems(1) [of "Suc k"] k(2,3) fits(2) Cons.prems(4)
      by (cases "bytes + ?size \<le> max_bytes") (auto simp del: within_budget.simps)
  qed
qed

lemma sum_sizes_ok:
  assumes "a + sum_list (map snd cs) \<le> u64_max"
  shows "foldl (\<lambda>acc c. rbind acc (\<lambda>b. ok_or QueueInvariantViolation (checked_add_u64 b (snd c)))) (Inr a) cs
    = Inr (a + sum_list (map snd cs))"
  using assms by (induction cs arbitrary: a) (simp_all add: checked_add_u64_def add.assoc)

lemma map_sized: "map sized ms = map (\<lambda>m. (m_seq m, nat (m_bytes m))) ms"
  by (simp add: sized_def)

lemma sweep_run:
  assumes inv: "queue_inv d" and budget: "max_rows \<noteq> 0" "max_bytes \<noteq> 0" "max_bytes < u64_max"
    and small: "\<And>m. m \<in> set (messages d) \<Longrightarrow> m_bytes m \<le> int u64_max"
  obtains ms d' where "set ms \<subseteq> {m \<in> set (messages d). m_claim m = None \<and> m_expires m \<le> now}"
    "distinct (map m_seq ms)" "length ms \<le> max_rows"
    "(\<exists>m \<in> set (messages d). m_claim m = None \<and> m_expires m \<le> now) \<longrightarrow> ms \<noteq> []"
    "sum_list (map snd (map sized ms)) \<le> max_bytes \<or> length ms = 1"
    "sweep_queue_retention now max_rows max_bytes d = Inr (\<lparr>db_messages = length ms,
       db_bytes = sum_list (map snd (map sized ms)), next_expiry = next_expiry_of d',
       expired_remaining = list_ex (\<lambda>m. m_claim m = None \<and> m_expires m \<le> now) (messages d')
         \<or> list_ex (expired_operation now) (operations d')\<rparr>, d')"
    "messages d' = filter (\<lambda>x. m_seq x \<notin> m_seq ` set ms) (messages d)"
proof -
  let ?due = "filter (deletable None (Some now)) (messages d)"
  let ?rows = "order_limit (\<lambda>m. (m_expires m, m_queue m, m_seq m)) max_rows ?due"
  have due: "set ?due = {m \<in> set (messages d). m_claim m = None \<and> m_expires m \<le> now}"
    by (auto simp: deletable_def)
  have sub: "set ?rows \<subseteq> set ?due" by (rule set_order_limit_subset)
  have "0 \<le> m_bytes m \<and> m_bytes m \<le> int u64_max" if "m \<in> set ?rows" for m
    using that sub due m_bytes_nonneg [OF inv] small by blast
  then obtain k where k: "within_budget max_bytes 0 True ?rows = Inr (map sized (take k ?rows))"
    "?rows \<noteq> [] \<Longrightarrow> 0 < k"
    "sum_list (map snd (map sized (take k ?rows))) \<le> max_bytes \<or> k = 1"
    by (rule within_budget_ok [of ?rows max_bytes True 0]) (use budget(3) in simp_all)
  let ?ms = "take k ?rows"
  have ms: "set ?ms \<subseteq> {m \<in> set (messages d). m_claim m = None \<and> m_expires m \<le> now}"
    using sub due set_take_subset [of k ?rows] by blast
  have dist: "distinct (map m_seq ?ms)"
  proof -
    have "distinct (map m_seq ?due)"
      using queue_invD(1) [OF inv] by (simp add: keys_ok_def distinct_map_filter)
    then have "distinct (map m_seq ?rows)" by (rule distinct_order_limit)
    then show ?thesis by (simp add: take_map [symmetric])
  qed
  obtain d1 where d1: "for_each (delete_candidate (\<lambda>m. m_expires m \<le> now)) (map sized ?ms) d = Inr ((), d1)"
    "messages d1 = filter (\<lambda>x. m_seq x \<notin> m_seq ` set ?ms) (messages d)"
    unfolding map_sized
    using for_each_delete_ok [OF inv dist, of "\<lambda>m. m_expires m \<le> now" "\<lambda>m. nat (m_bytes m)"] ms by blast
  have bytes: "sum_list (map snd (map sized ?ms)) \<le> u64_max"
  proof (cases "sum_list (map snd (map sized ?ms)) \<le> max_bytes")
    case False
    with k(3) have k1: "k = 1" by blast
    show ?thesis
    proof (cases ?rows)
      case (Cons m rest)
      then have "m \<in> set (messages d)" using sub due by auto
      then have "nat (m_bytes m) \<le> u64_max" using small [of m] by linarith
      with k1 Cons show ?thesis by simp
    qed simp
  qed (use budget(3) in simp)
  obtain n d' where del: "delete_expired_operations now max_rows d1 = Inr (n, d')" "messages d' = messages d1"
    by (simp add: delete_expired_operations_def andthen_def reading_def stmt_def delete_operations_def)
  show thesis
  proof (rule that [OF ms dist])
    show "length ?ms \<le> max_rows" by simp
    show "(\<exists>m \<in> set (messages d). m_claim m = None \<and> m_expires m \<le> now) \<longrightarrow> ?ms \<noteq> []"
    proof
      assume "\<exists>m \<in> set (messages d). m_claim m = None \<and> m_expires m \<le> now"
      then have "set ?due \<noteq> {}" unfolding due by blast
      then have "0 < length ?due" by (metis length_greater_0_conv set_empty)
      then have "0 < length ?rows" using budget(1) by simp
      then have "?rows \<noteq> []" by (rule length_greater_0_conv [THEN iffD1])
      with k(2) show "?ms \<noteq> []" by simp
    qed
    show "sum_list (map snd (map sized ?ms)) \<le> max_bytes \<or> length ?ms = 1"
      using k(2,3) by (cases ?rows) auto
    show "sweep_queue_retention now max_rows max_bytes d = Inr (\<lparr>db_messages = length ?ms,
       db_bytes = sum_list (map snd (map sized ?ms)), next_expiry = next_expiry_of d',
       expired_remaining = list_ex (\<lambda>m. m_claim m = None \<and> m_expires m \<le> now) (messages d')
         \<or> list_ex (expired_operation now) (operations d')\<rparr>, d')"
      using budget d1(1) del(1) k(1) sum_sizes_ok [of 0 "map sized ?ms"] bytes
      by (simp add: sweep_queue_retention_def select_delete_candidates_def andthen_def require_def ret_def
          reading_def lift_def sum_sizes_def)
    show "messages d' = filter (\<lambda>x. m_seq x \<notin> m_seq ` set ?ms) (messages d)"
      by (simp add: del(2) d1(2))
  qed
qed

text \<open>
  C18. The retention sweep always succeeds on a consistent store and removes only
  ready messages that have expired: at most the requested number, within the byte
  budget unless a single message exceeds it, and at least one when any is due, so
  that repeated sweeps make progress. Claimed and unexpired messages are untouched.
\<close>

theorem sweep_removes_only_expired:
  assumes "queue_inv d" and "max_rows \<noteq> 0" "max_bytes \<noteq> 0" "max_bytes < u64_max"
    and "\<And>m. m \<in> set (messages d) \<Longrightarrow> m_bytes m \<le> int u64_max"
  shows "\<exists>res d' gone. transaction (sweep_queue_retention now max_rows max_bytes) d = (Inr res, d')
    \<and> messages d' = filter (\<lambda>m. m_seq m \<notin> gone) (messages d)
    \<and> gone \<subseteq> m_seq ` {m \<in> set (messages d). m_claim m = None \<and> m_expires m \<le> now}
    \<and> card gone = db_messages res \<and> db_messages res \<le> max_rows
    \<and> (db_bytes res \<le> max_bytes \<or> db_messages res = 1)
    \<and> ((\<exists>m \<in> set (messages d). m_claim m = None \<and> m_expires m \<le> now) \<longrightarrow> 0 < db_messages res)"
proof -
  obtain ms d' where ms: "set ms \<subseteq> {m \<in> set (messages d). m_claim m = None \<and> m_expires m \<le> now}"
    "distinct (map m_seq ms)" "length ms \<le> max_rows"
    "(\<exists>m \<in> set (messages d). m_claim m = None \<and> m_expires m \<le> now) \<longrightarrow> ms \<noteq> []"
    "sum_list (map snd (map sized ms)) \<le> max_bytes \<or> length ms = 1"
    and run: "sweep_queue_retention now max_rows max_bytes d = Inr (\<lparr>db_messages = length ms,
       db_bytes = sum_list (map snd (map sized ms)), next_expiry = next_expiry_of d',
       expired_remaining = list_ex (\<lambda>m. m_claim m = None \<and> m_expires m \<le> now) (messages d')
         \<or> list_ex (expired_operation now) (operations d')\<rparr>, d')"
    and left: "messages d' = filter (\<lambda>x. m_seq x \<notin> m_seq ` set ms) (messages d)"
    by (rule sweep_run [OF assms, where now = now])
  have card: "card (m_seq ` set ms) = length ms"
    using distinct_card [OF ms(2)] by simp
  have gone: "m_seq ` set ms \<subseteq> m_seq ` {m \<in> set (messages d). m_claim m = None \<and> m_expires m \<le> now}"
    using ms(1) by (rule image_mono)
  define res where "res = \<lparr>db_messages = length ms,
     db_bytes = sum_list (map snd (map sized ms)), next_expiry = next_expiry_of d',
     expired_remaining = list_ex (\<lambda>m. m_claim m = None \<and> m_expires m \<le> now) (messages d')
       \<or> list_ex (expired_operation now) (operations d')\<rparr>"
  have size: "db_messages res = length ms" "db_bytes res = sum_list (map snd (map sized ms))"
    by (simp_all add: res_def)
  show ?thesis
  proof (intro exI conjI)
    show "transaction (sweep_queue_retention now max_rows max_bytes) d = (Inr res, d')"
      using run by (simp add: transaction_def res_def)
    show "messages d' = filter (\<lambda>m. m_seq m \<notin> m_seq ` set ms) (messages d)" by (rule left)
    show "m_seq ` set ms \<subseteq> m_seq ` {m \<in> set (messages d). m_claim m = None \<and> m_expires m \<le> now}"
      by (rule gone)
    show "card (m_seq ` set ms) = db_messages res" using card size by simp
    show "db_messages res \<le> max_rows" using ms(3) size by simp
    show "db_bytes res \<le> max_bytes \<or> db_messages res = 1" using ms(5) by (simp only: size)
    show "(\<exists>m \<in> set (messages d). m_claim m = None \<and> m_expires m \<le> now) \<longrightarrow> 0 < db_messages res"
      using ms(4) by (simp add: size)
  qed
qed

definition expiring_message :: "nat \<Rightarrow> int \<Rightarrow> message_row" where
  "expiring_message i expires = \<lparr>m_seq = i, m_id = 50 + i, m_queue = 7, m_generation = 1,
     m_enqueued = 0, m_available = 0, m_expires = expires, m_type = Bytes, m_body = [1, 2],
     m_bytes = 2, m_attempts = 0, m_claim = None\<rparr>"

definition expiring_db :: db where
  "expiring_db = sample_db\<lparr>queues := [sample_queue\<lparr>q_count := 2, q_bytes := 4\<rparr>],
     messages := [expiring_message 1 60000, expiring_message 2 90000], next_seq := 3\<rparr>"

theorem sweep_removes_only_expired_witness:
  "\<exists>res d'. transaction (sweep_queue_retention 70000 10 100) expiring_db = (Inr res, d')
     \<and> 0 < db_messages res \<and> db_messages res \<le> 10"
proof -
  have inv: "queue_inv expiring_db"
    by (simp add: expiring_db_def sample_db_def empty_db_def sample_queue_def expiring_message_def
        queue_inv_def keys_ok_def rows_ok_def counters_ok_def claims_ok_def claim_ok_def has_queue_def
        message_checks_def)
  have small: "m_bytes m \<le> int u64_max" if "m \<in> set (messages expiring_db)" for m
    using that by (auto simp: expiring_db_def expiring_message_def u64_max_def)
  have due: "\<exists>m \<in> set (messages expiring_db). m_claim m = None \<and> m_expires m \<le> 70000"
    by (simp add: expiring_db_def expiring_message_def)
  show ?thesis
    using sweep_removes_only_expired [OF inv _ _ _ small, of 10 100 70000] due
    by (simp add: u64_max_def) blast
qed

end
