(* ===== verification/Alarm_Store.thy ===== *)
theory Alarm_Store
  imports Transactions
begin

text \<open>
  The alarm store of the scheduler (\<open>crates/storage/src/scheduler.rs\<close>, \<open>helpers.rs\<close> and
  \<open>summary.rs\<close>): one row of \<open>scheduled_jobs\<close> per object generation, projected by the
  object's own storage and fenced by its row token. Text is a list of bytes;
  identifiers are numbers that order like their canonical text.
\<close>

section \<open>Data\<close>

type_synonym object_key = "nat \<times> nat \<times> nat"

record alarm_projection =
  ap_namespace :: nat
  ap_object :: nat
  ap_generation :: nat
  ap_token :: string
  ap_due :: int
  ap_version :: nat
  ap_execution :: nat
  ap_retry :: nat

datatype job_state = Scheduled | JobClaimed | Discarding

record job_row =
  j_id :: nat
  j_namespace :: nat
  j_object :: nat
  j_generation :: nat
  j_token :: string
  j_due :: int
  j_version :: nat
  j_execution :: nat
  j_state :: job_state
  j_retry :: nat
  j_error :: "string option"
  j_created :: int
  j_updated :: int

record claimed_job =
  cj_id :: nat
  cj_namespace :: nat
  cj_object :: nat
  cj_generation :: nat
  cj_token :: string
  cj_due :: int
  cj_version :: nat
  cj_execution :: nat
  cj_retry :: nat

datatype claim_result =
    Delete
  | Reschedule int nat "string option"
  | MarkDiscarding string

record scheduler_summary =
  sm_scheduled :: nat
  sm_claimed :: nat
  sm_discarding :: nat
  sm_oldest :: "int option"

type_synonym jobs = "job_row list"

definition job_key :: "job_row \<Rightarrow> object_key" where
  "job_key j = (j_namespace j, j_object j, j_generation j)"

definition projection_key :: "alarm_projection \<Rightarrow> object_key" where
  "projection_key p = (ap_namespace p, ap_object p, ap_generation p)"

section \<open>Input validation\<close>

definition is_ascii_control :: "char \<Rightarrow> bool" where
  "is_ascii_control c \<longleftrightarrow> (of_char c :: nat) < 32 \<or> (of_char c :: nat) = 127"

definition validate_token :: "string \<Rightarrow> unit result" where
  "validate_token token =
    (if \<not> (16 \<le> length token \<and> length token \<le> 128)
        \<or> list_ex (\<lambda>c. is_ascii_control c \<or> is_ascii_whitespace c) token
     then Inl SchedulerInternalProtocolError else Inr ())"

definition validate_projection :: "alarm_projection \<Rightarrow> unit result" where
  "validate_projection p =
     rbind (validate_token (ap_token p)) (\<lambda>_.
       if ap_generation p = 0 \<or> ap_due p \<le> 0 \<or> ap_retry p > 6
       then Inl SchedulerInternalProtocolError else Inr ())"

definition job_i64 :: "nat \<Rightarrow> unit result" where
  "job_i64 v = rbind (ok_or SchedulerInternalProtocolError (i64_of_u64 v)) (\<lambda>_. Inr ())"

section \<open>Statements on \<open>scheduled_jobs\<close>\<close>

definition job_checks :: "job_row \<Rightarrow> bool" where
  "job_checks j \<longleftrightarrow> j_generation j \<ge> 1 \<and> j_due j > 0 \<and> j_retry j \<le> 6
     \<and> 16 \<le> sql_length (j_token j) \<and> sql_length (j_token j) \<le> 128"

definition update_jobs ::
  "(job_row \<Rightarrow> bool) \<Rightarrow> (job_row \<Rightarrow> job_row) \<Rightarrow> jobs \<Rightarrow> sql_error + (nat \<times> jobs)" where
  "update_jobs p f js =
    (if list_all (\<lambda>j. p j \<longrightarrow> job_checks (f j)) js
     then Inr (length (filter p js), map (\<lambda>j. if p j then f j else j) js)
     else Inl ConstraintFailed)"

definition delete_jobs :: "(job_row \<Rightarrow> bool) \<Rightarrow> jobs \<Rightarrow> sql_error + (nat \<times> jobs)" where
  "delete_jobs p js = Inr (length (filter p js), filter (\<lambda>j. \<not> p j) js)"

text \<open>The insert with its \<open>ON CONFLICT(namespace_resource_id, object_id, object_generation)\<close>.\<close>

definition upsert_job :: "job_row \<Rightarrow> jobs \<Rightarrow> sql_error + (nat \<times> jobs)" where
  "upsert_job new js =
    (if \<not> job_checks new then Inl ConstraintFailed
     else if list_ex (\<lambda>j. job_key j = job_key new) js
     then update_jobs (\<lambda>j. job_key j = job_key new)
            (\<lambda>j. j\<lparr>j_token := j_token new, j_due := j_due new, j_version := j_version new,
                   j_execution := j_execution new, j_state := Scheduled, j_retry := j_retry new,
                   j_error := None, j_updated := j_updated new\<rparr>) js
     else if list_ex (\<lambda>j. j_id j = j_id new) js then Inl ConstraintFailed
     else Inr (1, js @ [new]))"

section \<open>Operations\<close>

definition new_job :: "nat \<Rightarrow> alarm_projection \<Rightarrow> int \<Rightarrow> job_row" where
  "new_job fresh p now = \<lparr>j_id = fresh, j_namespace = ap_namespace p, j_object = ap_object p,
     j_generation = ap_generation p, j_token = ap_token p, j_due = ap_due p,
     j_version = ap_version p, j_execution = ap_execution p, j_state = Scheduled,
     j_retry = ap_retry p, j_error = None, j_created = now, j_updated = now\<rparr>"

text \<open>\<open>fresh\<close> is the identifier drawn by \<open>Uuid::now_v7\<close>.\<close>

definition upsert_alarm :: "nat \<Rightarrow> alarm_projection \<Rightarrow> int \<Rightarrow> (jobs, unit) stx" where
  "upsert_alarm fresh p now =
     andthen (lift (validate_projection p)) (\<lambda>_.
     andthen (lift (job_i64 (ap_generation p))) (\<lambda>_.
     andthen (lift (job_i64 (ap_execution p))) (\<lambda>_.
     andthen (stmt map_sql_error (upsert_job (new_job fresh p now))) (\<lambda>_. ret ()))))"

definition delete_alarm_exact ::
  "nat \<Rightarrow> nat \<Rightarrow> nat \<Rightarrow> string \<Rightarrow> (jobs, bool) stx" where
  "delete_alarm_exact ns obj gen token =
     andthen (lift (validate_token token)) (\<lambda>_.
     andthen (lift (job_i64 gen)) (\<lambda>_.
     andthen (stmt map_sql_error (delete_jobs (\<lambda>j. job_key j = (ns, obj, gen) \<and> j_token j = token)))
       (\<lambda>affected. ret (affected = 1))))"

definition delete_object :: "nat \<Rightarrow> nat \<Rightarrow> nat \<Rightarrow> (jobs, nat) stx" where
  "delete_object ns obj gen =
     andthen (lift (job_i64 gen)) (\<lambda>_.
       stmt map_sql_error (delete_jobs (\<lambda>j. job_key j = (ns, obj, gen))))"

definition read_claimed :: "nat \<Rightarrow> (jobs, claimed_job) stx" where
  "read_claimed i =
     andthen (reading (List.find (\<lambda>j. j_id j = i \<and> j_state j = JobClaimed))) (\<lambda>found.
       case found of
         None \<Rightarrow> throw (map_sql_error NoRows)
       | Some j \<Rightarrow> ret \<lparr>cj_id = j_id j, cj_namespace = j_namespace j, cj_object = j_object j,
           cj_generation = j_generation j, cj_token = j_token j, cj_due = j_due j,
           cj_version = j_version j, cj_execution = j_execution j, cj_retry = j_retry j\<rparr>)"

definition due_job :: "int \<Rightarrow> job_row \<Rightarrow> bool" where
  "due_job now j \<longleftrightarrow> j_state j = Scheduled \<and> j_due j \<le> now"

definition claim_job :: "int \<Rightarrow> nat \<Rightarrow> (jobs, claimed_job) stx" where
  "claim_job now i =
     andthen (stmt map_sql_error (update_jobs (\<lambda>j. j_id j = i \<and> due_job now j)
        (\<lambda>j. j\<lparr>j_state := JobClaimed, j_updated := now\<rparr>))) (\<lambda>affected.
     andthen (require SchedulerCorrupt (affected = 1)) (\<lambda>_. read_claimed i))"

definition claim_due :: "int \<Rightarrow> nat \<Rightarrow> (jobs, claimed_job list) stx" where
  "claim_due now batch =
     andthen (require SchedulerInternalProtocolError (batch \<noteq> 0)) (\<lambda>_.
     andthen (reading (\<lambda>js. map j_id (order_limit (\<lambda>j. (j_due j, j_id j)) batch (filter (due_job now) js))))
       (map_each (claim_job now)))"

definition claimed_as :: "claimed_job \<Rightarrow> job_row \<Rightarrow> bool" where
  "claimed_as c j \<longleftrightarrow> j_id j = cj_id c \<and> j_state j = JobClaimed \<and> j_token j = cj_token c"

definition finish_claim :: "claimed_job \<Rightarrow> claim_result \<Rightarrow> int \<Rightarrow> (jobs, bool) stx" where
  "finish_claim c res now =
     andthen (case res of
         Delete \<Rightarrow> stmt map_sql_error (delete_jobs (claimed_as c))
       | Reschedule due retry err \<Rightarrow>
           if due \<le> 0 \<or> retry > 6 then throw SchedulerInternalProtocolError
           else stmt map_sql_error (update_jobs (claimed_as c)
             (\<lambda>j. j\<lparr>j_state := Scheduled, j_due := due, j_retry := retry, j_error := err, j_updated := now\<rparr>))
       | MarkDiscarding err \<Rightarrow> stmt map_sql_error (update_jobs (claimed_as c)
             (\<lambda>j. j\<lparr>j_state := Discarding, j_error := Some err, j_updated := now\<rparr>)))
       (\<lambda>affected. ret (affected = 1))"

definition retarget_claim :: "claimed_job \<Rightarrow> nat \<Rightarrow> nat \<Rightarrow> int \<Rightarrow> (jobs, bool) stx" where
  "retarget_claim c version execution now =
     andthen (lift (job_i64 execution)) (\<lambda>_.
     andthen (stmt map_sql_error (update_jobs (claimed_as c)
        (\<lambda>j. j\<lparr>j_version := version, j_execution := execution, j_updated := now\<rparr>)))
       (\<lambda>affected. ret (affected = 1)))"

definition finish_discarding :: "claimed_job \<Rightarrow> (jobs, bool) stx" where
  "finish_discarding c =
     andthen (stmt map_sql_error (delete_jobs
        (\<lambda>j. j_id j = cj_id c \<and> j_state j = Discarding \<and> j_token j = cj_token c)))
       (\<lambda>affected. ret (affected = 1))"

text \<open>Interrupted claims return to the schedule when the store is opened.\<close>

definition reset_job_claims :: "int \<Rightarrow> (jobs, unit) stx" where
  "reset_job_claims now =
     andthen (stmt map_sql_error (update_jobs (\<lambda>j. j_state j = JobClaimed)
        (\<lambda>j. j\<lparr>j_state := Scheduled, j_updated := now\<rparr>))) (\<lambda>_. ret ())"

definition oldest_scheduled :: "jobs \<Rightarrow> int option" where
  "oldest_scheduled js = min_opt (map j_due (filter (\<lambda>j. j_state j = Scheduled) js))"

definition summary_connection :: "jobs \<Rightarrow> scheduler_summary" where
  "summary_connection js = \<lparr>sm_scheduled = length (filter (\<lambda>j. j_state j = Scheduled) js),
     sm_claimed = length (filter (\<lambda>j. j_state j = JobClaimed) js),
     sm_discarding = length (filter (\<lambda>j. j_state j = Discarding) js),
     sm_oldest = oldest_scheduled js\<rparr>"

definition workload_summary_connection :: "int \<Rightarrow> jobs \<Rightarrow> workload_summary" where
  "workload_summary_connection now js = \<lparr>ws_ready = length (filter (due_job now) js),
     ws_claimed = length (filter (\<lambda>j. j_state j = JobClaimed) js), ws_expired = 0,
     ws_oldest_due = oldest_scheduled js, ws_next_due = oldest_scheduled js\<rparr>"

end
