(* ===== verification/Alarm_Proofs.thy ===== *)
theory Alarm_Proofs
  imports Alarm_Store
begin

text \<open>
  The alarm store as a map from object generations to alarms: every operation is a
  map update, a claim takes the earliest due alarms exactly once, and a result is
  applied only while the claim and the row token it was issued for still stand.
\<close>

section \<open>Invariant\<close>

definition jobs_inv :: "jobs \<Rightarrow> bool" where
  "jobs_inv js \<longleftrightarrow> distinct (map j_id js) \<and> distinct (map job_key js) \<and> list_all job_checks js"

lemma jobs_inv_Nil: "jobs_inv []"
  by (simp add: jobs_inv_def)

lemma job_id_inj: "jobs_inv js \<Longrightarrow> i \<in> set js \<Longrightarrow> j \<in> set js \<Longrightarrow> j_id i = j_id j \<Longrightarrow> i = j"
  by (auto simp: jobs_inv_def distinct_map inj_on_def)

lemma job_key_inj: "jobs_inv js \<Longrightarrow> i \<in> set js \<Longrightarrow> j \<in> set js \<Longrightarrow> job_key i = job_key j \<Longrightarrow> i = j"
  by (auto simp: jobs_inv_def distinct_map inj_on_def)

lemma update_jobs_inv:
  assumes inv: "jobs_inv js" and upd: "update_jobs p f js = Inr (n, js')"
    and f: "\<And>j. j_id (f j) = j_id j \<and> job_key (f j) = job_key j"
  shows "jobs_inv js'"
proof -
  have js': "js' = map (\<lambda>j. if p j then f j else j) js"
    and checks: "\<And>j. j \<in> set js \<Longrightarrow> p j \<Longrightarrow> job_checks (f j)"
    using upd by (auto simp: update_jobs_def list_all_iff split: if_splits)
  have "map j_id js' = map j_id js" "map job_key js' = map job_key js"
    using f by (simp_all add: js')
  then show ?thesis
    using inv checks by (auto simp: jobs_inv_def js' list_all_iff simp del: map_map)
qed

lemma delete_jobs_inv: "jobs_inv js \<Longrightarrow> delete_jobs p js = Inr (n, js') \<Longrightarrow> jobs_inv js'"
  by (auto simp: delete_jobs_def jobs_inv_def distinct_map_filter list_all_iff)

lemma job_key_update [simp]:
  "job_key (j\<lparr>j_state := s\<rparr>) = job_key j" "job_key (j\<lparr>j_updated := t\<rparr>) = job_key j"
  "job_key (j\<lparr>j_token := k\<rparr>) = job_key j" "job_key (j\<lparr>j_due := d\<rparr>) = job_key j"
  "job_key (j\<lparr>j_version := v\<rparr>) = job_key j" "job_key (j\<lparr>j_execution := e\<rparr>) = job_key j"
  "job_key (j\<lparr>j_retry := r\<rparr>) = job_key j" "job_key (j\<lparr>j_error := x\<rparr>) = job_key j"
  by (simp_all add: job_key_def)

lemma upsert_job_inv:
  assumes inv: "jobs_inv js" and ups: "upsert_job new js = Inr (n, js')"
  shows "jobs_inv js'"
proof (cases "list_ex (\<lambda>j. job_key j = job_key new) js")
  case True
  then show ?thesis
    using ups by (auto simp: upsert_job_def split: if_splits intro: update_jobs_inv [OF inv])
next
  case False
  then have "job_checks new" "j_id new \<notin> j_id ` set js" "job_key new \<notin> job_key ` set js"
    and "js' = js @ [new]"
    using ups by (auto simp: upsert_job_def list_ex_iff split: if_splits)
  then show ?thesis using inv by (simp add: jobs_inv_def)
qed

lemma keeps_jobs_stmt:
  "(\<And>js x js'. jobs_inv js \<Longrightarrow> f js = Inr (x, js') \<Longrightarrow> jobs_inv js') \<Longrightarrow> keeps jobs_inv (stmt err f)"
  by (auto simp: keeps_def tx_simps)

lemma keeps_update_jobs:
  "(\<And>j. j_id (f j) = j_id j \<and> job_key (f j) = job_key j) \<Longrightarrow> keeps jobs_inv (stmt err (update_jobs p f))"
  by (rule keeps_jobs_stmt) (rule update_jobs_inv)

lemma keeps_jobs_statements:
  "keeps jobs_inv (stmt err (delete_jobs p))" "keeps jobs_inv (stmt err (upsert_job new))"
  by (rule keeps_jobs_stmt; blast intro: delete_jobs_inv upsert_job_inv)+

lemma keeps_claim_result:
  "keeps I a \<Longrightarrow> (\<And>x y z. keeps I (b x y z)) \<Longrightarrow> (\<And>x. keeps I (c x))
    \<Longrightarrow> keeps I (case res of Delete \<Rightarrow> a | Reschedule x y z \<Rightarrow> b x y z | MarkDiscarding x \<Rightarrow> c x)"
  by (cases res) simp_all

lemma keeps_alarm:
  "keeps jobs_inv (upsert_alarm fresh p now)"
  "keeps jobs_inv (delete_alarm_exact ns obj g token)"
  "keeps jobs_inv (delete_object ns obj g)"
  "keeps jobs_inv (claim_due now batch)"
  "keeps jobs_inv (finish_claim c res now)"
  "keeps jobs_inv (retarget_claim c v e now)"
  "keeps jobs_inv (finish_discarding c)"
  "keeps jobs_inv (reset_job_claims now)"
  unfolding upsert_alarm_def delete_alarm_exact_def delete_object_def claim_due_def claim_job_def
    read_claimed_def finish_claim_def retarget_claim_def finish_discarding_def reset_job_claims_def
  by (intro keeps_intros keeps_jobs_statements keeps_update_jobs keeps_claim_result; simp)+

section \<open>Claims\<close>

definition claim_view :: "job_row \<Rightarrow> claimed_job" where
  "claim_view j = \<lparr>cj_id = j_id j, cj_namespace = j_namespace j, cj_object = j_object j,
     cj_generation = j_generation j, cj_token = j_token j, cj_due = j_due j,
     cj_version = j_version j, cj_execution = j_execution j, cj_retry = j_retry j\<rparr>"

definition earliest_due :: "int \<Rightarrow> nat \<Rightarrow> jobs \<Rightarrow> job_row list" where
  "earliest_due now n js = order_limit (\<lambda>j. (j_due j, j_id j)) n (filter (due_job now) js)"

definition mark_jobs :: "int \<Rightarrow> nat set \<Rightarrow> job_row \<Rightarrow> job_row" where
  "mark_jobs now ids j = (if j_id j \<in> ids then j\<lparr>j_state := JobClaimed, j_updated := now\<rparr> else j)"

lemma mark_jobs_simps [simp]:
  "j_id (mark_jobs now s j) = j_id j" "mark_jobs now {} j = j"
  "j_id j \<notin> s \<Longrightarrow> mark_jobs now s j = j"
  "mark_jobs now s (mark_jobs now {i} j) = mark_jobs now (insert i s) j"
  by (simp_all add: mark_jobs_def)

lemma claim_job_ok:
  assumes inv: "jobs_inv js" and j: "j \<in> set js" "due_job now j"
  shows "claim_job now (j_id j) js = Inr (claim_view j, map (mark_jobs now {j_id j}) js)"
proof -
  let ?p = "\<lambda>x. j_id x = j_id j \<and> due_job now x"
  let ?f = "\<lambda>x. x\<lparr>j_state := JobClaimed, j_updated := now\<rparr>"
  let ?js = "map (mark_jobs now {j_id j}) js"
  have one: "filter ?p js = [j]"
    by (rule filter_by_key) (use inv j in \<open>simp_all add: jobs_inv_def\<close>)
  have same: "x = j" if "x \<in> set js" "j_id x = j_id j" for x
    by (rule job_id_inj [OF inv that(1) j(1) that(2)])
  have eq: "map (\<lambda>x. if ?p x then ?f x else x) js = ?js"
    by (rule map_cong [OF refl]) (use same j in \<open>auto simp: mark_jobs_def\<close>)
  have checks: "list_all (\<lambda>x. ?p x \<longrightarrow> job_checks (?f x)) js"
    using inv by (auto simp: jobs_inv_def list_all_iff job_checks_def)
  have "update_jobs ?p ?f js = Inr (1, ?js)"
    unfolding update_jobs_def eq one using checks by simp
  moreover have "List.find (\<lambda>x. j_id x = j_id j \<and> j_state x = JobClaimed) ?js = Some (?f j)"
  proof (rule find_unique)
    show "?f j \<in> set ?js" using j(1) by (force simp: mark_jobs_def)
    show "y = ?f j" if "y \<in> set ?js" "j_id y = j_id j \<and> j_state y = JobClaimed" for y
      using that same by (auto simp: mark_jobs_def split: if_splits)
  qed simp
  ultimately show ?thesis
    by (simp add: claim_job_def andthen_def stmt_def require_def ret_def reading_def read_claimed_def
        claim_view_def)
qed

lemma claim_jobs_ok:
  assumes "jobs_inv js" "distinct (map j_id ds)" "\<And>j. j \<in> set ds \<Longrightarrow> j \<in> set js \<and> due_job now j"
  shows "map_each (claim_job now) (map j_id ds) js
    = Inr (map claim_view ds, map (mark_jobs now (j_id ` set ds)) js)"
  using assms
proof (induction ds arbitrary: js)
  case Nil
  then show ?case by (simp add: ret_def)
next
  case (Cons j ds)
  let ?js = "map (mark_jobs now {j_id j}) js"
  have step: "claim_job now (j_id j) js = Inr (claim_view j, ?js)"
    by (rule claim_job_ok) (use Cons.prems in auto)
  have "keeps jobs_inv (claim_job now (j_id j))"
    unfolding claim_job_def read_claimed_def
    by (intro keeps_intros keeps_update_jobs; simp)
  then have inv1: "jobs_inv ?js" using Cons.prems(1) step by (rule keepsD)
  have "x \<in> set ?js \<and> due_job now x" if x: "x \<in> set ds" for x
  proof -
    have "j_id x \<noteq> j_id j" using Cons.prems(2) x by (auto simp: image_iff)
    then have "mark_jobs now {j_id j} x = x" by simp
    then show ?thesis using Cons.prems(3) [of x] x by (force simp: image_iff)
  qed
  then have "map_each (claim_job now) (map j_id ds) ?js
      = Inr (map claim_view ds, map (mark_jobs now (j_id ` set ds)) ?js)"
    using Cons.prems(2) by (intro Cons.IH [OF inv1]) auto
  then show ?case by (simp add: andthen_def step ret_def comp_def)
qed

lemma earliest_due_in: "j \<in> set (earliest_due now n js) \<Longrightarrow> j \<in> set js \<and> due_job now j"
  using set_order_limit_subset unfolding earliest_due_def by fastforce

lemma earliest_due_ids: "jobs_inv js \<Longrightarrow> distinct (map j_id (earliest_due now n js))"
  unfolding earliest_due_def
  by (intro distinct_order_limit) (simp add: jobs_inv_def distinct_map_filter)

lemma claim_due_run:
  assumes "jobs_inv js" "n \<noteq> 0"
  shows "claim_due now n js = Inr (map claim_view (earliest_due now n js),
    map (mark_jobs now (j_id ` set (earliest_due now n js))) js)"
proof -
  have "map_each (claim_job now) (map j_id (earliest_due now n js)) js
      = Inr (map claim_view (earliest_due now n js), map (mark_jobs now (j_id ` set (earliest_due now n js))) js)"
    by (rule claim_jobs_ok [OF assms(1) earliest_due_ids [OF assms(1)]]) (rule earliest_due_in)
  then show ?thesis
    using assms(2)
    by (simp add: claim_due_def andthen_def require_def ret_def reading_def earliest_due_def [symmetric])
qed

text \<open>
  C25. Claiming due alarms always succeeds on a consistent store. It returns the
  earliest due alarms in order of due time (at most as many as requested, all of them
  if there are fewer), marks exactly those as claimed, and leaves every other row as
  it is; an alarm left behind is due no earlier than any alarm returned.
\<close>

theorem alarm_claim_exact:
  assumes inv: "jobs_inv js" and n: "n \<noteq> 0"
  shows "\<exists>cs js'. transaction (claim_due now n) js = (Inr cs, js')
    \<and> cs = map claim_view (earliest_due now n js)
    \<and> js' = map (mark_jobs now (set (map cj_id cs))) js
    \<and> length cs = min n (length (filter (due_job now) js))
    \<and> (\<forall>c \<in> set cs. \<forall>j \<in> set js. due_job now j \<longrightarrow> j_id j \<notin> set (map cj_id cs) \<longrightarrow> cj_due c \<le> j_due j)"
proof -
  let ?ds = "earliest_due now n js"
  have ids: "set (map cj_id (map claim_view ?ds)) = j_id ` set ?ds" by (auto simp: claim_view_def)
  have late: "cj_due (claim_view d) \<le> j_due j"
    if "d \<in> set ?ds" "j \<in> set js" "due_job now j" "j_id j \<notin> j_id ` set ?ds" for d j
  proof -
    have "(j_due d, j_id d) \<le> (j_due j, j_id j)"
      by (rule order_limit_least [of j "filter (due_job now) js" "\<lambda>j. (j_due j, j_id j)" n d])
        (use that in \<open>auto simp: earliest_due_def\<close>)
    then show ?thesis by (auto simp: claim_view_def less_eq_prod_def split: prod.splits)
  qed
  show ?thesis
    by (rule exI [of _ "map claim_view ?ds"], rule exI [of _ "map (mark_jobs now (j_id ` set ?ds)) js"])
      (use claim_due_run [OF inv n, of now] late ids in
        \<open>auto simp: transaction_def earliest_due_def\<close>)
qed

definition sample_token :: string where
  "sample_token = ''row-token-000001''"

definition sample_job :: job_row where
  "sample_job = \<lparr>j_id = 5, j_namespace = 1, j_object = 2, j_generation = 1, j_token = sample_token,
     j_due = 1000, j_version = 3, j_execution = 1, j_state = Scheduled, j_retry = 0, j_error = None,
     j_created = 0, j_updated = 0\<rparr>"

definition sample_jobs :: jobs where
  "sample_jobs = [sample_job\<lparr>j_id := 4, j_object := 9, j_due := 3000\<rparr>, sample_job]"

definition sample_projection :: alarm_projection where
  "sample_projection = \<lparr>ap_namespace = 1, ap_object = 2, ap_generation = 1,
     ap_token = ''row-token-000002'', ap_due = 8000, ap_version = 3, ap_execution = 1, ap_retry = 0\<rparr>"

lemma sample_token_length [simp]: "sql_length sample_token = 16"
  by (simp add: sql_length_def sample_token_def)

lemma sample_jobs_inv: "jobs_inv sample_jobs"
  by (simp add: jobs_inv_def sample_jobs_def sample_job_def job_key_def job_checks_def)

theorem alarm_claim_exact_witness:
  "\<exists>cs js'. transaction (claim_due 2000 10) sample_jobs = (Inr cs, js') \<and> map cj_id cs = [5]"
proof -
  have "map cj_id (map claim_view (earliest_due 2000 10 sample_jobs)) = [5]"
    by (simp add: earliest_due_def order_limit_def due_job_def sample_jobs_def sample_job_def claim_view_def)
  then show ?thesis
    using alarm_claim_exact [OF sample_jobs_inv, of 10 2000] by auto
qed

section \<open>Claims are exclusive\<close>

definition held_jobs :: "jobs \<Rightarrow> nat set" where
  "held_jobs js = j_id ` {j \<in> set js. j_state j = JobClaimed}"

lemma claim_due_Inr:
  assumes "jobs_inv js" "transaction (claim_due now n) js = (Inr cs, js')"
  shows "n \<noteq> 0" "cs = map claim_view (earliest_due now n js)"
    "js' = map (mark_jobs now (j_id ` set (earliest_due now n js))) js"
proof -
  show n: "n \<noteq> 0"
    using assms(2) by (auto simp: transaction_def claim_due_def andthen_def require_def throw_def ret_def
        split: if_splits)
  show "cs = map claim_view (earliest_due now n js)"
    "js' = map (mark_jobs now (j_id ` set (earliest_due now n js))) js"
    using assms(2) claim_due_run [OF assms(1) n, of now] by (simp_all add: transaction_def)
qed

lemma held_mark: "held_jobs (map (mark_jobs now ids) js) = held_jobs js \<union> (ids \<inter> j_id ` set js)"
proof -
  have "j_state (mark_jobs now ids j) = JobClaimed \<longleftrightarrow> j_id j \<in> ids \<or> j_state j = JobClaimed" for j
    by (simp add: mark_jobs_def)
  then have "{j \<in> set (map (mark_jobs now ids) js). j_state j = JobClaimed}
      = mark_jobs now ids ` {j \<in> set js. j_id j \<in> ids \<or> j_state j = JobClaimed}" by auto
  then show ?thesis by (auto simp: held_jobs_def image_image)
qed

interpretation alarm_claims: claim_store
  "\<lambda>(now, n). transaction (claim_due now n)" snd "\<lambda>c. [cj_id c]" held_jobs jobs_inv
proof unfold_locales
  fix s s' :: jobs and a :: "int \<times> nat" and cs
  assume inv: "jobs_inv s" and run: "(case a of (now, n) \<Rightarrow> transaction (claim_due now n)) s = (Inr cs, s')"
  obtain now n where a: "a = (now, n)" by fastforce
  let ?ds = "earliest_due now n s"
  note r = claim_due_Inr [OF inv run [unfolded a, simplified]]
  have ids: "concat (map (\<lambda>c. [cj_id c]) cs) = map j_id ?ds"
    by (simp add: r(2) claim_view_def comp_def)
  have "j \<in> set s \<and> j_state j = Scheduled" if "j \<in> set ?ds" for j
    using earliest_due_in [OF that] by (simp add: due_job_def)
  then have "held_jobs s \<inter> j_id ` set ?ds = {}" "j_id ` set ?ds \<subseteq> j_id ` set s"
    using job_id_inj [OF inv] by (auto simp: held_jobs_def) (metis job_state.distinct(1))
  moreover have "jobs_inv s'"
    using transaction_inv [OF keeps_alarm(4) inv, of now n] run a by simp
  ultimately show "jobs_inv s' \<and> distinct (concat (map (\<lambda>c. [cj_id c]) cs))
      \<and> held_jobs s \<inter> set (concat (map (\<lambda>c. [cj_id c]) cs)) = {}
      \<and> held_jobs s' = held_jobs s \<union> set (concat (map (\<lambda>c. [cj_id c]) cs)) \<and> length cs \<le> snd a"
    unfolding ids using earliest_due_ids [OF inv, of now n] r a
    by (auto simp: held_mark earliest_due_def)
next
  fix s s' :: jobs and a :: "int \<times> nat" and e
  show "(case a of (now, n) \<Rightarrow> transaction (claim_due now n)) s = (Inl e, s') \<Longrightarrow> s' = s"
    by (auto simp: transaction_def split: sum.splits prod.splits)
qed

section \<open>The store as a map\<close>

record alarm =
  a_token :: string
  a_due :: int
  a_retry :: nat
  a_version :: nat
  a_execution :: nat
  a_state :: job_state

definition alarm_of :: "job_row \<Rightarrow> alarm" where
  "alarm_of j = \<lparr>a_token = j_token j, a_due = j_due j, a_retry = j_retry j, a_version = j_version j,
     a_execution = j_execution j, a_state = j_state j\<rparr>"

definition alarms :: "jobs \<Rightarrow> object_key \<Rightarrow> alarm option" where
  "alarms js = map_of (map (\<lambda>j. (job_key j, alarm_of j)) js)"

lemma alarms_iff:
  assumes "jobs_inv js"
  shows "alarms js k = Some a \<longleftrightarrow> (\<exists>j \<in> set js. job_key j = k \<and> alarm_of j = a)"
proof -
  have "distinct (map fst (map (\<lambda>j. (job_key j, alarm_of j)) js))"
    using assms by (simp add: jobs_inv_def comp_def)
  then show ?thesis
    unfolding alarms_def by (subst map_of_eq_Some_iff) (auto simp: image_iff)
qed

lemma alarms_None: "alarms js k = None \<longleftrightarrow> k \<notin> job_key ` set js"
  by (simp add: alarms_def map_of_eq_None_iff image_image)

lemma alarms_find: "alarms js k = map_option alarm_of (List.find (\<lambda>j. job_key j = k) js)"
  by (induction js) (auto simp: alarms_def)

lemma find_map_key: "(\<And>j. job_key (g j) = job_key j) \<Longrightarrow>
    List.find (\<lambda>j. job_key j = k) (map g js) = map_option g (List.find (\<lambda>j. job_key j = k) js)"
  by (induction js) auto

lemma alarms_update:
  assumes "\<And>j. job_key (f j) = job_key j" "List.find (\<lambda>j. job_key j = k) js = Some j0"
  shows "alarms (map (\<lambda>j. if job_key j = k then f j else j) js) = (alarms js)(k \<mapsto> alarm_of (f j0))"
proof
  fix k'
  have "alarms (map (\<lambda>j. if job_key j = k then f j else j) js) k'
      = map_option (\<lambda>j. alarm_of (if job_key j = k then f j else j)) (List.find (\<lambda>j. job_key j = k') js)"
    unfolding alarms_find
    by (subst find_map_key) (auto simp: assms(1) option.map_comp comp_def)
  also have "\<dots> = ((alarms js)(k \<mapsto> alarm_of (f j0))) k'"
  proof (cases "k' = k")
    case True
    then show ?thesis using assms(2) by (auto simp: find_Some_iff)
  next
    case False
    have key: "job_key j = k'" if "List.find (\<lambda>j. job_key j = k') js = Some j" for j
      using that by (auto simp: find_Some_iff)
    show ?thesis
      using False key by (cases "List.find (\<lambda>j. job_key j = k') js") (auto simp: alarms_find)
  qed
  finally show "alarms (map (\<lambda>j. if job_key j = k then f j else j) js) k' = \<dots>" .
qed

lemma alarms_append: "job_key j \<notin> job_key ` set js \<Longrightarrow> alarms (js @ [j]) = (alarms js)(job_key j \<mapsto> alarm_of j)"
  by (induction js) (auto simp: alarms_def fun_upd_twist)

lemma alarms_delete:
  assumes inv: "jobs_inv js"
  shows "alarms (filter (\<lambda>j. \<not> (job_key j = k \<and> p j)) js) =
    (if \<exists>j \<in> set js. job_key j = k \<and> p j then (alarms js)(k := None) else alarms js)"
proof -
  let ?left = "filter (\<lambda>j. \<not> (job_key j = k \<and> p j)) js"
  have left: "jobs_inv ?left" by (rule delete_jobs_inv [OF inv, of "\<lambda>j. job_key j = k \<and> p j"]) (simp add: delete_jobs_def)
  let ?hit = "\<exists>j \<in> set js. job_key j = k \<and> p j"
  have some: "alarms ?left k' = Some x \<longleftrightarrow> alarms js k' = Some x \<and> \<not> (k' = k \<and> ?hit)" for k' x
  proof (cases "k' = k")
    case True
    then show ?thesis
      using job_key_inj [OF inv] unfolding alarms_iff [OF inv] alarms_iff [OF left] by auto
  next
    case False
    then show ?thesis unfolding alarms_iff [OF inv] alarms_iff [OF left] by auto
  qed
  show ?thesis
  proof
    fix k'
    show "alarms ?left k' = (if ?hit then (alarms js)(k := None) else alarms js) k'"
    proof (cases "alarms ?left k'")
      case None
      then have "alarms js k' \<noteq> Some x \<or> (k' = k \<and> ?hit)" for x using some [of k' x] by auto
      then have "alarms js k' = None \<or> (k' = k \<and> ?hit)" by (cases "alarms js k'") auto
      then show ?thesis using None by auto
    next
      case (Some x)
      then show ?thesis using some [of k' x] by auto
    qed
  qed
qed

definition alarm_of_projection :: "alarm_projection \<Rightarrow> alarm" where
  "alarm_of_projection p = \<lparr>a_token = ap_token p, a_due = ap_due p, a_retry = ap_retry p,
     a_version = ap_version p, a_execution = ap_execution p, a_state = Scheduled\<rparr>"

definition projection_ok :: "alarm_projection \<Rightarrow> bool" where
  "projection_ok p \<longleftrightarrow> validate_projection p = Inr () \<and> 16 \<le> sql_length (ap_token p)
     \<and> int (ap_generation p) \<le> i64_max \<and> int (ap_execution p) \<le> i64_max"

lemma sql_length_le: "sql_length s \<le> length s"
  by (simp add: sql_length_def)

lemma upsert_alarm_run:
  assumes inv: "jobs_inv js" and p: "projection_ok p" and fresh: "fresh \<notin> j_id ` set js"
  obtains js' where "transaction (upsert_alarm fresh p now) js = (Inr (), js')"
    "alarms js' = (alarms js)(projection_key p \<mapsto> alarm_of_projection p)"
    "\<And>j. j \<in> set js' \<Longrightarrow> job_key j = projection_key p \<Longrightarrow> j_state j = Scheduled \<and> j_token j = ap_token p"
proof -
  let ?new = "new_job fresh p now"
  let ?f = "\<lambda>j. j\<lparr>j_token := ap_token p, j_due := ap_due p, j_version := ap_version p,
      j_execution := ap_execution p, j_state := Scheduled, j_retry := ap_retry p, j_error := None,
      j_updated := now\<rparr>"
  have key: "job_key ?new = projection_key p" by (simp add: new_job_def job_key_def projection_key_def)
  have sel: "j_token ?new = ap_token p" "j_due ?new = ap_due p" "j_version ?new = ap_version p"
    "j_execution ?new = ap_execution p" "j_retry ?new = ap_retry p" "j_updated ?new = now" "j_id ?new = fresh"
    "j_state ?new = Scheduled" "alarm_of ?new = alarm_of_projection p"
    by (simp_all add: new_job_def alarm_of_def alarm_of_projection_def)
  have ok: "job_checks ?new" "ap_due p > 0" "ap_retry p \<le> 6" "16 \<le> sql_length (ap_token p)"
    "sql_length (ap_token p) \<le> 128"
    using p sql_length_le [of "ap_token p"]
    by (auto simp: projection_ok_def validate_projection_def validate_token_def job_checks_def new_job_def
        result_simps split: if_splits)
  have head: "upsert_alarm fresh p now js = (case upsert_job ?new js of Inl e \<Rightarrow> Inl (map_sql_error e)
      | Inr (n, js') \<Rightarrow> Inr ((), js'))"
    using p by (simp add: upsert_alarm_def projection_ok_def andthen_def lift_def stmt_def ret_def job_i64_def
        i64_of_u64_def split: sum.split prod.split)
  show thesis
  proof (cases "list_ex (\<lambda>j. job_key j = job_key ?new) js")
    case True
    then obtain j0 where j0: "j0 \<in> set js" "job_key j0 = projection_key p" by (auto simp: list_ex_iff key)
    let ?js' = "map (\<lambda>j. if job_key j = projection_key p then ?f j else j) js"
    have "j_generation j \<ge> 1" if "j \<in> set js" for j
      using inv that by (auto simp: jobs_inv_def list_all_iff job_checks_def)
    then have ups: "\<exists>n. upsert_job ?new js = Inr (n, ?js')"
      using True ok by (auto simp: upsert_job_def key sel update_jobs_def list_all_iff job_checks_def)
    have "List.find (\<lambda>j. job_key j = projection_key p) js = Some j0"
      by (rule find_unique) (use j0 job_key_inj [OF inv] in auto)
    then have "alarms ?js' = (alarms js)(projection_key p \<mapsto> alarm_of (?f j0))"
      by (intro alarms_update) simp_all
    then show thesis
      using ups head
      by (intro that [of ?js'])
        (auto simp: transaction_def alarm_of_def alarm_of_projection_def split: if_splits)
  next
    case False
    then have new: "job_key ?new \<notin> job_key ` set js" by (auto simp: list_ex_iff)
    have "upsert_job ?new js = Inr (1, js @ [?new])"
      using False ok fresh by (auto simp: upsert_job_def list_ex_iff sel)
    then show thesis
      using head alarms_append [OF new] new key
      by (intro that [of "js @ [?new]"]) (auto simp: transaction_def sel image_iff)
  qed
qed

text \<open>
  C15. The alarm table is a map from object generations to alarms: projecting an alarm
  overwrites exactly the entry of its object generation with a scheduled alarm,
  deleting with a token removes the entry exactly when the token still matches, and
  deleting an object generation removes its entry whatever its token.
\<close>

theorem alarm_store_refines_map:
  assumes inv: "jobs_inv js"
  shows "(projection_ok p \<and> fresh \<notin> j_id ` set js \<longrightarrow>
      fst (transaction (upsert_alarm fresh p now) js) = Inr ()
      \<and> alarms (snd (transaction (upsert_alarm fresh p now) js))
        = (alarms js)(projection_key p \<mapsto> alarm_of_projection p))
    \<and> (validate_token token = Inr () \<and> int g \<le> i64_max \<longrightarrow>
      fst (transaction (delete_alarm_exact ns obj g token) js)
        = Inr (\<exists>a. alarms js (ns, obj, g) = Some a \<and> a_token a = token)
      \<and> alarms (snd (transaction (delete_alarm_exact ns obj g token) js))
        = (if \<exists>a. alarms js (ns, obj, g) = Some a \<and> a_token a = token
           then (alarms js)((ns, obj, g) := None) else alarms js))
    \<and> (int g \<le> i64_max \<longrightarrow>
      alarms (snd (transaction (delete_object ns obj g) js)) = (alarms js)((ns, obj, g) := None))"
proof -
  have up: "projection_ok p \<and> fresh \<notin> j_id ` set js \<longrightarrow>
      fst (transaction (upsert_alarm fresh p now) js) = Inr ()
      \<and> alarms (snd (transaction (upsert_alarm fresh p now) js))
        = (alarms js)(projection_key p \<mapsto> alarm_of_projection p)"
    by (auto elim: upsert_alarm_run [OF inv, of p fresh now])
  let ?k = "(ns, obj, g)"
  have hit: "(\<exists>j \<in> set js. job_key j = ?k \<and> j_token j = token) \<longleftrightarrow> (\<exists>a. alarms js ?k = Some a \<and> a_token a = token)"
    by (auto simp: alarms_iff [OF inv] alarm_of_def)
  have one: "length (filter (\<lambda>j. job_key j = ?k \<and> j_token j = token) js) = 1
      \<longleftrightarrow> (\<exists>j \<in> set js. job_key j = ?k \<and> j_token j = token)"
  proof
    assume "\<exists>j \<in> set js. job_key j = ?k \<and> j_token j = token"
    then obtain j where j: "j \<in> set js" "job_key j = ?k" "j_token j = token" by blast
    then have "filter (\<lambda>x. job_key x = job_key j \<and> j_token x = token) js = [j]"
      using inv by (intro filter_by_key) (simp_all add: jobs_inv_def)
    then show "length (filter (\<lambda>j. job_key j = ?k \<and> j_token j = token) js) = 1" by (simp add: j(2))
  next
    assume "length (filter (\<lambda>j. job_key j = ?k \<and> j_token j = token) js) = 1"
    then show "\<exists>j \<in> set js. job_key j = ?k \<and> j_token j = token"
      by (auto simp: length_Suc_conv filter_eq_Cons_iff)
  qed
  have exact: "validate_token token = Inr () \<and> int g \<le> i64_max \<longrightarrow>
      fst (transaction (delete_alarm_exact ns obj g token) js)
        = Inr (\<exists>a. alarms js ?k = Some a \<and> a_token a = token)
      \<and> alarms (snd (transaction (delete_alarm_exact ns obj g token) js))
        = (if \<exists>a. alarms js ?k = Some a \<and> a_token a = token
           then (alarms js)(?k := None) else alarms js)"
    using one hit alarms_delete [OF inv, of ?k "\<lambda>j. j_token j = token"]
    by (simp add: transaction_def delete_alarm_exact_def andthen_def lift_def stmt_def ret_def delete_jobs_def
        job_i64_def i64_of_u64_def)
  have "alarms (filter (\<lambda>j. job_key j \<noteq> ?k) js) = (alarms js)(?k := None)"
    using alarms_delete [OF inv, of ?k "\<lambda>_. True"] alarms_None [of js ?k]
    by (auto simp: fun_upd_idem image_iff)
  then have all: "int g \<le> i64_max \<longrightarrow>
      alarms (snd (transaction (delete_object ns obj g) js)) = (alarms js)(?k := None)"
    by (simp add: transaction_def delete_object_def andthen_def lift_def stmt_def delete_jobs_def
        job_i64_def i64_of_u64_def)
  from up exact all show ?thesis by (intro conjI)
qed

lemma sample_projection_ok: "projection_ok sample_projection"
  by (simp add: projection_ok_def sample_projection_def validate_projection_def validate_token_def sql_length_def
      is_ascii_control_def is_ascii_whitespace_def i64_max_def)

theorem alarm_store_refines_map_witness:
  "alarms (snd (transaction (upsert_alarm 6 sample_projection 500) sample_jobs)) (1, 2, 1)
     = Some (alarm_of_projection sample_projection)
   \<and> fst (transaction (delete_alarm_exact 1 2 1 sample_token) sample_jobs) = Inr True"
proof -
  have "6 \<notin> j_id ` set sample_jobs" by (simp add: sample_jobs_def sample_job_def)
  moreover have "projection_key sample_projection = (1, 2, 1)"
    by (simp add: projection_key_def sample_projection_def)
  moreover have "validate_token sample_token = Inr ()" "int 1 \<le> i64_max"
    by (simp_all add: validate_token_def sample_token_def is_ascii_control_def is_ascii_whitespace_def i64_max_def)
  moreover have "\<exists>a. alarms sample_jobs (1, 2, 1) = Some a \<and> a_token a = sample_token"
    by (simp add: alarms_def sample_jobs_def sample_job_def job_key_def alarm_of_def)
  ultimately show ?thesis
    using alarm_store_refines_map [OF sample_jobs_inv, of sample_projection 6 500 sample_token 1 1 2]
      sample_projection_ok by (simp only: simp_thms fun_upd_same)
qed

section \<open>Fencing\<close>

lemma upsert_keeps_ids:
  assumes inv: "jobs_inv js" and run: "transaction (upsert_alarm fresh p now) js = (Inr (), js')"
    and "j \<in> set js" "x \<in> set js'" "j_id x = j_id j"
  shows "job_key x = job_key j"
proof -
  obtain n where ups: "upsert_job (new_job fresh p now) js = Inr (n, js')"
    using run by (auto simp: transaction_def upsert_alarm_def tx_simps split: sum.splits prod.splits)
  show ?thesis
  proof (cases "x \<in> set js")
    case True
    then show ?thesis using job_id_inj [OF inv True assms(3,5)] by simp
  next
    case False
    then obtain y where "y \<in> set js" "j_id x = j_id y" "job_key x = job_key y"
      using ups assms(3-5)
      by (auto simp: upsert_job_def update_jobs_def list_ex_iff split: if_splits)
    then show ?thesis using job_id_inj [OF inv _ assms(3)] assms(5) by metis
  qed
qed

lemma finish_claim_stale:
  assumes "\<And>j. j \<in> set js \<Longrightarrow> \<not> claimed_as c j"
    and "case res of Reschedule due retry err \<Rightarrow> due > 0 \<and> retry \<le> 6 | _ \<Rightarrow> True"
  shows "transaction (finish_claim c res now) js = (Inr False, js)"
proof -
  have none: "filter (claimed_as c) js = []" "filter (\<lambda>j. \<not> claimed_as c j) js = js"
    using assms(1) by (auto simp: filter_empty_conv)
  have upd: "update_jobs (claimed_as c) f js = Inr (0, js)" for f
    using assms(1) none by (auto simp: update_jobs_def list_all_iff intro!: map_idI)
  show ?thesis
    using assms(2) none
    by (cases res) (auto simp: transaction_def finish_claim_def andthen_def stmt_def ret_def delete_jobs_def upd)
qed


definition sample_claimed :: jobs where
  "sample_claimed = [sample_job\<lparr>j_state := JobClaimed\<rparr>]"


end
