(* ===== verification/Cron_Schedule.thy ===== *)
theory Cron_Schedule
  imports OC_Prelude "HOL-Library.Sublist"
begin

text \<open>
  Cron expressions and their logical slots (\<open>crates/core/src/cron.rs\<close>). The \<open>croner\<close>
  parser and its field matchers and the \<open>jiff\<close> calendar are parameters, gathered in the
  record \<open>croner\<close>: \<open>compile\<close> parses the rewritten expression, \<open>civil\<close> is the UTC civil
  time of a timestamp, the matchers may fail. Text is a list of UTF-8 bytes.
\<close>

section \<open>Text\<close>

text \<open>UTF-8 encodings of the characters with the Unicode property White_Space.\<close>

definition white_space :: "string list" where
  "white_space = map (map char_of)
     ([[9], [10], [11], [12], [13], [32], [194, 133], [194, 160], [225, 154, 128],
       [226, 128, 168], [226, 128, 169], [226, 128, 175], [226, 129, 159], [227, 128, 128 :: nat]]
      @ map (\<lambda>i. [226, 128, 128 + i]) [0..<11])"

definition trimmed :: "string \<Rightarrow> bool" where
  "trimmed s \<longleftrightarrow> \<not> list_ex (\<lambda>w. prefix w s \<or> suffix w s) white_space"

fun split_at :: "('a \<Rightarrow> bool) \<Rightarrow> 'a list \<Rightarrow> 'a list list" where
  "split_at p [] = [[]]"
| "split_at p (c # cs) =
    (if p c then [] # split_at p cs
     else (case split_at p cs of [] \<Rightarrow> [[c]] | x # xs \<Rightarrow> (c # x) # xs))"

definition split_ascii_whitespace :: "string \<Rightarrow> string list" where
  "split_ascii_whitespace s = filter (\<lambda>f. f \<noteq> []) (split_at is_ascii_whitespace s)"

definition to_upper :: "char \<Rightarrow> char" where
  "to_upper c = (if 97 \<le> (of_char c :: nat) \<and> (of_char c :: nat) \<le> 122
                 then char_of ((of_char c :: nat) - 32) else c)"

fun join :: "string \<Rightarrow> string list \<Rightarrow> string" where
  "join sep [] = []"
| "join sep [x] = x"
| "join sep (x # y # zs) = x @ sep @ join sep (y # zs)"

definition split_once :: "char \<Rightarrow> string \<Rightarrow> (string \<times> string) option" where
  "split_once c s = (if c \<in> set s
     then Some (takeWhile (\<lambda>x. x \<noteq> c) s, tl (dropWhile (\<lambda>x. x \<noteq> c) s)) else None)"

section \<open>The syntax guard\<close>

definition is_digit :: "char \<Rightarrow> bool" where
  "is_digit c \<longleftrightarrow> 48 \<le> (of_char c :: nat) \<and> (of_char c :: nat) \<le> 57"

definition number :: "string \<Rightarrow> bool" where
  "number s \<longleftrightarrow> s \<noteq> [] \<and> list_all is_digit s"

definition month :: "string \<Rightarrow> bool" where
  "month s \<longleftrightarrow> number s \<or> s \<in> set [''JAN'', ''FEB'', ''MAR'', ''APR'', ''MAY'', ''JUN'', ''JUL'',
     ''AUG'', ''SEP'', ''OCT'', ''NOV'', ''DEC'']"

definition weekday :: "string \<Rightarrow> bool" where
  "weekday s \<longleftrightarrow> number s \<or> s \<in> set [''SUN'', ''MON'', ''TUE'', ''WED'', ''THU'', ''FRI'', ''SAT'']"

definition base_item :: "(string \<Rightarrow> bool) \<Rightarrow> string \<Rightarrow> bool" where
  "base_item v s \<longleftrightarrow> s = ''*'' \<or> (case split_once CHR ''-'' s of None \<Rightarrow> v s | Some (a, b) \<Rightarrow> v a \<and> v b)"

text \<open>\<open>(\<^verbatim>\<open>\*\<close>|value(-value)?)(/[0-9]+)?\<close>\<close>

definition ordinary :: "(string \<Rightarrow> bool) \<Rightarrow> string \<Rightarrow> bool" where
  "ordinary v s = (case split_once CHR ''/'' s of
     None \<Rightarrow> base_item v s | Some (a, b) \<Rightarrow> base_item v a \<and> number b)"

definition dom_item :: "string \<Rightarrow> bool" where
  "dom_item s \<longleftrightarrow> ordinary number s \<or> s = ''L'' \<or> s = ''LW''
     \<or> (s \<noteq> [] \<and> last s = CHR ''W'' \<and> number (butlast s))"

text \<open>The occurrence of a weekday in its month: \<open>0*[1-5]\<close>.\<close>

definition nth_weekday :: "string \<Rightarrow> bool" where
  "nth_weekday s \<longleftrightarrow> s \<noteq> [] \<and> list_all (\<lambda>c. c = CHR ''0'') (butlast s) \<and> last s \<in> set ''12345''"

definition dow_item :: "string \<Rightarrow> bool" where
  "dow_item s \<longleftrightarrow> ordinary weekday s
     \<or> (s \<noteq> [] \<and> last s = CHR ''L'' \<and> weekday (butlast s))
     \<or> (case split_once CHR ''#'' s of None \<Rightarrow> False | Some (a, b) \<Rightarrow> weekday a \<and> nth_weekday b)"

definition field_item :: "nat \<Rightarrow> string \<Rightarrow> bool" where
  "field_item i = (if i = 2 then dom_item else if i = 3 then ordinary month
                   else if i = 4 then dow_item else ordinary number)"

definition items :: "string \<Rightarrow> string list" where
  "items f = split_at (\<lambda>c. c = CHR '','') f"

definition cloudflare_syntax :: "string list \<Rightarrow> bool" where
  "cloudflare_syntax fields \<longleftrightarrow> length fields = 5
     \<and> list_all (\<lambda>i. list_all (field_item i) (items (fields ! i))) [0..<5]"

fun digits_value :: "nat \<Rightarrow> string \<Rightarrow> nat" where
  "digits_value acc [] = acc"
| "digits_value acc (c # cs) = digits_value (10 * acc + (of_char c - 48)) cs"

text \<open>\<open>str::parse::<u8>\<close>: an optional plus sign and digits of a value below 256.\<close>

definition parse_u8 :: "string \<Rightarrow> nat option" where
  "parse_u8 s = (let ds = (case s of c # cs \<Rightarrow> if c = CHR ''+'' then cs else s | [] \<Rightarrow> s)
     in if number ds \<and> digits_value 0 ds \<le> 255 then Some (digits_value 0 ds) else None)"

definition step_fits :: "string \<Rightarrow> bool" where
  "step_fits item = (case split_once CHR ''/'' item of None \<Rightarrow> True | Some (a, b) \<Rightarrow> parse_u8 b \<noteq> None)"

section \<open>Parsing\<close>

record ('c, 't) croner =
  compile :: "string \<Rightarrow> 'c option"
  civil :: "int \<Rightarrow> 't option"
  minute_match :: "'c \<Rightarrow> 't \<Rightarrow> bool option"
  hour_match :: "'c \<Rightarrow> 't \<Rightarrow> bool option"
  month_match :: "'c \<Rightarrow> 't \<Rightarrow> bool option"
  day_match :: "'c \<Rightarrow> 't \<Rightarrow> bool option"
  is_last_day :: "'t \<Rightarrow> bool"

record 'c cron_schedule =
  normalized :: string
  cron :: 'c

definition field_range :: "nat \<Rightarrow> string" where
  "field_range i = [''0-59'', ''0-23'', ''1-31'', ''1-12'', ''1-7''] ! i"

definition rewrite_item :: "nat \<Rightarrow> string \<Rightarrow> string \<Rightarrow> string" where
  "rewrite_item i field item =
    (if item = ''*'' \<and> field \<noteq> ''*'' then field_range i
     else if i = 4 \<and> prefix ''*/'' item then ''1-7/'' @ drop 2 item
     else item)"

definition parser_expression :: "string list \<Rightarrow> string" where
  "parser_expression fs =
     join '' '' (map (\<lambda>(i, f). join '','' (map (rewrite_item i f) (items f))) (zip [0..<length fs] fs))"

definition parse :: "('c, 't) croner \<Rightarrow> string \<Rightarrow> 'c cron_schedule result" where
  "parse env expression =
    (if expression = [] \<or> length expression > 256 \<or> \<not> trimmed expression then Inl CronExpressionInvalid
     else let fs = split_ascii_whitespace expression
     in if length fs \<noteq> 5
        then Inl (if length fs = 6 \<or> length fs = 7 then CronExpressionUnsupported
                  else CronExpressionInvalid)
        else if list_ex (\<lambda>f. CHR ''?'' \<in> set f) fs then Inl CronExpressionUnsupported
        else let upper = map (map to_upper) fs
        in if \<not> cloudflare_syntax upper
              \<or> list_ex (\<lambda>f. list_ex (\<lambda>item. \<not> step_fits item) (items f)) fs
           then Inl CronExpressionInvalid
           else (case compile env (parser_expression upper) of
                   None \<Rightarrow> Inl CronExpressionInvalid
                 | Some c \<Rightarrow> Inr \<lparr>normalized = join '' '' upper, cron = c\<rparr>))"

section \<open>Slots\<close>

definition MINUTE_MS :: int where "MINUTE_MS = 60000"
definition SEARCH_YEARS :: int where "SEARCH_YEARS = 12"

definition search_minutes :: int where
  "search_minutes = SEARCH_YEARS * 366 * 24 * 60"

text \<open>The \<open>L\<close> items of the day-of-month field, which \<open>croner\<close> merges with \<open>LW\<close>.\<close>

definition includes_last_day :: "'c cron_schedule \<Rightarrow> bool" where
  "includes_last_day s =
    (let fs = split_at (\<lambda>c. c = CHR '' '') (normalized s)
     in 2 < length fs \<and> ''L'' \<in> set (items (fs ! 2)))"

definition and_then :: "bool option \<Rightarrow> bool option \<Rightarrow> bool option" where
  "and_then a b = (case a of None \<Rightarrow> None | Some False \<Rightarrow> Some False | Some True \<Rightarrow> b)"

definition fields_match :: "('c, 't) croner \<Rightarrow> 'c cron_schedule \<Rightarrow> 't \<Rightarrow> bool option" where
  "fields_match env s t =
     and_then (minute_match env (cron s) t) (and_then (hour_match env (cron s) t)
       (and_then (month_match env (cron s) t)
         (case day_match env (cron s) t of None \<Rightarrow> None
          | Some b \<Rightarrow> Some (b \<or> (includes_last_day s \<and> is_last_day env t)))))"

text \<open>Whether the minute that starts at \<open>timestamp\<close> is a slot.\<close>

definition slot :: "('c, 't) croner \<Rightarrow> 'c cron_schedule \<Rightarrow> int \<Rightarrow> bool result" where
  "slot env s timestamp =
     rbind (ok_or CronExpressionInvalid (civil env (timestamp mod (146097 * 24 * 60 * MINUTE_MS))))
       (\<lambda>t. ok_or CronExpressionInvalid (fields_match env s t))"

function search :: "('c, 't) croner \<Rightarrow> 'c cron_schedule \<Rightarrow> int \<Rightarrow> int \<Rightarrow> int result" where
  "search env s limit candidate =
    (if candidate \<le> limit then
       rbind (ok_or CronExpressionInvalid (checked_mul_i64 candidate MINUTE_MS)) (\<lambda>timestamp.
       case slot env s timestamp of
         Inl e \<Rightarrow> Inl e
       | Inr True \<Rightarrow> Inr timestamp
       | Inr False \<Rightarrow>
           (case checked_add_i64 candidate 1 of
              None \<Rightarrow> Inl CronExpressionInvalid
            | Some _ \<Rightarrow> search env s limit (candidate + 1)))
     else Inl CronExpressionInvalid)"
  by pat_completeness auto

termination search
  by (relation "measure (\<lambda>(env, s, limit, c). nat (limit + 1 - c))") auto

definition next_from_minute :: "('c, 't) croner \<Rightarrow> 'c cron_schedule \<Rightarrow> int \<Rightarrow> int result" where
  "next_from_minute env s candidate =
     rbind (ok_or CronExpressionInvalid (checked_add_i64 candidate search_minutes)) (\<lambda>limit.
       search env s limit candidate)"

definition next_after_ms :: "('c, 't) croner \<Rightarrow> 'c cron_schedule \<Rightarrow> int \<Rightarrow> int result" where
  "next_after_ms env s after =
    (if after < 0 then Inl CronExpressionInvalid
     else next_from_minute env s (after div MINUTE_MS + 1))"

section \<open>The search loop\<close>

declare search.simps [simp del]

lemma search_Inr_facts:
  "search env s limit c = Inr t \<Longrightarrow>
     \<exists>k. c \<le> k \<and> k \<le> limit \<and> t = k * MINUTE_MS \<and> slot env s t = Inr True
       \<and> (\<forall>i. c \<le> i \<and> i < k \<longrightarrow> slot env s (i * MINUTE_MS) = Inr False)"
proof (induction env s limit c rule: search.induct)
  case (1 env s limit c)
  from "1.prems" have le: "c \<le> limit" and mul: "checked_mul_i64 c MINUTE_MS = Some (c * MINUTE_MS)"
    by (subst (asm) search.simps, auto simp: result_simps rust_arith split: if_splits)+
  consider (hit) "slot env s (c * MINUTE_MS) = Inr True" "t = c * MINUTE_MS"
    | (miss) "slot env s (c * MINUTE_MS) = Inr False" "checked_add_i64 c 1 \<noteq> None"
        "search env s limit (c + 1) = Inr t"
    using "1.prems" le mul
    by (subst (asm) search.simps) (auto split: sum.splits bool.splits option.splits)
  then show ?case
  proof cases
    case hit
    then show ?thesis using le by (intro exI [of _ c]) auto
  next
    case miss
    obtain a where a: "checked_add_i64 c 1 = Some a" using miss(2) by blast
    obtain k where k: "c + 1 \<le> k" "k \<le> limit" "t = k * MINUTE_MS" "slot env s t = Inr True"
      "\<forall>i. c + 1 \<le> i \<and> i < k \<longrightarrow> slot env s (i * MINUTE_MS) = Inr False"
      using "1.IH" [OF le miss(1) refl a miss(3)] by blast
    have "slot env s (i * MINUTE_MS) = Inr False" if "c \<le> i" "i < k" for i
      using that k(5) miss(1) by (cases "i = c") auto
    with k show ?thesis by (intro exI [of _ k]) auto
  qed
qed

lemma next_after_later: "next_after_ms env s a = Inr t \<Longrightarrow> a < t"
  by (auto simp: next_after_ms_def next_from_minute_def result_simps MINUTE_MS_def
           split: if_splits dest!: search_Inr_facts)

function latest_loop ::
  "('c, 't) croner \<Rightarrow> 'c cron_schedule \<Rightarrow> int \<Rightarrow> int \<Rightarrow> int option \<Rightarrow> int \<Rightarrow> int option result" where
  "latest_loop env s not_before at_or_before latest nxt =
    (if nxt \<le> at_or_before then
       let latest = (if nxt \<ge> not_before then Some nxt else latest)
       in (case next_after_ms env s nxt of
             Inl e \<Rightarrow> Inl e
           | Inr n \<Rightarrow> latest_loop env s not_before at_or_before latest n)
     else Inr latest)"
  by pat_completeness auto

termination latest_loop
  by (relation "measure (\<lambda>(env, s, nb, ab, l, n). nat (ab + 1 - n))") (auto dest: next_after_later)

declare latest_loop.simps [simp del]

definition latest_at_or_before_ms ::
  "('c, 't) croner \<Rightarrow> 'c cron_schedule \<Rightarrow> int \<Rightarrow> int \<Rightarrow> int option result" where
  "latest_at_or_before_ms env s not_before at_or_before =
    (if not_before < 0 \<or> at_or_before < not_before then Inl CronExpressionInvalid
     else rbind (next_from_minute env s (not_before div MINUTE_MS)) (\<lambda>nxt.
       latest_loop env s not_before at_or_before None nxt))"

end
