(* ===== verification/Cron_Store.thy ===== *)
theory Cron_Store
  imports Transactions Cron_Schedule
begin

text \<open>
  The cron store of the scheduler (\<open>crates/storage/src/scheduler/cron.rs\<close> and
  \<open>cron/delivery.rs\<close>): the tables \<open>cron_schedules\<close> and \<open>cron_runs\<close> with their constraints
  and triggers, slot projection, claims, completion and history. Run identifiers are the
  128-bit values of their UUIDs.
\<close>

section \<open>Tables\<close>

record cron_schedule_row =
  cs_activation :: nat
  cs_worker :: nat
  cs_version :: nat
  cs_generation :: nat
  cs_expression :: string
  cs_sha256 :: string
  cs_parser :: nat
  cs_next_fire :: int
  cs_updated :: int

datatype cron_run_state = Ready | Claimed | Complete | Failed | Skipped

datatype cron_unknown_reason =
  TransportTimeout | ConnectionLoss | MalformedResponse | RuntimeGenerationLost

record cron_run_row =
  r_id :: nat
  r_activation :: nat
  r_worker :: nat
  r_scheduled :: int
  r_version :: nat
  r_generation :: nat
  r_expression :: string
  r_state :: cron_run_state
  r_attempt :: nat
  r_no_retry :: bool
  r_next :: "int option"
  r_claimed :: "int option"
  r_first :: "int option"
  r_deadline :: "int option"
  r_unknown :: "cron_unknown_reason option"
  r_error :: "string option"
  r_created :: int
  r_completed :: "int option"

record cron_db =
  cron_instance :: nat
  schedules :: "cron_schedule_row list"
  runs :: "cron_run_row list"

definition DISPATCH_MS :: int where "DISPATCH_MS = 15 * 60 * 1000"

definition cron_terminal :: "cron_run_state \<Rightarrow> bool" where
  "cron_terminal s \<longleftrightarrow> s \<in> {Complete, Failed, Skipped}"

text \<open>A check whose value is NULL passes: a deadline without a value is not compared.\<close>

definition dispatch_check :: "cron_run_row \<Rightarrow> bool" where
  "dispatch_check r = (case r_first r of
     None \<Rightarrow> r_deadline r = None \<and> r_attempt r = 0
   | Some f \<Rightarrow> (case r_deadline r of None \<Rightarrow> True | Some d \<Rightarrow> d = f + 900000))"

definition shape_check :: "cron_run_row \<Rightarrow> bool" where
  "shape_check r \<longleftrightarrow>
     (r_state r = Ready \<and> r_next r \<noteq> None \<and> r_claimed r = None \<and> r_completed r = None)
   \<or> (r_state r = Claimed \<and> r_next r = None \<and> r_claimed r \<noteq> None \<and> r_completed r = None)
   \<or> (cron_terminal (r_state r) \<and> r_next r = None \<and> r_claimed r = None \<and> r_completed r \<noteq> None)"

definition run_checks :: "cron_run_row \<Rightarrow> bool" where
  "run_checks r \<longleftrightarrow> r_scheduled r \<ge> 0 \<and> r_generation r \<ge> 1
     \<and> 1 \<le> sql_length (r_expression r) \<and> sql_length (r_expression r) \<le> 256
     \<and> r_attempt r \<le> 4
     \<and> (case r_error r of None \<Rightarrow> True | Some e \<Rightarrow> 1 \<le> sql_length e \<and> sql_length e \<le> 128)
     \<and> dispatch_check r \<and> shape_check r"

definition run_authority :: "cron_run_row \<Rightarrow> cron_db \<Rightarrow> bool" where
  "run_authority r d \<longleftrightarrow> r_state r = Ready \<and> r_attempt r = 0 \<and> \<not> r_no_retry r
     \<and> r_first r = None \<and> r_deadline r = None \<and> r_unknown r = None
     \<and> list_ex (\<lambda>s. cs_activation s = r_activation r \<and> cs_version s = r_version r
          \<and> cs_generation s = r_generation r \<and> cs_expression s = r_expression r) (schedules d)"

text \<open>\<open>INSERT OR IGNORE\<close>: the guard still aborts; a conflict or a failed check skips the row.\<close>

definition insert_run :: "cron_run_row \<Rightarrow> cron_db \<Rightarrow> sql_error + (nat \<times> cron_db)" where
  "insert_run r d =
    (if \<not> run_authority r d then Inl ConstraintFailed
     else if list_ex (\<lambda>x. r_id x = r_id r
             \<or> (r_activation x = r_activation r \<and> r_scheduled x = r_scheduled r)) (runs d)
          \<or> \<not> run_checks r
     then Inr (0, d)
     else Inr (1, d\<lparr>runs := runs d @ [r]\<rparr>))"

text \<open>Inequality of two columns; with a NULL it is not true.\<close>

definition sql_ne :: "'a option \<Rightarrow> 'a option \<Rightarrow> bool" where
  "sql_ne a b = (case (a, b) of (Some x, Some y) \<Rightarrow> x \<noteq> y | _ \<Rightarrow> False)"

definition identity_guard :: "cron_run_row \<Rightarrow> cron_run_row \<Rightarrow> bool" where
  "identity_guard old new \<longleftrightarrow>
     r_id old = r_id new \<and> r_activation old = r_activation new \<and> r_scheduled old = r_scheduled new
     \<and> r_version old = r_version new \<and> r_generation old = r_generation new
     \<and> r_expression old = r_expression new \<and> r_created old = r_created new
     \<and> \<not> (r_first old \<noteq> None
          \<and> (sql_ne (r_first old) (r_first new) \<or> sql_ne (r_deadline old) (r_deadline new)))"

definition run_transition :: "cron_run_row \<Rightarrow> cron_run_row \<Rightarrow> bool" where
  "run_transition old new \<longleftrightarrow>
     (r_state old = Ready \<and> r_state new = Claimed \<and> r_attempt new = r_attempt old + 1
        \<and> r_no_retry new = r_no_retry old \<and> r_first new \<noteq> None)
   \<or> (r_state old = Claimed \<and> r_state new = Ready \<and> r_attempt new = r_attempt old
        \<and> r_no_retry new = r_no_retry old)
   \<or> (r_state old = Claimed \<and> cron_terminal (r_state new) \<and> r_attempt new = r_attempt old)
   \<or> (r_state old = Ready \<and> r_state new \<in> {Failed, Skipped} \<and> r_attempt new = r_attempt old)
   \<or> (r_state old = Claimed \<and> r_state new = Claimed \<and> r_attempt old = r_attempt new)
   \<or> (r_state old = r_state new \<and> cron_terminal (r_state old) \<and> r_id old = r_id new)"

definition update_runs ::
  "(cron_run_row \<Rightarrow> bool) \<Rightarrow> (cron_run_row \<Rightarrow> cron_run_row) \<Rightarrow> cron_db \<Rightarrow> sql_error + (nat \<times> cron_db)" where
  "update_runs p f d =
    (if list_all (\<lambda>r. p r \<longrightarrow> identity_guard r (f r) \<and> run_transition r (f r) \<and> run_checks (f r)) (runs d)
     then Inr (length (filter p (runs d)), d\<lparr>runs := map (\<lambda>r. if p r then f r else r) (runs d)\<rparr>)
     else Inl ConstraintFailed)"

definition delete_runs :: "(cron_run_row \<Rightarrow> bool) \<Rightarrow> cron_db \<Rightarrow> sql_error + (nat \<times> cron_db)" where
  "delete_runs p d = Inr (length (filter p (runs d)), d\<lparr>runs := filter (\<lambda>r. \<not> p r) (runs d)\<rparr>)"

definition update_schedules ::
  "(cron_schedule_row \<Rightarrow> bool) \<Rightarrow> int \<Rightarrow> int \<Rightarrow> cron_db \<Rightarrow> sql_error + (nat \<times> cron_db)" where
  "update_schedules p next_fire updated d =
    (if next_fire < 0 \<and> list_ex p (schedules d) then Inl ConstraintFailed
     else Inr (length (filter p (schedules d)),
       d\<lparr>schedules := map (\<lambda>s. if p s then s\<lparr>cs_next_fire := next_fire, cs_updated := updated\<rparr> else s)
                        (schedules d)\<rparr>))"

section \<open>Slot projection and history\<close>

record cron_slot_summary =
  projected :: nat
  skipped :: nat

abbreviation cron_invariant :: error_code where
  "cron_invariant \<equiv> SchedulerInternalProtocolError"

definition cron_as_i64 :: "nat \<Rightarrow> int result" where
  "cron_as_i64 v = ok_or cron_invariant (i64_of_u64 v)"

definition cron_add_ms :: "int \<Rightarrow> nat \<Rightarrow> int result" where
  "cron_add_ms now delta = rbind (cron_as_i64 delta) (\<lambda>i. ok_or cron_invariant (checked_add_i64 now i))"

definition due_schedules_tx :: "int \<Rightarrow> nat \<Rightarrow> (cron_db, cron_schedule_row list) stx" where
  "due_schedules_tx now limit = reading (\<lambda>d.
     order_limit (\<lambda>s. (cs_next_fire s, cs_activation s)) limit
       (filter (\<lambda>s. cs_next_fire s \<le> now) (schedules d)))"

definition new_run :: "nat \<Rightarrow> cron_schedule_row \<Rightarrow> int \<Rightarrow> int \<Rightarrow> cron_run_row" where
  "new_run fresh s at now = \<lparr>r_id = fresh, r_activation = cs_activation s, r_worker = cs_worker s,
     r_scheduled = at, r_version = cs_version s, r_generation = cs_generation s,
     r_expression = cs_expression s, r_state = Ready, r_attempt = 0, r_no_retry = False,
     r_next = Some at, r_claimed = None, r_first = None, r_deadline = None, r_unknown = None,
     r_error = None, r_created = now, r_completed = None\<rparr>"

text \<open>\<open>fresh\<close> is the identifier drawn by \<open>CronRunId::generate\<close>; the result counts the rows inserted.\<close>

definition insert_slot ::
  "nat \<Rightarrow> cron_schedule_row \<Rightarrow> int option \<Rightarrow> int \<Rightarrow> (cron_db, nat \<times> nat) stx" where
  "insert_slot fresh s found now = (case found of
     None \<Rightarrow> ret (0, 1)
   | Some at \<Rightarrow>
       andthen (lift (cron_as_i64 (cs_generation s))) (\<lambda>_.
       andthen (stmt map_sql_error (insert_run (new_run fresh s at now))) (\<lambda>inserted.
         ret (inserted, 0))))"

definition project_schedule ::
  "('c, 't) croner \<Rightarrow> int \<Rightarrow> int \<Rightarrow> nat \<times> cron_schedule_row \<Rightarrow> (cron_db, nat \<times> nat) stx" where
  "project_schedule env now grace_floor = (\<lambda>(fresh, s).
     andthen (lift (parse env (cs_expression s))) (\<lambda>parsed.
     andthen (lift (latest_at_or_before_ms env parsed (max grace_floor (cs_next_fire s)) now)) (\<lambda>found.
     andthen (insert_slot fresh s found now) (\<lambda>counts.
     andthen (lift (next_after_ms env parsed now)) (\<lambda>nxt.
     andthen (stmt map_sql_error (update_schedules
        (\<lambda>x. cs_activation x = cs_activation s \<and> cs_next_fire x \<le> now) nxt now)) (\<lambda>changed.
     andthen (require cron_invariant (changed = 1)) (\<lambda>_. ret counts)))))))"

definition grace_floor_ms :: "int \<Rightarrow> nat \<Rightarrow> int result" where
  "grace_floor_ms now grace =
     rbind (cron_as_i64 grace) (\<lambda>g. Inr (max (saturating_sub_i64 now g) 0))"

definition project_due_cron_slots ::
  "('c, 't) croner \<Rightarrow> (nat \<Rightarrow> nat) \<Rightarrow> int \<Rightarrow> nat \<Rightarrow> nat \<Rightarrow> (cron_db, cron_slot_summary) stx" where
  "project_due_cron_slots env gen now grace limit =
     andthen (require cron_invariant (\<not> (now < 0 \<or> limit = 0))) (\<lambda>_.
     andthen (lift (grace_floor_ms now grace)) (\<lambda>floor.
     andthen (due_schedules_tx now limit) (\<lambda>due.
     andthen (map_each (project_schedule env now floor) (zip (map gen [0..<length due]) due)) (\<lambda>counts.
       ret \<lparr>projected = sum_list (map fst counts), skipped = sum_list (map snd counts)\<rparr>))))"

text \<open>\<open>ROW_NUMBER() OVER (PARTITION BY activation_id ORDER BY completed_at_ms DESC, id DESC)\<close>.\<close>

definition newer_terminal :: "cron_run_row \<Rightarrow> cron_run_row \<Rightarrow> bool" where
  "newer_terminal r x \<longleftrightarrow> cron_terminal (r_state x) \<and> r_activation x = r_activation r
     \<and> (case (r_completed x, r_completed r) of
          (Some a, Some b) \<Rightarrow> b < a \<or> (a = b \<and> r_id r < r_id x)
        | (Some a, None) \<Rightarrow> True
        | (None, Some b) \<Rightarrow> False
        | (None, None) \<Rightarrow> r_id r < r_id x)"

definition history_ordinal :: "cron_run_row \<Rightarrow> cron_run_row list \<Rightarrow> nat" where
  "history_ordinal r rs = 1 + length (filter (newer_terminal r) rs)"

definition gc_candidate :: "int \<Rightarrow> nat \<Rightarrow> cron_run_row list \<Rightarrow> cron_run_row \<Rightarrow> bool" where
  "gc_candidate cutoff cap rs r \<longleftrightarrow> cron_terminal (r_state r)
     \<and> ((case r_completed r of None \<Rightarrow> False | Some t \<Rightarrow> t < cutoff) \<or> history_ordinal r rs > cap)"

definition gc_cron_history :: "int \<Rightarrow> nat \<Rightarrow> nat \<Rightarrow> (cron_db, nat) stx" where
  "gc_cron_history now retention cap =
     andthen (require cron_invariant (\<not> (retention = 0 \<or> cap = 0))) (\<lambda>_.
     andthen (lift (cron_as_i64 retention)) (\<lambda>keep.
     andthen (reading runs) (\<lambda>rs.
       stmt map_sql_error (delete_runs (gc_candidate (saturating_sub_i64 now keep) cap rs)))))"

definition cron_workload_summary :: "int \<Rightarrow> cron_db \<Rightarrow> workload_summary" where
  "cron_workload_summary now d =
    (let due_runs = filter (\<lambda>r. r_state r = Ready \<and> (case r_next r of None \<Rightarrow> False | Some n \<Rightarrow> n \<le> now)) (runs d);
         due_schedules = filter (\<lambda>s. cs_next_fire s \<le> now) (schedules d);
         ready = filter (\<lambda>r. r_state r = Ready) (runs d)
     in \<lparr>ws_ready = length due_runs + length due_schedules,
         ws_claimed = length (filter (\<lambda>r. r_state r = Claimed) (runs d)),
         ws_expired = 0,
         ws_oldest_due = min_opt (List.map_filter r_next due_runs @ map cs_next_fire due_schedules),
         ws_next_due = min_opt (map cs_next_fire (schedules d) @ List.map_filter r_next ready)\<rparr>)"

section \<open>Claims and results\<close>

record claimed_cron_run =
  cc_id :: nat
  cc_activation :: nat
  cc_instance :: nat
  cc_worker :: nat
  cc_version :: nat
  cc_generation :: nat
  cc_expression :: string
  cc_scheduled :: int
  cc_attempt :: nat
  cc_deadline :: int

datatype cron_completion = Success | Failure bool string

datatype cron_completion_result = Terminal | Retried | Stale

text \<open>The first statement of a claim: give up on runs out of time or out of attempts.\<close>

definition past_deadline :: "int \<Rightarrow> cron_run_row \<Rightarrow> bool" where
  "past_deadline t r = (case r_deadline r of None \<Rightarrow> False | Some d \<Rightarrow> d \<le> t)"

definition give_up :: "int \<Rightarrow> nat \<Rightarrow> cron_run_row \<Rightarrow> bool" where
  "give_up now attempts r \<longleftrightarrow> r_state r = Ready \<and> r_first r \<noteq> None
     \<and> (past_deadline now r \<or> r_attempt r \<ge> attempts)"

definition given_up :: "int \<Rightarrow> cron_run_row \<Rightarrow> cron_run_row" where
  "given_up now r = r\<lparr>r_state := Failed, r_next := None,
     r_error := Some (if past_deadline now r then ''CRON_DISPATCH_DEADLINE'' else ''CRON_RETRY_EXHAUSTED''),
     r_completed := Some now\<rparr>"

definition next_due :: "int \<Rightarrow> cron_run_row \<Rightarrow> bool" where
  "next_due now r = (case r_next r of None \<Rightarrow> False | Some n \<Rightarrow> n \<le> now)"

definition claimable_run :: "int \<Rightarrow> nat \<Rightarrow> cron_run_row \<Rightarrow> bool" where
  "claimable_run now attempts r \<longleftrightarrow> r_state r = Ready \<and> next_due now r
     \<and> r_attempt r < attempts \<and> \<not> past_deadline now r"

definition run_order :: "cron_run_row \<Rightarrow> int \<times> int \<times> nat" where
  "run_order r = (case r_next r of None \<Rightarrow> 0 | Some n \<Rightarrow> n, r_scheduled r, r_id r)"

definition mark_claimed :: "int \<Rightarrow> int \<Rightarrow> cron_run_row \<Rightarrow> cron_run_row" where
  "mark_claimed now deadline r = r\<lparr>r_state := Claimed, r_next := None, r_attempt := r_attempt r + 1,
     r_claimed := Some now,
     r_first := Some (case r_first r of None \<Rightarrow> now | Some f \<Rightarrow> f),
     r_deadline := Some (case r_deadline r of None \<Rightarrow> deadline | Some d \<Rightarrow> d)\<rparr>"

definition run_view :: "nat \<Rightarrow> cron_run_row \<Rightarrow> int \<Rightarrow> claimed_cron_run" where
  "run_view inst r deadline = \<lparr>cc_id = r_id r, cc_activation = r_activation r, cc_instance = inst,
     cc_worker = r_worker r, cc_version = r_version r, cc_generation = r_generation r,
     cc_expression = r_expression r, cc_scheduled = r_scheduled r, cc_attempt = r_attempt r,
     cc_deadline = deadline\<rparr>"

definition read_claimed_run_tx :: "nat \<Rightarrow> (cron_db, claimed_cron_run) stx" where
  "read_claimed_run_tx i =
     andthen (reading (\<lambda>d. (cron_instance d, List.find (\<lambda>r. r_id r = i \<and> r_state r = Claimed) (runs d)))) (\<lambda>(inst, found).
       case found of
         None \<Rightarrow> throw (map_sql_error NoRows)
       | Some r \<Rightarrow> (case r_deadline r of
           None \<Rightarrow> throw (map_sql_error ConstraintFailed)
         | Some deadline \<Rightarrow> if r_attempt r \<le> 255 then ret (run_view inst r deadline)
             else throw (map_sql_error ConstraintFailed)))"

definition claim_run :: "int \<Rightarrow> int \<Rightarrow> nat \<Rightarrow> (cron_db, claimed_cron_run) stx" where
  "claim_run now first_deadline i =
     andthen (reading (\<lambda>d. List.find (\<lambda>r. r_id r = i) (runs d))) (\<lambda>found.
       case found of
         None \<Rightarrow> throw (map_sql_error NoRows)
       | Some r \<Rightarrow>
         andthen (stmt map_sql_error (update_runs
            (\<lambda>x. r_id x = i \<and> r_state x = Ready \<and> next_due now x)
            (mark_claimed now (case r_deadline r of None \<Rightarrow> first_deadline | Some t \<Rightarrow> t)))) (\<lambda>changed.
         andthen (require cron_invariant (changed = 1)) (\<lambda>_. read_claimed_run_tx i)))"

definition claim_cron_runs :: "int \<Rightarrow> nat \<Rightarrow> nat \<Rightarrow> (cron_db, claimed_cron_run list) stx" where
  "claim_cron_runs now max_retries limit =
     andthen (require cron_invariant (\<not> (max_retries > 3 \<or> limit = 0))) (\<lambda>_.
     andthen (lift (cron_add_ms now (15 * 60 * 1000))) (\<lambda>first_deadline.
     andthen (stmt map_sql_error (update_runs (give_up now (max_retries + 1)) (given_up now))) (\<lambda>_.
     andthen (reading (\<lambda>d. map r_id (order_limit run_order limit
                (filter (claimable_run now (max_retries + 1)) (runs d)))))
       (map_each (claim_run now first_deadline)))))"

text \<open>Exponential delay with the jitter of the identifier's last two bytes; the shift drops high bits.\<close>

definition cron_retry_at :: "nat \<Rightarrow> nat \<Rightarrow> int \<Rightarrow> int result" where
  "cron_retry_at i attempt now =
    (let exponent = attempt - 1
     in rbind (if exponent < 64 then Inr (2 * 2 ^ exponent mod 2 ^ 64) else Inl cron_invariant) (\<lambda>seconds.
        rbind (ok_or cron_invariant (case checked_mul_u64 seconds 1000 of None \<Rightarrow> None
                 | Some v \<Rightarrow> checked_add_u64 v (i mod 65536 mod 1000))) (\<lambda>delta.
          cron_add_ms now delta)))"

definition held_by :: "claimed_cron_run \<Rightarrow> cron_run_row \<Rightarrow> bool" where
  "held_by c r \<longleftrightarrow> r_id r = cc_id c \<and> r_activation r = cc_activation c \<and> r_state r = Claimed"

definition completion_retry :: "claimed_cron_run \<Rightarrow> cron_completion \<Rightarrow> int \<Rightarrow> nat \<Rightarrow> int option result" where
  "completion_retry c completion now max_retries = (case completion of
     Success \<Rightarrow> Inr None
   | Failure no_retry _ \<Rightarrow>
       if \<not> no_retry \<and> cc_attempt c < max_retries + 1
       then rbind (cron_retry_at (cc_id c) (cc_attempt c) now) (\<lambda>t.
         Inr (if t < cc_deadline c then Some t else None))
       else Inr None)"

definition completion_outcome ::
  "claimed_cron_run \<Rightarrow> cron_completion \<Rightarrow> int option \<Rightarrow> nat
     \<Rightarrow> cron_run_state \<times> bool \<times> string option \<times> cron_completion_result" where
  "completion_outcome c completion retry_at max_retries = (case completion of
     Success \<Rightarrow> (Complete, False, None, Terminal)
   | Failure no_retry code \<Rightarrow>
       if retry_at \<noteq> None then (Ready, False, Some code, Retried)
       else (Failed, no_retry,
             Some (if \<not> no_retry \<and> cc_attempt c < max_retries + 1 then ''CRON_DISPATCH_DEADLINE'' else code),
             Terminal))"

definition completed_run ::
  "claimed_cron_run \<Rightarrow> cron_run_state \<Rightarrow> bool \<Rightarrow> string option \<Rightarrow> int option \<Rightarrow> int \<Rightarrow> cron_run_row \<Rightarrow> cron_run_row" where
  "completed_run c st no_retry code retry_at now r =
     r\<lparr>r_state := st, r_attempt := cc_attempt c, r_no_retry := no_retry, r_next := retry_at,
       r_claimed := None, r_error := code, r_completed := (if st \<noteq> Ready then Some now else None)\<rparr>"

definition complete_cron_run ::
  "claimed_cron_run \<Rightarrow> cron_completion \<Rightarrow> int \<Rightarrow> nat \<Rightarrow> (cron_db, cron_completion_result) stx" where
  "complete_cron_run c completion now max_retries =
     andthen (require cron_invariant (\<not> max_retries > 3)) (\<lambda>_.
     andthen (reading (\<lambda>d. list_ex (held_by c) (runs d))) (\<lambda>exact.
       if \<not> exact then ret Stale
       else andthen (lift (completion_retry c completion now max_retries)) (\<lambda>retry_at.
         case completion_outcome c completion retry_at max_retries of
           (st, no_retry, code, result) \<Rightarrow>
             andthen (stmt map_sql_error (update_runs (held_by c)
                (completed_run c st no_retry code retry_at now))) (\<lambda>changed.
               if changed \<noteq> 1 then ret Stale else ret result))))"

definition retry_allowed :: "nat \<Rightarrow> int \<Rightarrow> cron_run_row \<Rightarrow> bool" where
  "retry_allowed attempts next_attempt r \<longleftrightarrow> r_attempt r < attempts
     \<and> (case r_deadline r of None \<Rightarrow> False | Some d \<Rightarrow> d > next_attempt)"

definition unknown_run :: "nat \<Rightarrow> int \<Rightarrow> int \<Rightarrow> cron_run_row \<Rightarrow> cron_run_row" where
  "unknown_run attempts next_attempt now r =
     r\<lparr>r_state := (if retry_allowed attempts next_attempt r then Ready else Failed),
       r_next := (if retry_allowed attempts next_attempt r then Some next_attempt else None),
       r_claimed := None,
       r_error := (if past_deadline next_attempt r then Some ''CRON_DISPATCH_DEADLINE''
                   else if r_attempt r \<ge> attempts then Some ''CRON_RETRY_EXHAUSTED'' else r_error r),
       r_completed := (if retry_allowed attempts next_attempt r then None else Some now)\<rparr>"

definition mark_cron_unknown ::
  "claimed_cron_run \<Rightarrow> cron_unknown_reason \<Rightarrow> int \<Rightarrow> nat \<Rightarrow> (cron_db, bool) stx" where
  "mark_cron_unknown c reason now max_retries =
     andthen (require cron_invariant (\<not> max_retries > 3)) (\<lambda>_.
     andthen (lift (cron_add_ms now 250)) (\<lambda>next_attempt.
     andthen (stmt map_sql_error (update_runs (held_by c)
        (\<lambda>r. (unknown_run (max_retries + 1) next_attempt now r)\<lparr>r_unknown := Some reason\<rparr>))) (\<lambda>changed.
       ret (changed = 1))))"

text \<open>The statement of \<open>reset_claims.sql\<close> on \<open>cron_runs\<close>.\<close>

definition reset_cron_claims :: "int \<Rightarrow> nat \<Rightarrow> (cron_db, unit) stx" where
  "reset_cron_claims now max_retries =
     andthen (stmt map_sql_error (update_runs (\<lambda>r. r_state r = Claimed)
        (\<lambda>r. (unknown_run (max_retries + 1) (now + 250) now r)
               \<lparr>r_unknown := Some (case r_unknown r of None \<Rightarrow> TransportTimeout | Some u \<Rightarrow> u)\<rparr>)))
       (\<lambda>_. ret ())"

end
