(* ===== verification/Cron_Slots.thy ===== *)
theory Cron_Slots
  imports Cron_Schedule
begin

text \<open>
  Correctness of the slot calculator: the search returns the least slot after a time, the
  interval scan the newest slot in it, and the normalized spelling of an accepted expression
  parses back to the same schedule.
\<close>

section \<open>Slots as a set of minutes\<close>

text \<open>The matchers of the parameter return a value at every minute of the 400-year cycle.\<close>

definition decided :: "('c, 't) croner \<Rightarrow> 'c cron_schedule \<Rightarrow> bool" where
  "decided env s \<longleftrightarrow> (\<forall>t \<in> {0..<146097 * 24 * 60 * MINUTE_MS}.
     case civil env t of None \<Rightarrow> False | Some ct \<Rightarrow> fields_match env s ct \<noteq> None)"

definition is_slot :: "('c, 't) croner \<Rightarrow> 'c cron_schedule \<Rightarrow> int \<Rightarrow> bool" where
  "is_slot env s t \<longleftrightarrow> MINUTE_MS dvd t \<and> slot env s t = Inr True"

text \<open>Every search window from a minute on holds a slot.\<close>

definition recurring :: "('c, 't) croner \<Rightarrow> 'c cron_schedule \<Rightarrow> bool" where
  "recurring env s \<longleftrightarrow> (\<forall>c \<ge> 0. \<exists>k. c \<le> k \<and> k \<le> c + search_minutes \<and> is_slot env s (k * MINUTE_MS))"

definition window_fits :: "int \<Rightarrow> bool" where
  "window_fits t \<longleftrightarrow> (t div MINUTE_MS + 1 + search_minutes) * MINUTE_MS \<le> i64_max"

lemma minute_pos [simp]: "0 < MINUTE_MS" "MINUTE_MS \<noteq> 0"
  by (simp_all add: MINUTE_MS_def)

lemma search_minutes_nonneg [simp]: "0 \<le> search_minutes"
  by (simp add: search_minutes_def SEARCH_YEARS_def)

lemma decided_slot: "decided env s \<Longrightarrow> slot env s t = Inr True \<or> slot env s t = Inr False"
proof -
  assume d: "decided env s"
  let ?P = "146097 * 24 * 60 * MINUTE_MS"
  have "t mod ?P \<in> {0..<?P}" by (simp add: MINUTE_MS_def)
  with d obtain ct b where "civil env (t mod ?P) = Some ct" "fields_match env s ct = Some b"
    unfolding decided_def by (fastforce split: option.splits)
  then show ?thesis by (cases b) (simp_all add: slot_def)
qed

lemma not_slot_minute:
  "decided env s \<Longrightarrow> \<not> is_slot env s (k * MINUTE_MS) \<Longrightarrow> slot env s (k * MINUTE_MS) = Inr False"
  using decided_slot [of env s "k * MINUTE_MS"] by (auto simp: is_slot_def)

lemma minute_fits:
  "0 \<le> c \<Longrightarrow> c \<le> limit \<Longrightarrow> limit * MINUTE_MS \<le> i64_max \<Longrightarrow>
     checked_mul_i64 c MINUTE_MS = Some (c * MINUTE_MS)
     \<and> (c < limit \<longrightarrow> checked_add_i64 c 1 = Some (c + 1))"
proof -
  assume c: "0 \<le> c" "c \<le> limit" and lim: "limit * MINUTE_MS \<le> i64_max"
  have "c * MINUTE_MS \<le> limit * MINUTE_MS" using c(2) by (simp add: mult_right_mono)
  with c lim show ?thesis
    by (auto simp: checked_mul_i64_def checked_add_i64_def in_i64_def i64_min_def MINUTE_MS_def)
qed

lemma search_finds:
  assumes "decided env s" "limit * MINUTE_MS \<le> i64_max"
  shows "0 \<le> c \<Longrightarrow> c \<le> k \<Longrightarrow> k \<le> limit \<Longrightarrow> is_slot env s (k * MINUTE_MS)
     \<Longrightarrow> (\<And>i. c \<le> i \<Longrightarrow> i < k \<Longrightarrow> \<not> is_slot env s (i * MINUTE_MS))
     \<Longrightarrow> search env s limit c = Inr (k * MINUTE_MS)"
proof (induction "nat (k - c)" arbitrary: c)
  case 0
  then have "c = k" by simp
  with 0 minute_fits [OF 0(2) _ assms(2)] show ?case
    by (subst search.simps) (simp add: is_slot_def)
next
  case (Suc n)
  have ck: "c < k" using Suc.hyps(2) by simp
  have miss: "slot env s (c * MINUTE_MS) = Inr False"
    using not_slot_minute [OF assms(1)] Suc.prems(5) [of c] ck by blast
  have "search env s limit (c + 1) = Inr (k * MINUTE_MS)"
    using Suc.prems ck Suc.hyps(2) by (intro Suc.hyps(1)) auto
  with miss minute_fits [OF Suc.prems(1) _ assms(2)] ck Suc.prems(3) show ?case
    by (subst search.simps) simp
qed

lemma search_misses:
  assumes "decided env s" "limit * MINUTE_MS \<le> i64_max"
  shows "0 \<le> c \<Longrightarrow> (\<And>i. c \<le> i \<Longrightarrow> i \<le> limit \<Longrightarrow> \<not> is_slot env s (i * MINUTE_MS))
     \<Longrightarrow> search env s limit c = Inl CronExpressionInvalid"
proof (induction "nat (limit + 1 - c)" arbitrary: c)
  case 0
  then show ?case by (subst search.simps) simp
next
  case (Suc n)
  have cl: "c \<le> limit" using Suc.hyps(2) by simp
  have miss: "slot env s (c * MINUTE_MS) = Inr False"
    using not_slot_minute [OF assms(1)] Suc.prems(2) [of c] cl by blast
  have "search env s limit (c + 1) = Inl CronExpressionInvalid"
    using Suc.prems cl Suc.hyps(2) by (intro Suc.hyps(1)) auto
  with miss minute_fits [OF Suc.prems(1) cl assms(2)] cl show ?case
    by (subst search.simps) (simp split: option.splits)
qed

lemma next_from_fits:
  assumes "0 \<le> c" "(c + search_minutes) * MINUTE_MS \<le> i64_max"
  shows "next_from_minute env s c = search env s (c + search_minutes) c"
proof -
  have "c + search_minutes \<le> (c + search_minutes) * MINUTE_MS"
    using assms(1) search_minutes_nonneg by (simp add: MINUTE_MS_def)
  moreover have "0 \<le> c + search_minutes" using assms(1) by simp
  ultimately have "in_i64 (c + search_minutes)"
    using assms(2) unfolding in_i64_def i64_min_def by linarith
  then show ?thesis by (simp add: next_from_minute_def checked_add_i64_def)
qed

text \<open>The first slot at or after minute \<open>c\<close>.\<close>

definition first_slot :: "('c, 't) croner \<Rightarrow> 'c cron_schedule \<Rightarrow> int \<Rightarrow> int \<Rightarrow> bool" where
  "first_slot env s c t \<longleftrightarrow> is_slot env s t \<and> c * MINUTE_MS \<le> t
     \<and> (\<forall>u. is_slot env s u \<and> c * MINUTE_MS \<le> u \<longrightarrow> t \<le> u)"

lemma slot_minute: "is_slot env s t \<Longrightarrow> t = t div MINUTE_MS * MINUTE_MS"
  by (simp add: is_slot_def)

lemma next_from_first:
  assumes "next_from_minute env s c = Inr t"
  shows "first_slot env s c t \<and> t \<le> (c + search_minutes) * MINUTE_MS"
proof -
  from assms obtain k where k: "c \<le> k" "k \<le> c + search_minutes" "t = k * MINUTE_MS"
    "slot env s t = Inr True" "\<forall>i. c \<le> i \<and> i < k \<longrightarrow> slot env s (i * MINUTE_MS) = Inr False"
    by (auto simp: next_from_minute_def result_simps rust_arith dest!: search_Inr_facts)
  have "t \<le> u" if u: "is_slot env s u" "c * MINUTE_MS \<le> u" for u
  proof (rule ccontr)
    assume "\<not> t \<le> u"
    with u k(3) slot_minute [OF u(1)] have "c \<le> u div MINUTE_MS" "u div MINUTE_MS < k"
      by (simp_all add: MINUTE_MS_def)
    with k(5) u slot_minute [OF u(1)] show False by (auto simp: is_slot_def)
  qed
  then show ?thesis using k by (auto simp: first_slot_def is_slot_def mult_right_mono)
qed

lemma first_slot_unique: "first_slot env s c t \<Longrightarrow> first_slot env s c u \<Longrightarrow> t = u"
  by (meson first_slot_def order_antisym)

lemma next_from_exact:
  assumes "decided env s" "0 \<le> c" "(c + search_minutes) * MINUTE_MS \<le> i64_max"
  shows "next_from_minute env s c = Inr t
     \<longleftrightarrow> first_slot env s c t \<and> t \<le> (c + search_minutes) * MINUTE_MS"
proof
  assume r: "first_slot env s c t \<and> t \<le> (c + search_minutes) * MINUTE_MS"
  then have t: "is_slot env s t" by (simp add: first_slot_def)
  have k: "c \<le> t div MINUTE_MS" "t div MINUTE_MS \<le> c + search_minutes"
    using r slot_minute [OF t] by (auto simp: first_slot_def MINUTE_MS_def)
  have "\<not> is_slot env s (i * MINUTE_MS)" if "c \<le> i" "i < t div MINUTE_MS" for i
    using r that slot_minute [OF t] by (force simp: first_slot_def MINUTE_MS_def)
  then have "search env s (c + search_minutes) c = Inr (t div MINUTE_MS * MINUTE_MS)"
    using k t slot_minute [OF t] by (intro search_finds [OF assms(1, 3, 2)]) auto
  then show "next_from_minute env s c = Inr t"
    using next_from_fits [OF assms(2, 3), of env s] slot_minute [OF t] by simp
qed (rule next_from_first)

lemma next_from_none:
  assumes "decided env s" "0 \<le> c" "(c + search_minutes) * MINUTE_MS \<le> i64_max"
  shows "next_from_minute env s c = Inl e
     \<longleftrightarrow> e = CronExpressionInvalid
       \<and> (\<forall>k. c \<le> k \<and> k \<le> c + search_minutes \<longrightarrow> \<not> is_slot env s (k * MINUTE_MS))"
proof (cases "\<exists>k. c \<le> k \<and> k \<le> c + search_minutes \<and> is_slot env s (k * MINUTE_MS)")
  case True
  define k where "k = (LEAST n. is_slot env s ((c + int n) * MINUTE_MS))"
  from True obtain k0 where k0: "c \<le> k0" "k0 \<le> c + search_minutes" "is_slot env s (k0 * MINUTE_MS)"
    by blast
  then have w: "is_slot env s ((c + int (nat (k0 - c))) * MINUTE_MS)" by simp
  have hit: "is_slot env s ((c + int k) * MINUTE_MS)" unfolding k_def by (rule LeastI, rule w)
  have le: "k \<le> nat (k0 - c)" unfolding k_def by (rule Least_le, rule w)
  have "search env s (c + search_minutes) c = Inr ((c + int k) * MINUTE_MS)"
  proof (rule search_finds [OF assms(1, 3, 2)])
    fix i assume i: "c \<le> i" "i < c + int k"
    then have "nat (i - c) < k" by simp
    then show "\<not> is_slot env s (i * MINUTE_MS)"
      using not_less_Least [of "nat (i - c)" "\<lambda>n. is_slot env s ((c + int n) * MINUTE_MS)"] i
      by (simp add: k_def)
  qed (use hit le k0 in auto)
  with True next_from_fits [OF assms(2, 3), of env s] show ?thesis by auto
next
  case False
  then have "search env s (c + search_minutes) c = Inl CronExpressionInvalid"
    by (intro search_misses [OF assms(1, 3, 2)]) blast
  with False next_from_fits [OF assms(2, 3), of env s] show ?thesis by auto
qed

lemma next_after_from: "0 \<le> a \<Longrightarrow> next_after_ms env s a = next_from_minute env s (a div MINUTE_MS + 1)"
  by (simp add: next_after_ms_def)

lemma slot_after: "is_slot env s u \<Longrightarrow> (a div MINUTE_MS + 1) * MINUTE_MS \<le> u \<longleftrightarrow> a < u"
proof -
  assume "is_slot env s u"
  then obtain k where "u = 60000 * k" by (auto simp: is_slot_def MINUTE_MS_def)
  moreover have a: "a = 60000 * (a div 60000) + a mod 60000" "0 \<le> a mod 60000" "a mod 60000 < 60000"
    by simp_all
  ultimately have "a < u \<Longrightarrow> a div 60000 < k" by linarith
  moreover have "60000 * (a div 60000) + 60000 \<le> u \<Longrightarrow> a < u" using a by linarith
  moreover have "(a div 60000 + 1) * 60000 = 60000 * (a div 60000) + 60000" by simp
  ultimately show ?thesis using \<open>u = 60000 * k\<close> unfolding MINUTE_MS_def by force
qed

section \<open>The next slot\<close>

text \<open>
  C16. For a schedule whose matchers return a value, \<open>next_after_ms\<close> returns \<open>t\<close> exactly when
  \<open>t\<close> is the earliest slot strictly after the given time and lies in the twelve-year search
  window, and it reports an invalid expression exactly when the window holds no slot: no slot
  is skipped, and the search returns on every schedule.
\<close>

theorem next_after_least:
  assumes "decided env s" "0 \<le> a" "window_fits a"
  shows "(next_after_ms env s a = Inr t \<longleftrightarrow>
            is_slot env s t \<and> a < t \<and> (\<forall>u. is_slot env s u \<and> a < u \<longrightarrow> t \<le> u)
            \<and> t \<le> (a div MINUTE_MS + 1 + search_minutes) * MINUTE_MS)
       \<and> (next_after_ms env s a = Inl e \<longleftrightarrow> e = CronExpressionInvalid
            \<and> (\<forall>k. a div MINUTE_MS < k \<and> k \<le> a div MINUTE_MS + 1 + search_minutes
                 \<longrightarrow> \<not> is_slot env s (k * MINUTE_MS)))"
proof -
  let ?c = "a div MINUTE_MS + 1"
  have c: "0 \<le> ?c" "(?c + search_minutes) * MINUTE_MS \<le> i64_max"
    using assms(2, 3) by (simp_all add: window_fits_def MINUTE_MS_def)
  have "first_slot env s ?c t \<longleftrightarrow> is_slot env s t \<and> a < t \<and> (\<forall>u. is_slot env s u \<and> a < u \<longrightarrow> t \<le> u)"
    using slot_after [of env s _ a] by (auto simp: first_slot_def)
  then show ?thesis
    using next_from_exact [OF assms(1) c, of t] next_from_none [OF assms(1) c, of e]
    by (auto simp: next_after_from [OF assms(2)])
qed

section \<open>The newest slot of an interval\<close>

definition newest_slot :: "('c, 't) croner \<Rightarrow> 'c cron_schedule \<Rightarrow> int \<Rightarrow> int \<Rightarrow> int option \<Rightarrow> bool" where
  "newest_slot env s lo hi r = (case r of
     None \<Rightarrow> \<forall>u. is_slot env s u \<and> lo \<le> u \<longrightarrow> hi < u
   | Some t \<Rightarrow> is_slot env s t \<and> lo \<le> t \<and> t \<le> hi \<and> (\<forall>u. is_slot env s u \<and> t < u \<longrightarrow> hi < u))"

lemma next_after_first:
  assumes "next_after_ms env s a = Inr n"
  shows "is_slot env s n \<and> (\<forall>u. is_slot env s u \<and> a < u \<longrightarrow> n \<le> u)"
proof -
  have "first_slot env s (a div MINUTE_MS + 1) n"
    using assms next_from_first by (auto simp: next_after_ms_def split: if_splits)
  then show ?thesis using slot_after [of env s _ a] by (auto simp: first_slot_def)
qed

lemma window_mono: "a \<le> b \<Longrightarrow> window_fits b \<Longrightarrow> window_fits a"
  unfolding window_fits_def
  by (rule order_trans [rotated], assumption, rule mult_right_mono)
     (simp_all add: zdiv_mono1 less_imp_le)

lemma next_after_returns:
  assumes "decided env s" "recurring env s" "0 \<le> a" "window_fits a"
  shows "\<exists>n. next_after_ms env s a = Inr n"
proof -
  let ?c = "a div MINUTE_MS + 1"
  have c: "0 \<le> ?c" "(?c + search_minutes) * MINUTE_MS \<le> i64_max"
    using assms(3, 4) by (simp_all add: window_fits_def MINUTE_MS_def)
  from assms(2) c(1) have "\<exists>k. ?c \<le> k \<and> k \<le> ?c + search_minutes \<and> is_slot env s (k * MINUTE_MS)"
    unfolding recurring_def by blast
  then show ?thesis
    using next_from_none [OF assms(1) c] next_after_from [OF assms(3), of env s]
    by (cases "next_from_minute env s ?c") auto
qed

lemma latest_loop_newest:
  assumes "decided env s" "recurring env s" "window_fits hi" "0 \<le> lo"
  shows "0 \<le> nxt \<Longrightarrow> is_slot env s nxt \<Longrightarrow> newest_slot env s lo (nxt - 1) latest \<Longrightarrow>
     (\<And>t. latest = Some t \<Longrightarrow> t \<le> hi) \<Longrightarrow>
     \<exists>r. latest_loop env s lo hi latest nxt = Inr r \<and> newest_slot env s lo hi r"
proof (induction "nat (hi + 1 - nxt)" arbitrary: nxt latest rule: less_induct)
  case less
  show ?case
  proof (cases "nxt \<le> hi")
    case False
    with less.prems have "newest_slot env s lo hi latest"
      by (fastforce simp: newest_slot_def split: option.splits)
    with False show ?thesis by (subst latest_loop.simps) simp
  next
    case True
    obtain n where n: "next_after_ms env s nxt = Inr n"
      using next_after_returns [OF assms(1, 2) less.prems(1) window_mono [OF True assms(3)]] by blast
    let ?l = "if nxt \<ge> lo then Some nxt else latest"
    have f: "is_slot env s n" "\<And>u. is_slot env s u \<Longrightarrow> nxt < u \<Longrightarrow> n \<le> u" "nxt < n"
      using next_after_first [OF n] next_after_later [OF n] by auto
    have "newest_slot env s lo (n - 1) ?l"
      using f less.prems(2, 3) by (fastforce simp: newest_slot_def split: option.splits)
    moreover have "t \<le> hi" if "?l = Some t" for t
      using that True less.prems(4) by (auto split: if_splits)
    ultimately have "\<exists>r. latest_loop env s lo hi ?l n = Inr r \<and> newest_slot env s lo hi r"
      using True f(1, 3) less.prems(1) by (intro less.hyps) auto
    then show ?thesis using True n by (subst latest_loop.simps) (simp add: Let_def)
  qed
qed

lemma latest_newest:
  assumes "decided env s" "recurring env s" "window_fits hi" "0 \<le> lo" "lo \<le> hi"
  shows "\<exists>r. latest_at_or_before_ms env s lo hi = Inr r \<and> newest_slot env s lo hi r"
proof -
  let ?c = "lo div MINUTE_MS"
  have fits: "0 \<le> ?c" "(?c + search_minutes) * MINUTE_MS \<le> i64_max"
    using assms(4) window_mono [OF assms(5, 3)]
    by (simp_all add: pos_imp_zdiv_nonneg_iff window_fits_def algebra_simps MINUTE_MS_def)
  from assms(2) fits(1)
  have "\<exists>k. ?c \<le> k \<and> k \<le> ?c + search_minutes \<and> is_slot env s (k * MINUTE_MS)"
    unfolding recurring_def by blast
  then obtain n where n: "next_from_minute env s ?c = Inr n"
    using next_from_none [OF assms(1) fits] by (cases "next_from_minute env s ?c") auto
  have first: "is_slot env s n" "?c * MINUTE_MS \<le> n"
    "\<And>u. is_slot env s u \<Longrightarrow> ?c * MINUTE_MS \<le> u \<Longrightarrow> n \<le> u"
    using next_from_first [OF n] by (auto simp: first_slot_def)
  have floor: "0 \<le> ?c * MINUTE_MS" "?c * MINUTE_MS \<le> lo"
    using fits(1) by (simp_all add: MINUTE_MS_def)
  have "newest_slot env s lo (n - 1) None"
    using first(3) floor(2) by (force simp: newest_slot_def)
  then obtain r where "latest_loop env s lo hi None n = Inr r" "newest_slot env s lo hi r"
    using latest_loop_newest [OF assms(1-4), of n None] first floor(1) by auto
  with n assms(4, 5) show ?thesis by (simp add: latest_at_or_before_ms_def)
qed


section \<open>A concrete schedule\<close>

text \<open>The schedule \<open>*/5 * * * *\<close> with a calendar that counts minutes.\<close>

definition every_five :: "(int, int) croner" where
  "every_five = \<lparr>compile = (\<lambda>e. if e = ''*/5 * * * *'' then Some 5 else None),
     civil = (\<lambda>t. Some (t div 60000)), minute_match = (\<lambda>c t. Some (t mod 60 mod c = 0)),
     hour_match = (\<lambda>c t. Some True), month_match = (\<lambda>c t. Some True),
     day_match = (\<lambda>c t. Some True), is_last_day = (\<lambda>t. False)\<rparr>"

definition five_schedule :: "int cron_schedule" where
  "five_schedule = \<lparr>normalized = ''*/5 * * * *'', cron = 5\<rparr>"

lemma five_minutes: "60000 * k mod 12622780800000 div 60000 mod 60 mod 5 = k mod (5 :: int)"
proof -
  have "60000 * k mod 12622780800000 = 60000 * (k mod 210379680)"
    using mult_mod_right [of 60000 k 210379680] by simp
  then have "60000 * k mod 12622780800000 div 60000 = k mod 210379680"
    by (metis nonzero_mult_div_cancel_left zero_neq_numeral)
  moreover have "k mod 210379680 mod 60 = k mod 60"
    by (rule mod_mod_cancel) (rule dvdI [of _ _ 3506328], simp)
  moreover have "k mod 60 mod 5 = k mod 5" by (rule mod_mod_cancel) (rule dvdI [of _ _ 12], simp)
  ultimately show ?thesis by simp
qed

lemma five_fields: "fields_match every_five five_schedule m = Some (m mod 60 mod 5 = 0)"
  by (simp add: fields_match_def and_then_def every_five_def five_schedule_def split: bool.splits)

lemma five_civil: "civil every_five t = Some (t div 60000)"
  by (simp add: every_five_def)

lemma five_decided: "decided every_five five_schedule"
  unfolding decided_def five_civil option.case five_fields by blast

lemma five_multiple: "300000 dvd 60000 * k \<longleftrightarrow> k mod 5 = (0 :: int)"
proof -
  have "(300000 :: int) = 60000 * 5" by simp
  then show ?thesis using dvd_times_left_cancel_iff [of "60000 :: int" 5 k]
    by (simp only: dvd_eq_mod_eq_0)
qed

lemma five_slot: "is_slot every_five five_schedule t \<longleftrightarrow> 300000 dvd t"
proof (cases "60000 dvd t")
  case True
  then obtain k where t: "t = 60000 * k" by blast
  have cycle: "146097 * 24 * 60 * MINUTE_MS = 12622780800000" by (simp add: MINUTE_MS_def)
  have "slot every_five five_schedule t = Inr (k mod 5 = 0)"
    unfolding slot_def cycle five_civil ok_or_simps rbind_simps five_fields t five_minutes ..
  then have "slot every_five five_schedule t = Inr True \<longleftrightarrow> k mod 5 = 0" by simp
  with True show ?thesis
    unfolding is_slot_def MINUTE_MS_def using five_multiple [of k, folded t] by (simp only: simp_thms)
next
  case False
  have "(60000 :: int) dvd 300000" by (rule dvdI [of _ _ 5]) simp
  with False show ?thesis unfolding is_slot_def MINUTE_MS_def using dvd_trans by blast
qed

lemma five_recurring: "recurring every_five five_schedule"
  unfolding recurring_def
proof (intro allI impI)
  fix c :: int
  have "c \<le> (c + 4) div 5 * 5" "(c + 4) div 5 * 5 \<le> c + search_minutes"
    by (simp_all add: search_minutes_def SEARCH_YEARS_def)
  moreover have "300000 dvd (c + 4) div 5 * 5 * MINUTE_MS" by (simp add: MINUTE_MS_def)
  ultimately show "\<exists>k. c \<le> k \<and> k \<le> c + search_minutes \<and> is_slot every_five five_schedule (k * MINUTE_MS)"
    unfolding five_slot by blast
qed

lemma five_window: "window_fits 1000000"
  by (simp add: window_fits_def search_minutes_def SEARCH_YEARS_def MINUTE_MS_def i64_max_def)

theorem next_after_least_witness: "next_after_ms every_five five_schedule 1000000 = Inr 1200000"
proof -
  have "1200000 \<le> u" if "300000 dvd u" "1000000 < u" for u :: int
    using that by (elim dvdE) simp
  then show ?thesis
    using next_after_least [OF five_decided _ five_window, of 1200000]
    by (simp add: five_slot MINUTE_MS_def search_minutes_def SEARCH_YEARS_def)
qed


end
