(* ===== verification/Cron_Claims.thy ===== *)
theory Cron_Claims
  imports Cron_Store Cron_Slots
begin

text \<open>
  Invariant of the cron tables and its preservation by every operation; claims, results and
  the fence between attempts.
\<close>

section \<open>Invariant\<close>

text \<open>
  A run was dispatched exactly when it has used an attempt, its deadline is fixed at the first
  dispatch, and only a finished run is marked as not to be retried.
\<close>

definition run_ok :: "cron_run_row \<Rightarrow> bool" where
  "run_ok r \<longleftrightarrow> run_checks r \<and> (r_first r \<noteq> None \<longrightarrow> r_deadline r \<noteq> None \<and> 0 < r_attempt r)
     \<and> (r_state r = Claimed \<longrightarrow> r_first r \<noteq> None) \<and> (r_no_retry r \<longrightarrow> cron_terminal (r_state r))"

definition schedule_ok :: "cron_schedule_row \<Rightarrow> bool" where
  "schedule_ok s \<longleftrightarrow> 1 \<le> cs_generation s \<and> 1 \<le> sql_length (cs_expression s)
     \<and> sql_length (cs_expression s) \<le> 256 \<and> 0 \<le> cs_next_fire s"

definition run_slot :: "cron_run_row \<Rightarrow> nat \<times> int" where
  "run_slot r = (r_activation r, r_scheduled r)"

definition cron_inv :: "cron_db \<Rightarrow> bool" where
  "cron_inv d \<longleftrightarrow> distinct (map r_id (runs d)) \<and> distinct (map run_slot (runs d))
     \<and> list_all run_ok (runs d) \<and> distinct (map cs_activation (schedules d))
     \<and> list_all schedule_ok (schedules d)"

lemma cron_invD:
  assumes "cron_inv d"
  shows "distinct (map r_id (runs d))" "distinct (map run_slot (runs d))"
    "r \<in> set (runs d) \<Longrightarrow> run_ok r" "distinct (map cs_activation (schedules d))"
    "s \<in> set (schedules d) \<Longrightarrow> schedule_ok s"
  using assms by (auto simp: cron_inv_def list_all_iff)

lemma run_id_inj: "cron_inv d \<Longrightarrow> r \<in> set (runs d) \<Longrightarrow> x \<in> set (runs d) \<Longrightarrow> r_id r = r_id x \<Longrightarrow> r = x"
  by (auto simp: cron_inv_def distinct_map inj_on_def)

lemma run_checks_of: "cron_inv d \<Longrightarrow> r \<in> set (runs d) \<Longrightarrow> run_checks r"
  using cron_invD(3) by (auto simp: run_ok_def)

lemma update_runs_Inr:
  "update_runs p f d = Inr (n, d') \<longleftrightarrow> n = length (filter p (runs d))
     \<and> d' = d\<lparr>runs := map (\<lambda>r. if p r then f r else r) (runs d)\<rparr>
     \<and> (\<forall>r \<in> set (runs d). p r \<longrightarrow> identity_guard r (f r) \<and> run_transition r (f r) \<and> run_checks (f r))"
  by (auto simp: update_runs_def list_all_iff)

lemma identity_slot: "identity_guard r x \<Longrightarrow> r_id x = r_id r \<and> run_slot x = run_slot r"
  by (simp add: identity_guard_def run_slot_def)

lemma keeps_update_runs:
  assumes "\<And>r. p r \<Longrightarrow> run_ok r \<Longrightarrow> run_transition r (f r) \<Longrightarrow> run_checks (f r) \<Longrightarrow> run_ok (f r)"
  shows "keeps cron_inv (stmt err (update_runs p f))"
proof (rule keepsI)
  fix d n d' assume inv: "cron_inv d" and run: "stmt err (update_runs p f) d = Inr (n, d')"
  then have d': "d' = d\<lparr>runs := map (\<lambda>r. if p r then f r else r) (runs d)\<rparr>"
    and row: "\<And>r. r \<in> set (runs d) \<Longrightarrow> p r \<Longrightarrow> identity_guard r (f r) \<and> run_transition r (f r) \<and> run_checks (f r)"
    by (auto simp: tx_simps update_runs_Inr)
  have "map r_id (runs d') = map r_id (runs d)" "map run_slot (runs d') = map run_slot (runs d)"
    using row identity_slot by (auto simp: d')
  moreover have "run_ok r" if "r \<in> set (runs d')" for r
    using that row assms cron_invD(3) [OF inv] by (auto simp: d' split: if_splits)
  ultimately show "cron_inv d'"
    using inv by (auto simp: cron_inv_def d' list_all_iff simp del: map_map)
qed

lemma keeps_delete_runs: "keeps cron_inv (stmt err (delete_runs p))"
  by (auto simp: keeps_def tx_simps delete_runs_def cron_inv_def distinct_map_filter list_all_iff)

lemma keeps_insert_run: "run_checks r \<Longrightarrow> keeps cron_inv (stmt err (insert_run r))"
  by (auto simp: keeps_def tx_simps insert_run_def cron_inv_def run_authority_def list_ex_iff
      run_slot_def run_ok_def split: if_splits)

lemma keeps_insert_slot_run: "keeps cron_inv (stmt err (insert_run r))"
  by (cases "run_checks r")
     (auto simp: keeps_insert_run, auto simp: keeps_def tx_simps insert_run_def split: if_splits)

lemma keeps_update_schedules: "keeps cron_inv (stmt err (update_schedules p n u))"
  by (rule keepsI)
     (auto simp: tx_simps update_schedules_def cron_inv_def list_all_iff list_ex_iff comp_def
           schedule_ok_def if_distrib [of cs_activation] cong: if_cong split: if_splits)

lemma run_ok_given_up: "run_ok r \<Longrightarrow> run_checks (given_up now r) \<Longrightarrow> run_ok (given_up now r)"
  by (simp add: run_ok_def given_up_def cron_terminal_def)

lemma run_ok_mark_claimed:
  "r_state r = Ready \<Longrightarrow> run_ok r \<Longrightarrow> run_checks (mark_claimed now t r) \<Longrightarrow> run_ok (mark_claimed now t r)"
  by (auto simp: run_ok_def mark_claimed_def cron_terminal_def)

lemma run_ok_unknown:
  "r_state r = Claimed \<Longrightarrow> run_ok r \<Longrightarrow> run_checks ((unknown_run a n now r)\<lparr>r_unknown := u\<rparr>)
     \<Longrightarrow> run_ok ((unknown_run a n now r)\<lparr>r_unknown := u\<rparr>)"
  by (simp add: run_ok_def unknown_run_def cron_terminal_def)

section \<open>Every operation keeps the invariant\<close>

lemma keeps_claim_cron_runs: "keeps cron_inv (claim_cron_runs now m n)"
  unfolding claim_cron_runs_def claim_run_def read_claimed_run_tx_def
  by (intro keeps_intros keeps_update_runs)
     (auto intro: run_ok_given_up run_ok_mark_claimed)

lemma keeps_project: "keeps cron_inv (project_due_cron_slots env gen now grace n)"
  unfolding project_due_cron_slots_def due_schedules_tx_def project_schedule_def insert_slot_def
  by (intro keeps_intros keeps_insert_slot_run keeps_update_schedules)

lemma keeps_gc: "keeps cron_inv (gc_cron_history now keep cap)"
  unfolding gc_cron_history_def by (intro keeps_intros keeps_delete_runs)

lemma keeps_mark_unknown: "keeps cron_inv (mark_cron_unknown c reason now m)"
  unfolding mark_cron_unknown_def
  by (intro keeps_intros keeps_update_runs run_ok_unknown) (auto simp: held_by_def)

lemma keeps_reset_cron: "keeps cron_inv (reset_cron_claims now m)"
  unfolding reset_cron_claims_def
  by (intro keeps_intros keeps_update_runs run_ok_unknown) auto

lemma outcome_state: "completion_outcome c completion t m = (st, no_retry, code, res) \<Longrightarrow> st \<in> {Complete, Ready, Failed}"
  by (auto simp: completion_outcome_def split: cron_completion.splits if_splits)

lemma run_ok_completed:
  assumes "st \<in> {Complete, Ready, Failed}" "held_by c r" "run_ok r"
    "run_transition r (completed_run c st no_retry code t now r)"
    "run_checks (completed_run c st no_retry code t now r)"
  shows "run_ok (completed_run c st no_retry code t now r)"
  using assms by (auto simp: run_ok_def held_by_def completed_run_def run_transition_def cron_terminal_def)

lemma keeps_complete_run: "keeps cron_inv (complete_cron_run c completion now m)"
proof -
  have outcome: "keeps cron_inv (case completion_outcome c completion t m of (st, no_retry, code, result) \<Rightarrow>
      andthen (stmt map_sql_error (update_runs (held_by c) (completed_run c st no_retry code t now)))
        (\<lambda>changed. if changed \<noteq> 1 then ret Stale else ret result))" for t
  proof (cases "completion_outcome c completion t m")
    case (fields st no_retry code res)
    have "keeps cron_inv (stmt map_sql_error (update_runs (held_by c) (completed_run c st no_retry code t now)))"
      by (rule keeps_update_runs) (rule run_ok_completed [OF outcome_state [OF fields]])
    then show ?thesis unfolding fields prod.case by (intro keeps_intros)
  qed
  show ?thesis
    unfolding complete_cron_run_def by (intro keeps_basic keeps_andthen keeps_if outcome)
qed

text \<open>The operations of the store as events; the parameters of the calls are arbitrary.\<close>

datatype cron_event =
    Project "nat \<Rightarrow> nat" int nat nat
  | Collect int nat nat
  | Claim int nat nat
  | Finish claimed_cron_run cron_completion int nat
  | Unknown claimed_cron_run cron_unknown_reason int nat
  | Restart int nat

fun cron_step :: "('c, 't) croner \<Rightarrow> cron_db \<Rightarrow> cron_event \<Rightarrow> cron_db" where
  "cron_step env d (Project gen now grace limit) = snd (transaction (project_due_cron_slots env gen now grace limit) d)"
| "cron_step env d (Collect now keep cap) = snd (transaction (gc_cron_history now keep cap) d)"
| "cron_step env d (Claim now m limit) = snd (transaction (claim_cron_runs now m limit) d)"
| "cron_step env d (Finish c completion now m) = snd (transaction (complete_cron_run c completion now m) d)"
| "cron_step env d (Unknown c reason now m) = snd (transaction (mark_cron_unknown c reason now m) d)"
| "cron_step env d (Restart now m) = snd (transaction (reset_cron_claims now m) d)"

lemmas keeps_cron = keeps_project keeps_gc keeps_claim_cron_runs keeps_complete_run keeps_mark_unknown keeps_reset_cron

interpretation cron_store: invariant_system "cron_step env" "\<lambda>_. True" cron_inv for env
proof unfold_locales
  fix d e assume "cron_inv d"
  then show "cron_inv (cron_step env d e)"
    by (cases e) (simp_all add: transaction_inv keeps_cron)
qed


definition sample_schedule :: cron_schedule_row where
  "sample_schedule = \<lparr>cs_activation = 7, cs_worker = 1, cs_version = 2, cs_generation = 1,
     cs_expression = ''*/5 * * * *'', cs_sha256 = replicate 32 CHR ''0'', cs_parser = 1,
     cs_next_fire = 300000, cs_updated = 0\<rparr>"

definition sample_run :: cron_run_row where
  "sample_run = new_run 90 sample_schedule 300000 310000"

definition sample_cron :: cron_db where
  "sample_cron = \<lparr>cron_instance = 4, schedules = [sample_schedule], runs = [sample_run]\<rparr>"

lemmas sample_cron_defs = sample_cron_def sample_run_def sample_schedule_def new_run_def

lemma sample_cron_inv: "cron_inv sample_cron"
  by (simp add: cron_inv_def sample_cron_defs run_ok_def run_checks_def dispatch_check_def
      shape_check_def schedule_ok_def sql_length_def)


end
