(* ===== verification/Cron_Delivery.thy ===== *)
theory Cron_Delivery
  imports Cron_Claims
begin

text \<open>
  Delivery of cron runs: what a claim hands out, what a result does to the run it was claimed
  for, the retry delay, and the retained history.
\<close>

section \<open>Claims\<close>

definition expire :: "int \<Rightarrow> nat \<Rightarrow> cron_run_row \<Rightarrow> cron_run_row" where
  "expire now attempts r = (if give_up now attempts r then given_up now r else r)"

definition earliest_runs :: "int \<Rightarrow> nat \<Rightarrow> nat \<Rightarrow> cron_run_row list \<Rightarrow> cron_run_row list" where
  "earliest_runs now attempts n rs = order_limit run_order n (filter (claimable_run now attempts) rs)"

definition mark_runs :: "int \<Rightarrow> nat set \<Rightarrow> cron_run_row \<Rightarrow> cron_run_row" where
  "mark_runs now ids r = (if r_id r \<in> ids then mark_claimed now (now + DISPATCH_MS) r else r)"

definition claim_run_view :: "nat \<Rightarrow> int \<Rightarrow> cron_run_row \<Rightarrow> claimed_cron_run" where
  "claim_run_view inst now r =
     run_view inst (mark_claimed now (now + DISPATCH_MS) r)
       (case r_deadline r of None \<Rightarrow> now + DISPATCH_MS | Some t \<Rightarrow> t)"

lemma mark_runs_simps [simp]:
  "r_id (mark_runs now ids r) = r_id r" "mark_runs now {} r = r" "r_id r \<notin> ids \<Longrightarrow> mark_runs now ids r = r"
  by (simp_all add: mark_runs_def mark_claimed_def)

lemma mark_runs_twice:
  "i \<notin> ids \<Longrightarrow> mark_runs now ids (mark_runs now {i} r) = mark_runs now (insert i ids) r"
  by (auto simp: mark_runs_def mark_claimed_def)

lemma given_up_id [simp]: "r_id (given_up now r) = r_id r" "r_state (given_up now r) = Failed"
  by (simp_all add: given_up_def)

lemma expire_id [simp]: "r_id (expire now a r) = r_id r"
  by (simp add: expire_def)

lemma sql_length_codes:
  "sql_length ''CRON_DISPATCH_DEADLINE'' = 22" "sql_length ''CRON_RETRY_EXHAUSTED'' = 20"
  by (simp_all add: sql_length_def)

lemma given_up_allowed:
  assumes "run_ok r" "give_up now a r"
  shows "identity_guard r (given_up now r) \<and> run_transition r (given_up now r) \<and> run_checks (given_up now r)"
  using assms
  by (auto simp: run_ok_def give_up_def given_up_def identity_guard_def sql_ne_def run_transition_def
      run_checks_def dispatch_check_def shape_check_def cron_terminal_def sql_length_codes split: option.splits)

lemma give_up_stmt:
  assumes "cron_inv d"
  shows "update_runs (give_up now a) (given_up now) d
    = Inr (length (filter (give_up now a) (runs d)), d\<lparr>runs := map (expire now a) (runs d)\<rparr>)"
  using given_up_allowed cron_invD(3) [OF assms] by (simp add: update_runs_Inr expire_def)

lemma claimable_kept: "filter (claimable_run now a) (map (expire now a) rs) = filter (claimable_run now a) rs"
proof -
  have "claimable_run now a (expire now a r) \<longleftrightarrow> claimable_run now a r" for r
    by (auto simp: expire_def give_up_def claimable_run_def)
  moreover have "claimable_run now a r \<Longrightarrow> expire now a r = r" for r
    by (auto simp: expire_def give_up_def claimable_run_def)
  ultimately show ?thesis by (induction rs) auto
qed

lemma mark_claimed_allowed:
  assumes "run_ok r" "claimable_run now a r" "a \<le> 4" "t = now + DISPATCH_MS"
  shows "identity_guard r (mark_claimed now t r) \<and> run_transition r (mark_claimed now t r)
    \<and> run_checks (mark_claimed now t r)"
  using assms
  by (auto simp: run_ok_def claimable_run_def mark_claimed_def identity_guard_def sql_ne_def run_transition_def
      run_checks_def dispatch_check_def shape_check_def DISPATCH_MS_def cron_terminal_def split: option.splits)

lemma claim_run_ok:
  assumes inv: "cron_inv d" and r: "r \<in> set (runs d)" "claimable_run now a r" and a: "a \<le> 4"
  shows "claim_run now (now + DISPATCH_MS) (r_id r) d
    = Inr (claim_run_view (cron_instance d) now r, d\<lparr>runs := map (mark_runs now {r_id r}) (runs d)\<rparr>)"
proof -
  let ?t = "case r_deadline r of None \<Rightarrow> now + DISPATCH_MS | Some t \<Rightarrow> t"
  let ?f = "mark_claimed now ?t" and ?p = "\<lambda>x. r_id x = r_id r \<and> r_state x = Ready \<and> next_due now x"
  let ?d = "d\<lparr>runs := map (mark_runs now {r_id r}) (runs d)\<rparr>"
  have same: "x = r" if "x \<in> set (runs d)" "r_id x = r_id r" for x
    by (rule run_id_inj [OF inv that(1) r(1) that(2)])
  have p: "?p r" using r(2) by (simp add: claimable_run_def)
  have f: "?f r = mark_claimed now (now + DISPATCH_MS) r"
    by (simp add: mark_claimed_def split: option.split)
  have one: "filter ?p (runs d) = [r]"
    by (rule filter_by_key) (use cron_invD(1) [OF inv] r p in simp_all)
  have rows: "map (\<lambda>x. if ?p x then ?f x else x) (runs d) = map (mark_runs now {r_id r}) (runs d)"
    by (rule map_cong [OF refl]) (use same p f in \<open>auto simp: mark_runs_def\<close>)
  have "update_runs ?p ?f d = Inr (1, ?d)"
    unfolding update_runs_Inr rows one
  proof (intro conjI ballI impI)
    fix x assume "x \<in> set (runs d)" "?p x"
    then have x: "x = r" using same by blast
    show "identity_guard x (?f x)" "run_transition x (?f x)" "run_checks (?f x)"
      unfolding x f using mark_claimed_allowed [OF cron_invD(3) [OF inv r(1)] r(2) a refl] by blast+
  qed simp_all
  moreover have "List.find (\<lambda>x. r_id x = r_id r) (runs d) = Some r"
    by (rule find_unique) (use r same in auto)
  moreover have "List.find (\<lambda>x. r_id x = r_id r \<and> r_state x = Claimed) (runs ?d) = Some (?f r)"
  proof (rule find_unique)
    show "?f r \<in> set (runs ?d)" using r(1) f by (force simp: mark_runs_def)
    show "r_id (?f r) = r_id r \<and> r_state (?f r) = Claimed" by (simp add: mark_claimed_def)
    show "y = ?f r" if "y \<in> set (runs ?d)" "r_id y = r_id r \<and> r_state y = Claimed" for y
      using that same f by (auto simp: mark_runs_def)
  qed
  moreover have "r_deadline (?f r) = Some ?t" "r_attempt (?f r) \<le> 255"
    using r(2) a by (auto simp: mark_claimed_def claimable_run_def split: option.split)
  ultimately show ?thesis
    by (simp add: claim_run_def read_claimed_run_tx_def andthen_def reading_def stmt_def require_def
        ret_def claim_run_view_def f)
qed

lemma claim_runs_ok:
  assumes "a \<le> 4"
  shows "cron_inv d \<Longrightarrow> distinct (map r_id rs) \<Longrightarrow> (\<And>r. r \<in> set rs \<Longrightarrow> r \<in> set (runs d) \<and> claimable_run now a r) \<Longrightarrow>
    map_each (claim_run now (now + DISPATCH_MS)) (map r_id rs) d
      = Inr (map (claim_run_view (cron_instance d) now) rs, d\<lparr>runs := map (mark_runs now (r_id ` set rs)) (runs d)\<rparr>)"
proof (induction rs arbitrary: d)
  case (Cons r rs)
  let ?d = "d\<lparr>runs := map (mark_runs now {r_id r}) (runs d)\<rparr>"
  have step: "claim_run now (now + DISPATCH_MS) (r_id r) d = Inr (claim_run_view (cron_instance d) now r, ?d)"
    by (rule claim_run_ok [OF Cons.prems(1) _ _ assms]) (use Cons.prems in auto)
  have "keeps cron_inv (claim_run now (now + DISPATCH_MS) (r_id r))"
    unfolding claim_run_def read_claimed_run_tx_def
    by (intro keeps_intros keeps_update_runs) (auto intro: run_ok_mark_claimed)
  then have inv: "cron_inv ?d" using Cons.prems(1) step by (rule keepsD)
  have fresh: "r_id r \<notin> r_id ` set rs" using Cons.prems(2) by simp
  have "x \<in> set (runs ?d) \<and> claimable_run now a x" if x: "x \<in> set rs" for x
  proof -
    have "r_id x \<noteq> r_id r" using fresh x by (metis imageI)
    then have "mark_runs now {r_id r} x = x" by simp
    then show ?thesis using Cons.prems(3) [of x] x by (force simp: image_iff)
  qed
  then have "map_each (claim_run now (now + DISPATCH_MS)) (map r_id rs) ?d
      = Inr (map (claim_run_view (cron_instance d) now) rs, ?d\<lparr>runs := map (mark_runs now (r_id ` set rs)) (runs ?d)\<rparr>)"
    using Cons.IH [OF inv] Cons.prems(2) by simp
  then show ?case
    using fresh by (simp add: andthen_def step ret_def comp_def mark_runs_twice)
qed (simp add: ret_def map_idI)

lemma earliest_runs_in: "r \<in> set (earliest_runs now a n rs) \<Longrightarrow> r \<in> set rs \<and> claimable_run now a r"
  using set_order_limit_subset unfolding earliest_runs_def by fastforce

lemma earliest_runs_ids: "cron_inv d \<Longrightarrow> distinct (map r_id (earliest_runs now a n (runs d)))"
  unfolding earliest_runs_def
  by (intro distinct_order_limit) (simp add: cron_inv_def distinct_map_filter)

lemma claim_cron_run_eq:
  assumes inv: "cron_inv d" and m: "m \<le> 3" "n \<noteq> 0" "in_i64 (now + DISPATCH_MS)"
  shows "claim_cron_runs now m n d
    = Inr (map (claim_run_view (cron_instance d) now) (earliest_runs now (m + 1) n (runs d)),
        d\<lparr>runs := map (\<lambda>r. mark_runs now (r_id ` set (earliest_runs now (m + 1) n (runs d))) (expire now (m + 1) r)) (runs d)\<rparr>)"
proof -
  define a where "a = m + 1"
  let ?a = a and ?rs = "earliest_runs now a n (runs d)"
  let ?d = "d\<lparr>runs := map (expire now ?a) (runs d)\<rparr>"
  have deadline: "cron_add_ms now 900000 = Inr (now + DISPATCH_MS)"
    using m(3) by (simp add: cron_add_ms_def cron_as_i64_def i64_of_u64_def i64_max_def checked_add_i64_def DISPATCH_MS_def)
  have stmt: "stmt map_sql_error (update_runs (give_up now ?a) (given_up now)) d
      = Inr (length (filter (give_up now ?a) (runs d)), ?d)"
    by (simp add: stmt_def give_up_stmt [OF inv])
  have "keeps cron_inv (stmt map_sql_error (update_runs (give_up now ?a) (given_up now)))"
    by (rule keeps_update_runs) (rule run_ok_given_up)
  then have inv1: "cron_inv ?d" using inv stmt by (rule keepsD)
  have "map_each (claim_run now (now + DISPATCH_MS)) (map r_id ?rs) ?d
      = Inr (map (claim_run_view (cron_instance ?d) now) ?rs, ?d\<lparr>runs := map (mark_runs now (r_id ` set ?rs)) (runs ?d)\<rparr>)"
  proof (rule claim_runs_ok [OF _ inv1 earliest_runs_ids [OF inv]])
    fix r assume "r \<in> set ?rs"
    then have "r \<in> set (filter (claimable_run now ?a) (runs d))" using earliest_runs_in by fastforce
    moreover have "runs ?d = map (expire now ?a) (runs d)" by simp
    ultimately have "r \<in> set (filter (claimable_run now ?a) (runs ?d))" by (simp only: claimable_kept)
    then show "r \<in> set (runs ?d) \<and> claimable_run now ?a r" by simp
  qed (use m in \<open>simp add: a_def\<close>)
  moreover have "order_limit run_order n (filter (claimable_run now ?a) (map (expire now ?a) (runs d))) = ?rs"
    by (simp only: claimable_kept earliest_runs_def)
  ultimately show ?thesis
    using m(1, 2) unfolding claim_cron_runs_def a_def [symmetric]
    by (simp add: andthen_def require_def ret_def lift_def deadline reading_def stmt comp_def)
qed

text \<open>
  C32. On a consistent store, claiming cron runs always succeeds. It hands out the earliest due
  runs that have attempts and time left, at most as many as requested, in order; marks
  exactly those as claimed with one more attempt; fails exactly the dispatched runs that
  are out of time or out of attempts; and leaves every other run as it is. Each run handed
  out is within its attempt budget and before its deadline.
\<close>

theorem cron_claim_exact:
  assumes inv: "cron_inv d" and m: "m \<le> 3" "n \<noteq> 0" "in_i64 (now + DISPATCH_MS)"
  shows "\<exists>cs. transaction (claim_cron_runs now m n) d = (Inr cs,
        d\<lparr>runs := map (\<lambda>r. if r_id r \<in> set (map cc_id cs) then mark_claimed now (now + DISPATCH_MS) r
                        else if give_up now (m + 1) r then given_up now r else r) (runs d)\<rparr>)
      \<and> map cc_id cs = map r_id (order_limit run_order n (filter (claimable_run now (m + 1)) (runs d)))
      \<and> (\<forall>c \<in> set cs. 1 \<le> cc_attempt c \<and> cc_attempt c \<le> m + 1 \<and> now < cc_deadline c)"
proof -
  let ?rs = "earliest_runs now (m + 1) n (runs d)"
  let ?cs = "map (claim_run_view (cron_instance d) now) ?rs"
  have ids: "map cc_id ?cs = map r_id ?rs"
    by (simp add: claim_run_view_def run_view_def mark_claimed_def comp_def)
  have rows: "mark_runs now (r_id ` set ?rs) (expire now (m + 1) r)
      = (if r_id r \<in> r_id ` set ?rs then mark_claimed now (now + DISPATCH_MS) r
         else if give_up now (m + 1) r then given_up now r else r)" if "r \<in> set (runs d)" for r
  proof (cases "r_id r \<in> r_id ` set ?rs")
    case True
    then obtain x where x: "x \<in> set ?rs" "r_id r = r_id x" by blast
    then have "r = x" using run_id_inj [OF inv that, of x] earliest_runs_in by blast
    then have "claimable_run now (m + 1) r" using x(1) earliest_runs_in by blast
    then have "expire now (m + 1) r = r" by (auto simp: expire_def give_up_def claimable_run_def)
    with True show ?thesis by (simp add: mark_runs_def)
  qed (simp add: mark_runs_def expire_def)
  have "1 \<le> cc_attempt c \<and> cc_attempt c \<le> m + 1 \<and> now < cc_deadline c" if "c \<in> set ?cs" for c
    using that by (auto simp: claim_run_view_def run_view_def mark_claimed_def claimable_run_def
        past_deadline_def DISPATCH_MS_def split: option.splits dest!: earliest_runs_in)
  then show ?thesis
    using claim_cron_run_eq [OF assms] rows ids
    by (intro exI [of _ ?cs]) (auto simp: transaction_def earliest_runs_def [symmetric] cong: map_cong)
qed

theorem cron_claim_exact_witness:
  "\<exists>cs d'. transaction (claim_cron_runs 400000 3 10) sample_cron = (Inr cs, d') \<and> map cc_id cs = [90]"
proof -
  have "map r_id (order_limit run_order 10 (filter (claimable_run 400000 (3 + 1)) (runs sample_cron))) = [90]"
    by (simp add: sample_cron_defs order_limit_def claimable_run_def next_due_def past_deadline_def)
  then show ?thesis
    using cron_claim_exact [OF sample_cron_inv, of 3 10 400000]
    by (auto simp: in_i64_def i64_min_def i64_max_def DISPATCH_MS_def)
qed

section \<open>Claims are exclusive\<close>

definition held_runs :: "cron_db \<Rightarrow> nat set" where
  "held_runs d = r_id ` {r \<in> set (runs d). r_state r = Claimed}"

lemma claim_cron_Inr:
  assumes "claim_cron_runs now m n d = Inr (cs, d')"
  shows "m \<le> 3" "n \<noteq> 0" "in_i64 (now + DISPATCH_MS)"
proof -
  from assms obtain t where g: "\<not> (m > 3 \<or> n = 0)" "cron_add_ms now (15 * 60 * 1000) = Inr t"
    unfolding claim_cron_runs_def andthen_Inr tx_Inr by blast
  then show "m \<le> 3" "n \<noteq> 0" "in_i64 (now + DISPATCH_MS)"
    by (auto simp: cron_add_ms_def cron_as_i64_def result_simps rust_arith DISPATCH_MS_def)
qed

lemma held_after:
  "r_id ` {r \<in> set (map (\<lambda>r. mark_runs now ids (expire now a r)) rs). r_state r = Claimed}
     = r_id ` {r \<in> set rs. r_state r = Claimed} \<union> (ids \<inter> r_id ` set rs)"
proof -
  have state: "r_state (mark_runs now ids (expire now a r)) = Claimed \<longleftrightarrow> r_id r \<in> ids \<or> r_state r = Claimed" for r
    by (simp add: mark_runs_def mark_claimed_def expire_def give_up_def)
  have "{r \<in> set (map (\<lambda>r. mark_runs now ids (expire now a r)) rs). r_state r = Claimed}
      = (\<lambda>r. mark_runs now ids (expire now a r)) ` {r \<in> set rs. r_id r \<in> ids \<or> r_state r = Claimed}"
    using state by auto
  then show ?thesis by (auto simp: image_image)
qed

interpretation cron_claims: claim_store
  "\<lambda>(now, m, n). transaction (claim_cron_runs now m n)" "\<lambda>(now, m, n). n" "\<lambda>c. [cc_id c]" held_runs cron_inv
proof unfold_locales
  fix d d' :: cron_db and a :: "int \<times> nat \<times> nat" and cs
  assume inv: "cron_inv d" and run: "(case a of (now, m, n) \<Rightarrow> transaction (claim_cron_runs now m n)) d = (Inr cs, d')"
  obtain now m n where a: "a = (now, m, n)" by (metis prod.exhaust)
  have eq: "claim_cron_runs now m n d = Inr (cs, d')"
    using run a by (auto simp: transaction_def split: sum.splits)
  let ?rs = "earliest_runs now (m + 1) n (runs d)"
  note r = claim_cron_run_eq [OF inv claim_cron_Inr [OF eq], unfolded eq sum.inject prod.inject]
  have cs: "cs = map (claim_run_view (cron_instance d) now) ?rs"
    and d': "runs d' = map (\<lambda>r. mark_runs now (r_id ` set ?rs) (expire now (m + 1) r)) (runs d)"
    using r by simp_all
  have ids: "concat (map (\<lambda>c. [cc_id c]) cs) = map r_id ?rs"
    by (simp add: cs claim_run_view_def run_view_def mark_claimed_def comp_def)
  have rs: "x \<in> set (runs d) \<and> r_state x = Ready" if "x \<in> set ?rs" for x
    using earliest_runs_in [OF that] by (simp add: claimable_run_def)
  have "held_runs d \<inter> r_id ` set ?rs = {}"
    using rs run_id_inj [OF inv] by (auto simp: held_runs_def) (metis cron_run_state.distinct(1))
  moreover have "r_id ` set ?rs \<subseteq> r_id ` set (runs d)" using rs by blast
  then have "held_runs d' = held_runs d \<union> r_id ` set ?rs"
    unfolding held_runs_def d' held_after by blast
  moreover have "cron_inv d'" by (rule keepsD [OF keeps_claim_cron_runs inv eq])
  ultimately show "cron_inv d' \<and> distinct (concat (map (\<lambda>c. [cc_id c]) cs))
      \<and> held_runs d \<inter> set (concat (map (\<lambda>c. [cc_id c]) cs)) = {}
      \<and> held_runs d' = held_runs d \<union> set (concat (map (\<lambda>c. [cc_id c]) cs)) \<and> length cs \<le> (case a of (now, m, n) \<Rightarrow> n)"
    unfolding ids using earliest_runs_ids [OF inv] by (simp add: cs a earliest_runs_def)
next
  fix d d' :: cron_db and a :: "int \<times> nat \<times> nat" and e
  show "(case a of (now, m, n) \<Rightarrow> transaction (claim_cron_runs now m n)) d = (Inl e, d') \<Longrightarrow> d' = d"
    by (auto simp: transaction_def split: sum.splits prod.splits)
qed

end
