(* ===== verification/Cron_Results.thy ===== *)
theory Cron_Results
  imports Cron_Delivery
begin

text \<open>
  Results of cron deliveries: the attempt number fences a result against later deliveries, a
  known result moves the run to exactly one next state, retries back off exponentially, and
  history collection keeps live runs and the newest finished ones.
\<close>

section \<open>The attempt fence\<close>

lemma attempt_fixed:
  "r_state r = Claimed \<Longrightarrow> st \<in> {Complete, Ready, Failed} \<Longrightarrow>
     run_transition r (completed_run c st no_retry code t now r) \<Longrightarrow> cc_attempt c = r_attempt r"
  by (auto simp: run_transition_def completed_run_def cron_terminal_def)

lemma complete_update_fenced:
  assumes "r \<in> set (runs d)" "held_by c r" "cc_attempt c \<noteq> r_attempt r" "st \<in> {Complete, Ready, Failed}"
  shows "update_runs (held_by c) (completed_run c st no_retry code t now) d = Inl ConstraintFailed"
proof -
  have "\<not> run_transition r (completed_run c st no_retry code t now r)"
    using attempt_fixed [of r st c] assms(2-4) by (auto simp: held_by_def)
  with assms(1, 2) show ?thesis by (auto simp: update_runs_def list_all_iff)
qed

text \<open>
  The attempt number is a fencing token: when a run has been claimed again since a delivery
  was handed out, the result of that earlier delivery is refused and the tables stay exactly
  as they are, whatever the result was.
\<close>

theorem cron_completion_fenced:
  assumes "r \<in> set (runs d)" "held_by c r" "cc_attempt c \<noteq> r_attempt r"
  shows "\<exists>e. transaction (complete_cron_run c completion now m) d = (Inl e, d)"
proof -
  have exact: "list_ex (held_by c) (runs d)" using assms(1, 2) by (auto simp: list_ex_iff)
  have "\<exists>e. complete_cron_run c completion now m d = Inl e"
  proof (cases "m > 3")
    case False
    show ?thesis
    proof (cases "completion_retry c completion now m")
      case (Inr t)
      obtain st no_retry code res where o: "completion_outcome c completion t m = (st, no_retry, code, res)"
        by (metis prod.exhaust)
      have "update_runs (held_by c) (completed_run c st no_retry code t now) d = Inl ConstraintFailed"
        by (rule complete_update_fenced [OF assms outcome_state [OF o]])
      with False Inr o exact show ?thesis
        by (simp add: complete_cron_run_def andthen_def require_def ret_def reading_def lift_def stmt_def)
    qed (use False exact in \<open>simp add: complete_cron_run_def andthen_def require_def ret_def reading_def lift_def\<close>)
  qed (simp add: complete_cron_run_def andthen_def require_def throw_def)
  then show ?thesis by (auto simp: transaction_def)
qed

definition claimed_twice :: cron_db where
  "claimed_twice = sample_cron\<lparr>runs := [sample_run\<lparr>r_state := Claimed, r_attempt := 2, r_next := None,
     r_claimed := Some 500000, r_first := Some 400000, r_deadline := Some 1300000\<rparr>]\<rparr>"

definition first_delivery :: claimed_cron_run where
  "first_delivery = \<lparr>cc_id = 90, cc_activation = 7, cc_instance = 4, cc_worker = 1, cc_version = 2,
     cc_generation = 1, cc_expression = ''*/5 * * * *'', cc_scheduled = 300000, cc_attempt = 1,
     cc_deadline = 1300000\<rparr>"

lemmas delivery_defs = claimed_twice_def first_delivery_def held_by_def sample_cron_defs

lemma claimed_twice_inv: "cron_inv claimed_twice"
  by (simp add: cron_inv_def delivery_defs run_ok_def run_checks_def dispatch_check_def
      shape_check_def schedule_ok_def sql_length_def)

theorem cron_completion_fenced_witness:
  "\<exists>e. transaction (complete_cron_run first_delivery Success 600000 3) claimed_twice = (Inl e, claimed_twice)"
  by (rule cron_completion_fenced [of "hd (runs claimed_twice)"]) (simp_all add: delivery_defs)

section \<open>Retry delay\<close>

lemma retry_time:
  assumes "1 \<le> a" "a \<le> 4" "in_i64 now" "in_i64 (now + 17000)"
  shows "\<exists>t. cron_retry_at i a now = Inr t \<and> now + 1000 * 2 ^ a \<le> t \<and> t < now + 1000 * 2 ^ a + 1000"
proof -
  define j where "j = i mod 65536 mod 1000"
  have j: "j < 1000" by (simp add: j_def)
  have range: "i64_min \<le> now" "now + 17000 \<le> i64_max" using assms(3, 4) by (auto simp: in_i64_def)
  have fits: "cron_add_ms now (1000 * k + j) = Inr (now + int (1000 * k + j))" if "k \<le> 16" for k
    using that j range
    by (simp add: cron_add_ms_def cron_as_i64_def i64_of_u64_def checked_add_i64_def in_i64_def i64_max_def i64_min_def)
  have "cron_retry_at i a now = cron_add_ms now (1000 * 2 ^ a + j)"
  proof -
    have "a = 1 \<or> a = 2 \<or> a = 3 \<or> a = 4" using assms(1, 2) by auto
    then show ?thesis
      using j unfolding cron_retry_at_def j_def [symmetric]
      by (elim disjE) (simp_all add: checked_mul_u64_def checked_add_u64_def u64_max_def)
  qed
  moreover have "(2 :: nat) ^ a \<le> 16" using power_increasing [OF assms(2), of "2 :: nat"] by simp
  ultimately show ?thesis using fits [of "2 ^ a"] j by simp
qed

text \<open>
  The delay before retrying attempt \<open>a\<close> is \<open>2\<^sup>a\<close> seconds plus a jitter below one second that
  depends only on the run's identity; within the four attempts of a run nothing overflows.
\<close>

theorem cron_retry_bounds:
  assumes "1 \<le> a" "a \<le> 4" "in_i64 now" "in_i64 (now + 17000)"
  shows "\<exists>t. cron_retry_at i a now = Inr t \<and> now + 1000 * 2 ^ a \<le> t \<and> t < now + 1000 * 2 ^ a + 1000"
  by (rule retry_time [OF assms])

theorem cron_retry_bounds_witness:
  "\<exists>t. cron_retry_at 90 3 500000 = Inr t \<and> 508000 \<le> t \<and> t < 509000"
  using cron_retry_bounds [of 3 500000 90] by (simp add: in_i64_def i64_min_def i64_max_def)

section \<open>Applying a result\<close>

definition code_fits :: "cron_completion \<Rightarrow> bool" where
  "code_fits completion = (case completion of Success \<Rightarrow> True
     | Failure _ code \<Rightarrow> 1 \<le> sql_length code \<and> sql_length code \<le> 128)"

lemma outcome_code:
  "completion_outcome c completion t m = (st, no_retry, code, res) \<Longrightarrow> code_fits completion \<Longrightarrow>
     (case code of None \<Rightarrow> True | Some e \<Rightarrow> 1 \<le> sql_length e \<and> sql_length e \<le> 128)"
  by (auto simp: completion_outcome_def code_fits_def sql_length_codes
      split: cron_completion.splits if_splits)

lemma completed_allowed:
  assumes "run_ok r" "held_by c r" "cc_attempt c = r_attempt r"
    and "st \<in> {Complete, Ready, Failed}" "st = Ready \<longleftrightarrow> t \<noteq> None" "st = Ready \<longrightarrow> \<not> no_retry"
    and "case code of None \<Rightarrow> True | Some e \<Rightarrow> 1 \<le> sql_length e \<and> sql_length e \<le> 128"
  shows "identity_guard r (completed_run c st no_retry code t now r)
    \<and> run_transition r (completed_run c st no_retry code t now r)
    \<and> run_checks (completed_run c st no_retry code t now r)"
proof (intro conjI)
  let ?r = "completed_run c st no_retry code t now r"
  have claimed: "r_state r = Claimed" "\<not> r_no_retry r" using assms(1, 2) by (auto simp: held_by_def run_ok_def cron_terminal_def)
  show "identity_guard r ?r"
    by (simp add: identity_guard_def completed_run_def sql_ne_def split: option.split)
  show "run_transition r ?r"
    using assms(3-6) claimed by (auto simp: run_transition_def completed_run_def cron_terminal_def)
  have "shape_check ?r" using assms(4, 5) by (auto simp: shape_check_def completed_run_def cron_terminal_def)
  moreover have "dispatch_check ?r"
    using assms(1, 3) by (simp add: run_ok_def run_checks_def dispatch_check_def completed_run_def split: option.splits)
  ultimately show "run_checks ?r"
    using assms(1, 3, 7) by (simp add: run_ok_def run_checks_def completed_run_def)
qed

lemma complete_run_eq:
  assumes inv: "cron_inv d" and r: "r \<in> set (runs d)" "held_by c r" "cc_attempt c = r_attempt r"
    and m: "m \<le> 3" and t: "completion_retry c completion now m = Inr t"
    and o: "completion_outcome c completion t m = (st, no_retry, code, res)" and fits: "code_fits completion"
  shows "complete_cron_run c completion now m d
    = Inr (res, d\<lparr>runs := map (\<lambda>x. if x = r then completed_run c st no_retry code t now r else x) (runs d)\<rparr>)"
proof -
  let ?f = "completed_run c st no_retry code t now"
  have same: "x = r" if "x \<in> set (runs d)" "held_by c x" for x
    using run_id_inj [OF inv that(1) r(1)] that(2) r(2) by (simp add: held_by_def)
  have ready: "st = Ready \<longleftrightarrow> t \<noteq> None" "st = Ready \<longrightarrow> \<not> no_retry"
    using o t by (auto simp: completion_outcome_def completion_retry_def split: cron_completion.splits if_splits)
  have ok: "identity_guard r (?f r) \<and> run_transition r (?f r) \<and> run_checks (?f r)"
    by (rule completed_allowed [OF cron_invD(3) [OF inv r(1)] r(2, 3) outcome_state [OF o] ready outcome_code [OF o fits]])
  have "filter (held_by c) (runs d) = filter (\<lambda>x. r_id x = r_id r \<and> held_by c x) (runs d)"
    by (rule filter_cong [OF refl]) (use r(2) in \<open>simp add: held_by_def\<close>)
  also have "\<dots> = [r]" by (rule filter_by_key) (use cron_invD(1) [OF inv] r in simp_all)
  finally have one: "filter (held_by c) (runs d) = [r]" .
  have rows: "map (\<lambda>x. if held_by c x then ?f x else x) (runs d) = map (\<lambda>x. if x = r then ?f r else x) (runs d)"
    by (rule map_cong [OF refl]) (metis same r(2))
  have "update_runs (held_by c) ?f d = Inr (1, d\<lparr>runs := map (\<lambda>x. if x = r then ?f r else x) (runs d)\<rparr>)"
    unfolding update_runs_Inr one rows
  proof (intro conjI ballI impI)
    fix x assume "x \<in> set (runs d)" "held_by c x"
    then have "x = r" by (rule same)
    then show "identity_guard x (?f x)" "run_transition x (?f x)" "run_checks (?f x)" using ok by blast+
  qed simp_all
  moreover have "list_ex (held_by c) (runs d)" using r(1, 2) by (auto simp: list_ex_iff)
  ultimately show ?thesis
    using m by (simp add: complete_cron_run_def andthen_def require_def ret_def reading_def lift_def stmt_def t o)
qed

lemma retry_decision:
  assumes "run_ok r" "held_by c r" "cc_attempt c = r_attempt r" "m \<le> 3" "in_i64 now" "in_i64 (now + 17000)"
  shows "\<exists>t. completion_retry c completion now m = Inr t \<and> (case completion of
      Success \<Rightarrow> t = None
    | Failure no_retry _ \<Rightarrow> (case t of
        Some u \<Rightarrow> \<not> no_retry \<and> r_attempt r \<le> m \<and> now + 1000 * 2 ^ r_attempt r \<le> u \<and> u < cc_deadline c
      | None \<Rightarrow> no_retry \<or> m < r_attempt r \<or> cc_deadline c < now + 1000 * 2 ^ r_attempt r + 1000))"
proof (cases completion)
  case (Failure no_retry code)
  show ?thesis
  proof (cases "\<not> no_retry \<and> cc_attempt c < m + 1")
    case True
    have "1 \<le> r_attempt r" "r_attempt r \<le> 4"
      using assms(1, 2) by (auto simp: run_ok_def held_by_def run_checks_def)
    then obtain u where "cron_retry_at (cc_id c) (cc_attempt c) now = Inr u"
      "now + 1000 * 2 ^ r_attempt r \<le> u" "u < now + 1000 * 2 ^ r_attempt r + 1000"
      using retry_time [of "cc_attempt c" now] assms(3, 5, 6) by auto
    with True Failure assms(3) show ?thesis by (auto simp: completion_retry_def)
  qed (use Failure assms(3) in \<open>auto simp: completion_retry_def\<close>)
qed (simp add: completion_retry_def)

text \<open>
  C33. A known result of the current delivery is always applied, to that run alone and without
  changing its attempt count: success completes it; a failure retries it after the
  exponential delay exactly when retries are allowed, attempts are left and the retry time is
  before the deadline; any other failure is final.
\<close>

theorem cron_complete_exact:
  assumes inv: "cron_inv d" and r: "r \<in> set (runs d)" "held_by c r" "cc_attempt c = r_attempt r"
    and m: "m \<le> 3" and now: "in_i64 now" "in_i64 (now + 17000)" and fits: "code_fits completion"
  shows "\<exists>res r'. transaction (complete_cron_run c completion now m) d
        = (Inr res, d\<lparr>runs := map (\<lambda>x. if x = r then r' else x) (runs d)\<rparr>)
      \<and> r_id r' = r_id r \<and> r_attempt r' = r_attempt r
      \<and> (case completion of
           Success \<Rightarrow> res = Terminal \<and> r_state r' = Complete
         | Failure no_retry _ \<Rightarrow>
             res = Retried \<and> r_state r' = Ready \<and> \<not> no_retry \<and> r_attempt r \<le> m
               \<and> (\<exists>t. r_next r' = Some t \<and> now + 1000 * 2 ^ r_attempt r \<le> t \<and> t < cc_deadline c)
           \<or> res = Terminal \<and> r_state r' = Failed
               \<and> (no_retry \<or> m < r_attempt r \<or> cc_deadline c < now + 1000 * 2 ^ r_attempt r + 1000))"
proof -
  from retry_decision [OF cron_invD(3) [OF inv r(1)] r(2, 3) m now, of completion]
  obtain t where t: "completion_retry c completion now m = Inr t" and dec: "case completion of
      Success \<Rightarrow> t = None
    | Failure no_retry _ \<Rightarrow> (case t of
        Some u \<Rightarrow> \<not> no_retry \<and> r_attempt r \<le> m \<and> now + 1000 * 2 ^ r_attempt r \<le> u \<and> u < cc_deadline c
      | None \<Rightarrow> no_retry \<or> m < r_attempt r \<or> cc_deadline c < now + 1000 * 2 ^ r_attempt r + 1000)" by blast
  obtain st no_retry code res where o: "completion_outcome c completion t m = (st, no_retry, code, res)"
    by (metis prod.exhaust)
  let ?r = "completed_run c st no_retry code t now r"
  have "transaction (complete_cron_run c completion now m) d
      = (Inr res, d\<lparr>runs := map (\<lambda>x. if x = r then ?r else x) (runs d)\<rparr>)"
    using complete_run_eq [OF inv r m t o fits] by (simp add: transaction_def)
  moreover have "r_id ?r = r_id r \<and> r_attempt ?r = r_attempt r" using r(3) by (simp add: completed_run_def)
  ultimately show ?thesis
    using dec o
    by (intro exI [of _ res] exI [of _ ?r] conjI)
       (auto simp: completion_outcome_def completed_run_def split: cron_completion.splits option.splits if_splits)
qed

theorem cron_complete_exact_witness:
  "\<exists>res d'. transaction (complete_cron_run (first_delivery\<lparr>cc_attempt := 2\<rparr>) Success 600000 3) claimed_twice = (Inr res, d')
     \<and> res = Terminal"
  using cron_complete_exact [OF claimed_twice_inv, of "hd (runs claimed_twice)" "first_delivery\<lparr>cc_attempt := 2\<rparr>" 3 600000 Success]
  by (auto simp: delivery_defs code_fits_def in_i64_def i64_min_def i64_max_def)

section \<open>History\<close>

definition finished_key :: "cron_run_row \<Rightarrow> int \<times> nat" where
  "finished_key r = (case r_completed r of None \<Rightarrow> 0 | Some t \<Rightarrow> t, r_id r)"

lemma finished_time: "run_ok r \<Longrightarrow> cron_terminal (r_state r) \<Longrightarrow> \<exists>t. r_completed r = Some t"
  by (cases "r_state r") (simp_all add: run_ok_def run_checks_def shape_check_def cron_terminal_def)

lemma newer_iff:
  assumes "run_ok r" "run_ok x" "cron_terminal (r_state r)" "cron_terminal (r_state x)"
  shows "newer_terminal r x \<longleftrightarrow> r_activation x = r_activation r \<and> finished_key r < finished_key x"
proof -
  obtain a b where "r_completed r = Some a" "r_completed x = Some b"
    using finished_time assms by blast
  with assms(4) show ?thesis by (auto simp: newer_terminal_def finished_key_def less_prod_simp)
qed

text \<open>Of the finished runs of an activation, at most \<open>cap\<close> have an ordinal up to \<open>cap\<close>.\<close>

lemma ordinal_count:
  assumes inv: "cron_inv d"
  shows "card {r \<in> set (runs d). cron_terminal (r_state r) \<and> r_activation r = a \<and> history_ordinal r (runs d) \<le> cap} \<le> cap"
    (is "card ?S \<le> cap")
proof (cases "?S = {}")
  case False
  define m where "m = Min (finished_key ` ?S)"
  have fin: "finite ?S" by simp
  have "m \<in> finished_key ` ?S" unfolding m_def using False fin by (intro Min_in) auto
  then obtain r where r: "r \<in> ?S" "m = finished_key r" by blast
  have "x \<in> set (filter (newer_terminal r) (runs d))" if x: "x \<in> ?S - {r}" for x
  proof -
    have key: "finished_key x \<in> finished_key ` ?S" using x by blast
    have "finished_key r \<le> finished_key x"
      unfolding r(2) [symmetric] m_def by (rule Min_le [OF finite_imageI [OF fin] key])
    moreover have "r_id x \<noteq> r_id r" using run_id_inj [OF inv, of x r] x r(1) by blast
    then have "finished_key r \<noteq> finished_key x" by (simp add: finished_key_def)
    ultimately have lt: "finished_key r < finished_key x" by (rule order_le_neq_trans)
    have mem: "x \<in> set (runs d)" "r \<in> set (runs d)" "cron_terminal (r_state x)" "cron_terminal (r_state r)"
      "r_activation x = r_activation r" using x r(1) by simp_all
    then have "newer_terminal r x"
      using newer_iff [OF cron_invD(3) [OF inv mem(2)] cron_invD(3) [OF inv mem(1)] mem(4, 3)] lt by blast
    with mem(1) show ?thesis by simp
  qed
  then have "card (?S - {r}) \<le> card (set (filter (newer_terminal r) (runs d)))"
    by (intro card_mono) auto
  also have "\<dots> \<le> length (filter (newer_terminal r) (runs d))" by (rule card_length)
  finally have "card (?S - {r}) < cap" using r(1) by (simp add: history_ordinal_def)
  then show ?thesis using card_Suc_Diff1 [OF fin r(1)] by linarith
qed (simp only: card.empty)

lemma length_filter_card: "distinct (map k xs) \<Longrightarrow> length (filter p xs) = card {x \<in> set xs. p x}"
  by (metis distinct_card distinct_filter distinct_map set_filter)

text \<open>
  C35. History collection always succeeds and deletes only finished runs: every ready or claimed
  run stays; what is left of an activation's finished runs is no older than the retention
  period and at most the cap in number; and a finished run is deleted only because it is older
  than that or because at least as many newer finished runs of its activation exist.
\<close>

theorem cron_gc_retains:
  assumes inv: "cron_inv d" and keep: "keep \<noteq> 0" "int keep \<le> i64_max" and cap: "cap \<noteq> 0"
  shows "\<exists>n rs. transaction (gc_cron_history now keep cap) d = (Inr n, d\<lparr>runs := rs\<rparr>)
    \<and> n + length rs = length (runs d) \<and> set rs \<subseteq> set (runs d)
    \<and> (\<forall>r \<in> set rs. cron_terminal (r_state r) \<longrightarrow> (\<exists>t. r_completed r = Some t \<and> saturating_sub_i64 now (int keep) \<le> t))
    \<and> (\<forall>a. length (filter (\<lambda>r. cron_terminal (r_state r) \<and> r_activation r = a) rs) \<le> cap)
    \<and> (\<forall>r \<in> set (runs d) - set rs. cron_terminal (r_state r)
         \<and> (\<exists>t. r_completed r = Some t \<and> (t < saturating_sub_i64 now (int keep)
              \<or> cap \<le> length (filter (newer_terminal r) (runs d)))))"
proof -
  let ?gc = "gc_candidate (saturating_sub_i64 now (int keep)) cap (runs d)"
  let ?rs = "filter (\<lambda>r. \<not> ?gc r) (runs d)"
  have run: "transaction (gc_cron_history now keep cap) d = (Inr (length (filter ?gc (runs d))), d\<lparr>runs := ?rs\<rparr>)"
    using keep cap by (simp add: transaction_def gc_cron_history_def andthen_def require_def ret_def lift_def
        reading_def stmt_def delete_runs_def cron_as_i64_def i64_of_u64_def)
  have ended: "\<exists>t. r_completed r = Some t" if "r \<in> set (runs d)" "cron_terminal (r_state r)" for r
    using finished_time cron_invD(3) [OF inv that(1)] that(2) by blast
  have count: "length (filter (\<lambda>r. cron_terminal (r_state r) \<and> r_activation r = a) ?rs) \<le> cap" for a
  proof -
    have "length (filter (\<lambda>r. cron_terminal (r_state r) \<and> r_activation r = a) ?rs)
        = card {r \<in> set ?rs. cron_terminal (r_state r) \<and> r_activation r = a}"
      by (rule length_filter_card [of r_id]) (use cron_invD(1) [OF inv] in \<open>simp add: distinct_map_filter\<close>)
    also have "\<dots> \<le> card {r \<in> set (runs d). cron_terminal (r_state r) \<and> r_activation r = a \<and> history_ordinal r (runs d) \<le> cap}"
      by (rule card_mono) (auto simp: gc_candidate_def)
    also have "\<dots> \<le> cap" by (rule ordinal_count [OF inv])
    finally show ?thesis .
  qed
  have kept: "\<exists>t. r_completed r = Some t \<and> saturating_sub_i64 now (int keep) \<le> t"
    if "r \<in> set ?rs" "cron_terminal (r_state r)" for r
    using that ended [of r] by (auto simp: gc_candidate_def)
  have dropped: "cron_terminal (r_state r) \<and> (\<exists>t. r_completed r = Some t \<and> (t < saturating_sub_i64 now (int keep)
              \<or> cap \<le> length (filter (newer_terminal r) (runs d))))" if "r \<in> set (runs d) - set ?rs" for r
    using that ended [of r] by (auto simp: gc_candidate_def history_ordinal_def)
  have sizes: "length (filter ?gc (runs d)) + length ?rs = length (runs d)" by (rule sum_length_filter_compl)
  have sub: "set ?rs \<subseteq> set (runs d)" by (rule filter_is_subset)
  note kept' = ballI [OF impI [OF kept]] and dropped' = ballI [OF dropped] and count' = allI [OF count]
  show ?thesis
    by (rule exI [of _ "length (filter ?gc (runs d))"], rule exI [of _ ?rs])
       (rule conjI [OF run conjI [OF sizes conjI [OF sub conjI [OF kept' conjI [OF count' dropped']]]]]; assumption)
qed

theorem cron_gc_retains_witness:
  "\<exists>n rs. transaction (gc_cron_history 9000000 1000 5) claimed_twice = (Inr n, claimed_twice\<lparr>runs := rs\<rparr>)
     \<and> n + length rs = 1"
  using cron_gc_retains [OF claimed_twice_inv, of 1000 5 9000000] by (auto simp: delivery_defs i64_max_def)

end
