(* ===== verification/Recovery.thy ===== *)
theory Recovery
  imports Alarm_Proofs Cron_Results Queue_Dlq
begin

text \<open>
  Startup recovery of interrupted dispatches (\<open>crates/storage/src/scheduler/recovery.rs\<close> with
  \<open>reset_claims.sql\<close>): one transaction over the alarm, queue and cron tables that returns every
  claim to its schedule before dispatch starts.
\<close>

section \<open>The scheduler tables\<close>

record scheduler_db =
  sd_jobs :: jobs
  sd_queue :: db
  sd_cron :: cron_db

definition on_jobs :: "(jobs, 'a) stx \<Rightarrow> (scheduler_db, 'a) stx" where
  "on_jobs m d = (case m (sd_jobs d) of Inl e \<Rightarrow> Inl e | Inr (x, js) \<Rightarrow> Inr (x, d\<lparr>sd_jobs := js\<rparr>))"

definition on_queue :: "(db, 'a) stx \<Rightarrow> (scheduler_db, 'a) stx" where
  "on_queue m d = (case m (sd_queue d) of Inl e \<Rightarrow> Inl e | Inr (x, q) \<Rightarrow> Inr (x, d\<lparr>sd_queue := q\<rparr>))"

definition on_cron :: "(cron_db, 'a) stx \<Rightarrow> (scheduler_db, 'a) stx" where
  "on_cron m d = (case m (sd_cron d) of Inl e \<Rightarrow> Inl e | Inr (x, c) \<Rightarrow> Inr (x, d\<lparr>sd_cron := c\<rparr>))"

section \<open>Statements of \<open>reset_claims.sql\<close>\<close>

definition released :: "int \<Rightarrow> message_row \<Rightarrow> message_row" where
  "released now m = m\<lparr>m_claim := None, m_attempts := m_attempts m + 1,
                      m_available := max (m_enqueued m) (now + 250)\<rparr>"

definition release_messages :: "int \<Rightarrow> unit tx" where
  "release_messages now =
     andthen (stmt map_sql_error (update_messages (\<lambda>m. m_claim m \<noteq> None) (released now))) (\<lambda>_. ret ())"

definition delete_all_batches :: "unit tx" where
  "delete_all_batches = andthen (stmt map_sql_error (delete_batches (\<lambda>_. True))) (\<lambda>_. ret ())"

definition exhausted :: "message_row \<Rightarrow> consumer_row \<Rightarrow> bool" where
  "exhausted m c \<longleftrightarrow> m_claim m = None \<and> c_queue c = m_queue m \<and> m_attempts m > c_max_retries c"

text \<open>
  \<open>INSERT OR IGNORE\<close>: the authority trigger and the foreign keys still abort; a duplicate or a
  failed check skips the row.
\<close>

definition insert_pending_or_ignore :: "pending_row \<Rightarrow> db \<Rightarrow> sql_error + (unit \<times> db)" where
  "insert_pending_or_ignore p d =
    (if \<not> pending_authority p d then Inl ConstraintFailed
     else if list_ex (\<lambda>x. p_message x = p_message p) (pendings d)
          \<or> p_source p = p_target p \<or> p_target_gen p = 0 \<or> p_attempts p = 0
     then Inr ((), d)
     else if \<not> has_queue (p_source p) d \<or> \<not> has_queue (p_target p) d then Inl ConstraintFailed
     else Inr ((), d\<lparr>pendings := pendings d @ [p]\<rparr>))"

definition exhausted_pending :: "int \<Rightarrow> message_row \<Rightarrow> consumer_row \<Rightarrow> pending_row list" where
  "exhausted_pending now m c = (if exhausted m c then
     (case c_dlq c of None \<Rightarrow> []
      | Some (t, g) \<Rightarrow> [\<lparr>p_message = m_id m, p_source = m_queue m, p_target = t, p_target_gen = g,
           p_attempts = m_attempts m, p_next = now + 250, p_created = now\<rparr>])
     else [])"

definition pendings_to_insert :: "int \<Rightarrow> db \<Rightarrow> pending_row list" where
  "pendings_to_insert now d =
     concat (map (\<lambda>m. concat (map (exhausted_pending now m) (consumers d))) (messages d))"

definition insert_exhausted :: "int \<Rightarrow> unit tx" where
  "insert_exhausted now = andthen (reading (pendings_to_insert now)) (\<lambda>ps.
     for_each (\<lambda>p. stmt map_sql_error (insert_pending_or_ignore p)) ps)"

definition undeliverable :: "consumer_row list \<Rightarrow> message_row \<Rightarrow> bool" where
  "undeliverable cs m \<longleftrightarrow> list_ex (\<lambda>c. exhausted m c \<and> c_dlq c = None) cs"

definition delete_exhausted :: "unit tx" where
  "delete_exhausted = andthen (reading consumers) (\<lambda>cs.
     andthen (stmt map_sql_error (delete_messages (undeliverable cs))) (\<lambda>_. ret ()))"

definition reset_claims_tx :: "int \<Rightarrow> nat \<Rightarrow> (scheduler_db, unit) stx" where
  "reset_claims_tx now cron_max_retries =
     andthen (on_jobs (reset_job_claims now)) (\<lambda>_.
     andthen (on_queue (release_messages now)) (\<lambda>_.
     andthen (on_queue delete_all_batches) (\<lambda>_.
     andthen (on_cron (reset_cron_claims now cron_max_retries)) (\<lambda>_.
     andthen (on_queue (insert_exhausted now)) (\<lambda>_.
       on_queue delete_exhausted)))))"

definition reset_claims :: "int \<Rightarrow> nat \<Rightarrow> (scheduler_db, unit) stx" where
  "reset_claims now cron_max_retries =
     andthen (require SchedulerInternalProtocolError
        (\<not> (cron_max_retries > 3 \<or> checked_add_i64 now 250 = None))) (\<lambda>_.
       reset_claims_tx now cron_max_retries)"

section \<open>Each statement succeeds\<close>

lemma reset_jobs_ok:
  assumes "jobs_inv js"
  shows "reset_job_claims now js
    = Inr ((), map (\<lambda>j. if j_state j = JobClaimed then j\<lparr>j_state := Scheduled, j_updated := now\<rparr> else j) js)"
  using assms
  by (simp add: reset_job_claims_def andthen_def stmt_def update_jobs_def ret_def jobs_inv_def
      list_all_iff job_checks_def)

definition release_one :: "int \<Rightarrow> message_row \<Rightarrow> message_row" where
  "release_one now m = (if m_claim m \<noteq> None then released now m else m)"

lemma release_one_simps [simp]:
  "m_claim (release_one now m) = None" "m_id (release_one now m) = m_id m"
  "m_queue (release_one now m) = m_queue m" "m_seq (release_one now m) = m_seq m"
  "m_body (release_one now m) = m_body m" "m_expires (release_one now m) = m_expires m"
  by (simp_all add: release_one_def released_def)

lemma release_messages_ok:
  assumes "queue_inv d"
  shows "release_messages now d = Inr ((), d\<lparr>messages := map (release_one now) (messages d)\<rparr>)"
proof -
  have "immutable_guard m (released now m) \<and> transition_guard d m (released now m) \<and> message_checks (released now m)"
    if m: "m \<in> set (messages d)" "m_claim m \<noteq> None" for m
  proof -
    obtain c where c: "m_claim m = Some c" using m(2) by blast
    have "claim_backed d (m_queue m) c"
      using queue_invD(4) [OF assms] m(1) c by (auto simp: claims_ok_def list_all_iff claim_ok_def)
    moreover have "message_checks m"
      using queue_invD(2) [OF assms] m(1) by (auto simp: rows_ok_def list_all_iff)
    ultimately show ?thesis
      by (simp add: immutable_guard_def transition_guard_def released_def message_checks_def c)
  qed
  then have "update_messages (\<lambda>m. m_claim m \<noteq> None) (released now) d
      = Inr (length (filter (\<lambda>m. m_claim m \<noteq> None) (messages d)), d\<lparr>messages := map (release_one now) (messages d)\<rparr>)"
    by (simp add: update_messages_def list_all_iff release_one_def [abs_def])
  then show ?thesis by (simp add: release_messages_def andthen_def stmt_def ret_def)
qed

lemma delete_batches_ok:
  assumes "\<forall>m \<in> set (messages d). m_claim m = None"
  shows "delete_all_batches d = Inr ((), d\<lparr>batches := []\<rparr>)"
  using assms
  by (simp add: delete_all_batches_def andthen_def stmt_def ret_def delete_batches_def list_ex_iff)

lemma unknown_allowed:
  assumes "run_ok r" "r_state r = Claimed"
  shows "identity_guard r ((unknown_run a n now r)\<lparr>r_unknown := u\<rparr>)
    \<and> run_transition r ((unknown_run a n now r)\<lparr>r_unknown := u\<rparr>)
    \<and> run_checks ((unknown_run a n now r)\<lparr>r_unknown := u\<rparr>)"
  using assms
  by (simp add: run_ok_def unknown_run_def identity_guard_def sql_ne_def run_transition_def run_checks_def
      dispatch_check_def shape_check_def cron_terminal_def sql_length_codes split: option.splits)

lemma reset_cron_ok:
  assumes "cron_inv c"
  shows "\<exists>c'. reset_cron_claims now m c = Inr ((), c')"
proof -
  have "\<exists>r. update_runs (\<lambda>r. r_state r = Claimed) (\<lambda>r. (unknown_run (m + 1) (now + 250) now r)
      \<lparr>r_unknown := Some (case r_unknown r of None \<Rightarrow> TransportTimeout | Some u \<Rightarrow> u)\<rparr>) c = Inr r"
    using unknown_allowed cron_invD(3) [OF assms] by (simp add: update_runs_def list_all_iff)
  then show ?thesis by (auto simp: reset_cron_claims_def andthen_def stmt_def ret_def)
qed

text \<open>The dead-letter target of every consumer is a live queue other than its own.\<close>

definition dlq_live :: "db \<Rightarrow> bool" where
  "dlq_live d \<longleftrightarrow> list_all (\<lambda>c. case c_dlq c of None \<Rightarrow> True
     | Some (t, g) \<Rightarrow> t \<noteq> c_queue c \<and> g \<noteq> 0 \<and> list_ex (\<lambda>q. q_id q = t \<and> q_lifecycle q = g) (queues d)) (consumers d)"

definition admissible_pending :: "db \<Rightarrow> pending_row \<Rightarrow> bool" where
  "admissible_pending d p \<longleftrightarrow> pending_authority p d \<and> has_queue (p_source p) d \<and> has_queue (p_target p) d
     \<and> p_source p \<noteq> p_target p \<and> p_target_gen p \<noteq> 0 \<and> p_attempts p \<noteq> 0"

lemma admissible_pendings [simp]: "admissible_pending (d\<lparr>pendings := ps\<rparr>) p = admissible_pending d p"
  by (simp add: admissible_pending_def pending_authority_def has_queue_def)

lemma exhausted_pendings_admissible:
  assumes inv: "queue_inv d" and live: "dlq_live d" and p: "p \<in> set (pendings_to_insert now d)"
  shows "admissible_pending d p"
proof -
  from p obtain m c t g where m: "m \<in> set (messages d)" and c: "c \<in> set (consumers d)"
    and ex: "exhausted m c" and dlq: "c_dlq c = Some (t, g)"
    and eq: "p = \<lparr>p_message = m_id m, p_source = m_queue m, p_target = t, p_target_gen = g,
           p_attempts = m_attempts m, p_next = now + 250, p_created = now\<rparr>"
    by (auto simp: pendings_to_insert_def exhausted_pending_def split: if_splits option.splits)
  have target: "t \<noteq> c_queue c" "g \<noteq> 0" "list_ex (\<lambda>q. q_id q = t \<and> q_lifecycle q = g) (queues d)"
    using live c dlq by (auto simp: dlq_live_def list_all_iff)
  have "has_queue (m_queue m) d" using queue_invD(2) [OF inv] m by (auto simp: rows_ok_def list_all_iff)
  moreover have "pending_authority p d"
    using m target(3) ex by (auto simp: pending_authority_def eq list_ex_iff exhausted_def)
  moreover have "has_queue t d" using target(3) by (auto simp: has_queue_def list_ex_iff)
  ultimately show ?thesis using target ex by (simp add: admissible_pending_def eq exhausted_def)
qed

lemma insert_all_ok:
  "(\<And>p. p \<in> set ps \<Longrightarrow> admissible_pending d p) \<Longrightarrow>
   \<exists>xs. for_each (\<lambda>p. stmt map_sql_error (insert_pending_or_ignore p)) ps d = Inr ((), d\<lparr>pendings := pendings d @ xs\<rparr>)
     \<and> (\<forall>p \<in> set ps. p_message p \<in> p_message ` set (pendings d @ xs)) \<and> set xs \<subseteq> set ps"
proof (induction ps arbitrary: d)
  case Nil
  then show ?case by (auto simp: ret_def intro: exI [of _ "[]"])
next
  case (Cons p ps)
  let ?dup = "list_ex (\<lambda>x. p_message x = p_message p) (pendings d)"
  let ?new = "if ?dup then [] else [p]"
  let ?d = "d\<lparr>pendings := pendings d @ ?new\<rparr>"
  have "admissible_pending d p" by (rule Cons.prems) simp
  then have ins: "insert_pending_or_ignore p d = Inr ((), ?d)"
    by (simp add: insert_pending_or_ignore_def admissible_pending_def)
  obtain xs where xs: "for_each (\<lambda>p. stmt map_sql_error (insert_pending_or_ignore p)) ps ?d
      = Inr ((), ?d\<lparr>pendings := pendings ?d @ xs\<rparr>)"
    "\<forall>q \<in> set ps. p_message q \<in> p_message ` set (pendings ?d @ xs)" "set xs \<subseteq> set ps"
    using Cons.IH [of ?d] Cons.prems by auto
  have mem: "p_message p \<in> p_message ` set (pendings d @ ?new @ xs)"
  proof (cases ?dup)
    case True
    then obtain x where "x \<in> set (pendings d)" "p_message x = p_message p" by (auto simp: list_ex_iff)
    then show ?thesis by (metis UnI1 image_eqI set_append)
  qed simp
  define new where "new = ?new"
  have "for_each (\<lambda>p. stmt map_sql_error (insert_pending_or_ignore p)) (p # ps) d
      = Inr ((), d\<lparr>pendings := pendings d @ new @ xs\<rparr>)"
    using xs(1) ins unfolding new_def [symmetric] by (simp add: andthen_def stmt_def)
  moreover have "\<forall>q \<in> set (p # ps). p_message q \<in> p_message ` set (pendings d @ new @ xs)"
    using xs(2) mem unfolding new_def [symmetric] by simp
  moreover have "set (new @ xs) \<subseteq> set (p # ps)" using xs(3) by (auto simp: new_def split: if_splits)
  ultimately show ?case by blast
qed

lemma keeps_pending_or_ignore: "keeps queue_inv (stmt err (insert_pending_or_ignore p))"
proof (rule keeps_stmt)
  fix d u d' assume inv: "queue_inv d" and ins: "insert_pending_or_ignore p d = Inr (u, d')"
  have "d' = d \<or> insert_pending p d = Inr (u, d')"
    using ins unfolding insert_pending_or_ignore_def insert_pending_def by (simp split: if_splits)
  then show "queue_inv d'" using inv insert_pending_inv by blast
qed

lemma keeps_reset_queue:
  "keeps queue_inv (release_messages now)" "keeps queue_inv delete_all_batches"
  "keeps queue_inv (insert_exhausted now)" "keeps queue_inv delete_exhausted"
  unfolding release_messages_def delete_all_batches_def insert_exhausted_def delete_exhausted_def
  by (intro keeps_intros keeps_statements keeps_update_messages keeps_pending_or_ignore; simp add: released_def)+

section \<open>The whole recovery\<close>

lemma reset_queue_ok:
  assumes inv: "queue_inv d" and live: "dlq_live d"
  shows "\<exists>d1 d2 d3 d4. release_messages now d = Inr ((), d1) \<and> delete_all_batches d1 = Inr ((), d2)
    \<and> insert_exhausted now d2 = Inr ((), d3) \<and> delete_exhausted d3 = Inr ((), d4)
    \<and> queue_inv d4 \<and> batches d4 = [] \<and> consumers d4 = consumers d
    \<and> messages d4 = filter (\<lambda>m. \<not> undeliverable (consumers d) m) (map (release_one now) (messages d))
    \<and> (\<forall>m \<in> set (map (release_one now) (messages d)). \<forall>c \<in> set (consumers d).
         exhausted m c \<and> c_dlq c \<noteq> None \<longrightarrow> m_id m \<in> p_message ` set (pendings d4))
    \<and> set (pendings d) \<subseteq> set (pendings d4)"
proof -
  let ?ms = "map (release_one now) (messages d)"
  let ?d1 = "d\<lparr>messages := ?ms\<rparr>" let ?d2 = "?d1\<lparr>batches := []\<rparr>"
  have r1: "release_messages now d = Inr ((), ?d1)" by (rule release_messages_ok [OF inv])
  have r2: "delete_all_batches ?d1 = Inr ((), ?d2)" by (rule delete_batches_ok) simp
  have inv2: "queue_inv ?d2"
    by (rule keepsD [OF keeps_reset_queue(2) keepsD [OF keeps_reset_queue(1) inv r1] r2])
  have "queues ?d2 = queues d" "consumers ?d2 = consumers d" by simp_all
  then have live2: "dlq_live ?d2" using live by (simp only: dlq_live_def)
  obtain xs where xs: "for_each (\<lambda>p. stmt map_sql_error (insert_pending_or_ignore p)) (pendings_to_insert now ?d2) ?d2
      = Inr ((), ?d2\<lparr>pendings := pendings ?d2 @ xs\<rparr>)"
    "\<forall>p \<in> set (pendings_to_insert now ?d2). p_message p \<in> p_message ` set (pendings ?d2 @ xs)"
    using insert_all_ok [of "pendings_to_insert now ?d2" ?d2] exhausted_pendings_admissible [OF inv2 live2] by blast
  let ?d3 = "?d2\<lparr>pendings := pendings ?d2 @ xs\<rparr>"
  have r3: "insert_exhausted now ?d2 = Inr ((), ?d3)" using xs(1) by (simp add: insert_exhausted_def andthen_def reading_def)
  have inv3: "queue_inv ?d3" by (rule keepsD [OF keeps_reset_queue(3) inv2 r3])
  have guard: "delete_guard ?d3 m" if "m \<in> set (messages ?d3)" for m
  proof -
    have "m_claim m = None" using that by auto
    then show ?thesis by (simp add: delete_guard_def)
  qed
  obtain d4 where del: "delete_messages (undeliverable (consumers d)) ?d3
      = Inr (length (filter (undeliverable (consumers d)) (messages ?d3)), d4)"
    using delete_messages_ok [OF inv3 guard, of "undeliverable (consumers d)"] by blast
  then have r4: "delete_exhausted ?d3 = Inr ((), d4)"
    by (simp add: delete_exhausted_def andthen_def reading_def stmt_def ret_def)
  have d4: "messages d4 = filter (\<lambda>m. \<not> undeliverable (consumers d) m) ?ms" "batches d4 = []"
    "pendings d4 = pendings d @ xs" "consumers d4 = consumers d"
    using delete_messages_Inr(1) [OF del] by simp_all
  have pend: "m_id m \<in> p_message ` set (pendings d4)"
    if mc: "m \<in> set ?ms" "c \<in> set (consumers d)" "exhausted m c \<and> c_dlq c \<noteq> None" for m c
  proof -
    obtain t g where "c_dlq c = Some (t, g)" using mc(3) by auto
    with mc have "\<exists>p \<in> set (pendings_to_insert now ?d2). p_message p = m_id m"
      by (force simp: pendings_to_insert_def exhausted_pending_def)
    then obtain p where "p \<in> set (pendings_to_insert now ?d2)" "p_message p = m_id m" by blast
    moreover have "pendings ?d2 = pendings d" by simp
    ultimately show ?thesis using xs(2) unfolding d4(3) by metis
  qed
  show ?thesis
    using r1 r2 r3 r4 keepsD [OF keeps_reset_queue(4) inv3 r4] d4 pend
    by (intro exI [of _ ?d1] exI [of _ ?d2] exI [of _ ?d3] exI [of _ d4]) (simp only: set_append Un_upper1 simp_thms ball_simps, blast)
qed

lemma on_parts [simp]:
  "m (sd_jobs d) = Inr (x, js) \<Longrightarrow> on_jobs m d = Inr (x, d\<lparr>sd_jobs := js\<rparr>)"
  "mq (sd_queue d) = Inr (y, q) \<Longrightarrow> on_queue mq d = Inr (y, d\<lparr>sd_queue := q\<rparr>)"
  "mc (sd_cron d) = Inr (z, c) \<Longrightarrow> on_cron mc d = Inr (z, d\<lparr>sd_cron := c\<rparr>)"
  by (simp_all add: on_jobs_def on_queue_def on_cron_def)

definition recoverable :: "scheduler_db \<Rightarrow> bool" where
  "recoverable d \<longleftrightarrow> jobs_inv (sd_jobs d) \<and> queue_inv (sd_queue d) \<and> cron_inv (sd_cron d) \<and> dlq_live (sd_queue d)"

lemma held_runs_reset:
  assumes "reset_cron_claims now m c = Inr (u, c')"
  shows "held_runs c' = {}"
proof -
  let ?f = "\<lambda>r. (unknown_run (m + 1) (now + 250) now r)
      \<lparr>r_unknown := Some (case r_unknown r of None \<Rightarrow> TransportTimeout | Some u \<Rightarrow> u)\<rparr>"
  have c': "runs c' = map (\<lambda>r. if r_state r = Claimed then ?f r else r) (runs c)"
    using assms by (auto simp: reset_cron_claims_def andthen_def stmt_def ret_def update_runs_def split: sum.splits if_splits)
  show ?thesis unfolding held_runs_def c' by (auto simp: unknown_run_def split: if_splits)
qed

lemma reset_run:
  assumes rec: "recoverable d" and m: "m \<le> 3" "in_i64 (now + 250)"
  shows "\<exists>js q c. transaction (reset_claims now m) d = (Inr (), \<lparr>sd_jobs = js, sd_queue = q, sd_cron = c\<rparr>)
    \<and> jobs_inv js \<and> held_jobs js = {} \<and> map job_key js = map job_key (sd_jobs d)
    \<and> cron_inv c \<and> held_runs c = {}
    \<and> queue_inv q \<and> batches q = [] \<and> consumers q = consumers (sd_queue d)
    \<and> messages q = filter (\<lambda>m. \<not> undeliverable (consumers (sd_queue d)) m) (map (release_one now) (messages (sd_queue d)))
    \<and> (\<forall>m \<in> set (map (release_one now) (messages (sd_queue d))). \<forall>c \<in> set (consumers (sd_queue d)).
         exhausted m c \<and> c_dlq c \<noteq> None \<longrightarrow> m_id m \<in> p_message ` set (pendings q))
    \<and> set (pendings (sd_queue d)) \<subseteq> set (pendings q)"
proof -
  have inv: "jobs_inv (sd_jobs d)" "queue_inv (sd_queue d)" "cron_inv (sd_cron d)" "dlq_live (sd_queue d)"
    using rec by (auto simp: recoverable_def)
  let ?js = "map (\<lambda>j. if j_state j = JobClaimed then j\<lparr>j_state := Scheduled, j_updated := now\<rparr> else j) (sd_jobs d)"
  have jobs: "reset_job_claims now (sd_jobs d) = Inr ((), ?js)" by (rule reset_jobs_ok [OF inv(1)])
  have jinv: "jobs_inv ?js" by (rule keepsD [OF keeps_alarm(8) inv(1) jobs])
  have held: "held_jobs ?js = {}" by (auto simp: held_jobs_def split: if_splits)
  have keys: "map job_key ?js = map job_key (sd_jobs d)" by (simp add: job_key_def)
  obtain c where cron: "reset_cron_claims now m (sd_cron d) = Inr ((), c)"
    using reset_cron_ok [OF inv(3)] by blast
  have cinv: "cron_inv c" by (rule keepsD [OF keeps_reset_cron inv(3) cron])
  obtain d1 d2 d3 d4 where q: "release_messages now (sd_queue d) = Inr ((), d1)" "delete_all_batches d1 = Inr ((), d2)"
    "insert_exhausted now d2 = Inr ((), d3)" "delete_exhausted d3 = Inr ((), d4)"
    and q4: "queue_inv d4 \<and> batches d4 = [] \<and> consumers d4 = consumers (sd_queue d)
    \<and> messages d4 = filter (\<lambda>m. \<not> undeliverable (consumers (sd_queue d)) m) (map (release_one now) (messages (sd_queue d)))
    \<and> (\<forall>m \<in> set (map (release_one now) (messages (sd_queue d))). \<forall>c \<in> set (consumers (sd_queue d)).
         exhausted m c \<and> c_dlq c \<noteq> None \<longrightarrow> m_id m \<in> p_message ` set (pendings d4))
    \<and> set (pendings (sd_queue d)) \<subseteq> set (pendings d4)"
    using reset_queue_ok [OF inv(2, 4), of now] by blast
  have "reset_claims_tx now m d = Inr ((), \<lparr>sd_jobs = ?js, sd_queue = d4, sd_cron = c\<rparr>)"
    using jobs cron q by (simp add: reset_claims_tx_def andthen_def)
  then have "transaction (reset_claims now m) d = (Inr (), \<lparr>sd_jobs = ?js, sd_queue = d4, sd_cron = c\<rparr>)"
    using m by (simp add: transaction_def reset_claims_def andthen_def require_def ret_def checked_add_i64_def)
  with jinv held keys cinv held_runs_reset [OF cron] q4 show ?thesis by blast
qed

definition interrupted :: scheduler_db where
  "interrupted = \<lparr>sd_jobs = sample_jobs, sd_queue = claimed_db, sd_cron = claimed_twice\<rparr>"

lemma interrupted_recoverable: "recoverable interrupted"
  using sample_jobs_inv claimed_inv claimed_twice_inv
  by (simp add: recoverable_def interrupted_def dlq_live_def claimed_db_def claimable_db_def claim_consumer_row_def)

lemma small_time: "in_i64 (95000 + 250)"
  by (simp add: in_i64_def i64_min_def i64_max_def)

text \<open>
  C30. Recovery of a consistent scheduler always succeeds when the dead-letter targets are live:
  afterwards no alarm, queue message or cron run is claimed and no delivery batch is left, no
  alarm is lost, and the invariants of the three stores hold, so that dispatch starts from a
  state in which everything can be claimed again.
\<close>

theorem recovery_releases_claims:
  assumes "recoverable d" "m \<le> 3" "in_i64 (now + 250)"
  shows "\<exists>d'. transaction (reset_claims now m) d = (Inr (), d')
    \<and> held_jobs (sd_jobs d') = {} \<and> map job_key (sd_jobs d') = map job_key (sd_jobs d)
    \<and> held_runs (sd_cron d') = {}
    \<and> (\<forall>x \<in> set (messages (sd_queue d')). m_claim x = None) \<and> batches (sd_queue d') = []
    \<and> jobs_inv (sd_jobs d') \<and> queue_inv (sd_queue d') \<and> cron_inv (sd_cron d')"
proof -
  obtain js q c where r: "transaction (reset_claims now m) d = (Inr (), \<lparr>sd_jobs = js, sd_queue = q, sd_cron = c\<rparr>)"
    "jobs_inv js" "held_jobs js = {}" "map job_key js = map job_key (sd_jobs d)" "cron_inv c" "held_runs c = {}"
    "queue_inv q" "batches q = []"
    "messages q = filter (\<lambda>m. \<not> undeliverable (consumers (sd_queue d)) m) (map (release_one now) (messages (sd_queue d)))"
    using reset_run [OF assms] by blast
  have "m_claim x = None" if "x \<in> set (messages q)" for x using that unfolding r(9) by auto
  with r show ?thesis by (intro exI [of _ "\<lparr>sd_jobs = js, sd_queue = q, sd_cron = c\<rparr>"]) simp
qed

theorem recovery_releases_claims_witness:
  "\<exists>d'. transaction (reset_claims 95000 3) interrupted = (Inr (), d') \<and> batches (sd_queue d') = []"
  using recovery_releases_claims [OF interrupted_recoverable _ small_time, of 3] by auto

text \<open>
  C29. Recovery loses no queue message except those without a way forward: the messages left are
  exactly the stored ones, with a claimed one made ready again at the cost of one attempt, minus
  those whose attempts exceed the retries of a consumer without a dead-letter queue; a message
  past the retries of a consumer with one is put on its way there.
\<close>

theorem recovery_conserves_messages:
  assumes "recoverable d" "m \<le> 3" "in_i64 (now + 250)"
  shows "\<exists>d'. transaction (reset_claims now m) d = (Inr (), d')
    \<and> messages (sd_queue d') = filter (\<lambda>x. \<not> (\<exists>c \<in> set (consumers (sd_queue d)). exhausted x c \<and> c_dlq c = None))
        (map (\<lambda>x. if m_claim x = None then x else released now x) (messages (sd_queue d)))
    \<and> (\<forall>x \<in> set (messages (sd_queue d')). \<forall>c \<in> set (consumers (sd_queue d)).
         exhausted x c \<longrightarrow> is_pending (sd_queue d') (m_id x))"
proof -
  obtain js q c where r: "transaction (reset_claims now m) d = (Inr (), \<lparr>sd_jobs = js, sd_queue = q, sd_cron = c\<rparr>)"
    "messages q = filter (\<lambda>m. \<not> undeliverable (consumers (sd_queue d)) m) (map (release_one now) (messages (sd_queue d)))"
    and pend: "\<forall>m \<in> set (map (release_one now) (messages (sd_queue d))). \<forall>c \<in> set (consumers (sd_queue d)).
         exhausted m c \<and> c_dlq c \<noteq> None \<longrightarrow> m_id m \<in> p_message ` set (pendings q)"
    using reset_run [OF assms] by blast
  have und: "undeliverable (consumers (sd_queue d)) = (\<lambda>x. \<exists>c \<in> set (consumers (sd_queue d)). exhausted x c \<and> c_dlq c = None)"
    by (rule ext) (auto simp: undeliverable_def list_ex_iff)
  have rel: "release_one now = (\<lambda>x. if m_claim x = None then x else released now x)"
    by (rule ext) (simp add: release_one_def)
  have "is_pending q (m_id x)" if "x \<in> set (messages q)" "y \<in> set (consumers (sd_queue d))" "exhausted x y" for x y
  proof -
    have x: "x \<in> set (map (release_one now) (messages (sd_queue d)))" "c_dlq y \<noteq> None"
      using that unfolding r(2) und by auto
    then have "m_id x \<in> p_message ` set (pendings q)" using pend that(2, 3) by blast
    then show ?thesis by (auto simp: is_pending_def list_ex_iff)
  qed
  with r show ?thesis unfolding und rel by (intro exI [of _ "\<lparr>sd_jobs = js, sd_queue = q, sd_cron = c\<rparr>"]) simp
qed

theorem recovery_conserves_messages_witness:
  "\<exists>d'. transaction (reset_claims 95000 3) interrupted = (Inr (), d') \<and> map m_id (messages (sd_queue d')) = [51, 52, 53]"
proof -
  have "map m_id (filter (\<lambda>x. \<not> (\<exists>c \<in> set (consumers claimed_db). exhausted x c \<and> c_dlq c = None))
      (map (\<lambda>x. if m_claim x = None then x else released 95000 x) (messages claimed_db))) = [51, 52, 53]"
    by (simp add: claimed_db_def claimable_db_def claimed_row_def claimable_message_def claim_consumer_row_def
        exhausted_def released_def)
  moreover have "sd_queue interrupted = claimed_db" by (simp add: interrupted_def)
  ultimately show ?thesis
    using recovery_conserves_messages [OF interrupted_recoverable _ small_time, of 3] by auto
qed

section \<open>Orphaned dead-letter entries\<close>

definition orphaning :: scheduler_db where
  "orphaning = \<lparr>sd_jobs = [], sd_queue = waiting_db\<lparr>consumers := [claim_consumer_row]\<rparr>,
     sd_cron = \<lparr>cron_instance = 1, schedules = [], runs = []\<rparr>\<rparr>"

lemma orphaning_inv: "recoverable orphaning"
  by (simp add: recoverable_def orphaning_def jobs_inv_def cron_inv_def dlq_live_def claim_consumer_row_def
      waiting_db_def waiting_row_def dead_letters_def sample_db_def empty_db_def sample_queue_def
      claimable_message_def queue_inv_def keys_ok_def rows_ok_def counters_ok_def claims_ok_def claim_ok_def
      has_queue_def message_checks_def)

lemma missing_blocks_forward:
  assumes "messages q = []" "p \<in> set (pendings q)" "p_next p \<le> now" "limit \<noteq> 0"
  shows "transaction (forward_queue_dlq_pending now backoff limit) q = (Inl SchedulerUnavailable, q)"
proof -
  let ?due = "filter (\<lambda>p. p_next p \<le> now) (pendings q)"
  let ?ids = "map p_message (order_limit (\<lambda>p. (p_next p, p_message p)) limit ?due)"
  have "?due \<noteq> []" using assms(2, 3) by (auto simp: filter_empty_conv)
  then have "length ?ids \<noteq> 0" using assms(4) by simp
  then obtain i ids where ids: "?ids = i # ids" by (cases ?ids) auto
  have "forward_pending now backoff i q = Inl SchedulerUnavailable"
    using assms(1) by (simp add: forward_pending_def andthen_def reading_def throw_def map_sql_error_def split: option.split)
  then have "map_each (forward_pending now backoff) ?ids q = Inl SchedulerUnavailable"
    unfolding ids by (simp add: andthen_def)
  then show ?thesis
    using assms(4) by (simp add: transaction_def forward_queue_dlq_pending_def andthen_def require_def ret_def reading_def)
qed

text \<open>
  C36. The last statement of \<open>reset_claims.sql\<close> also deletes messages that already wait for a
  dead-letter queue, when their consumer has meanwhile been replaced by one without a
  dead-letter queue; their rows in \<open>queue_dlq_pending\<close> stay. From then on forwarding fails
  whenever such a row is among the due ones: the transaction aborts at the missing message, and
  no pending message of any queue moves.
\<close>

theorem recovery_orphans_pending:
  "\<exists>d'. transaction (reset_claims 25000 3) orphaning = (Inr (), d')
     \<and> (\<forall>now backoff limit. 20000 \<le> now \<longrightarrow> limit \<noteq> 0 \<longrightarrow>
          transaction (forward_queue_dlq_pending now backoff limit) (sd_queue d')
            = (Inl SchedulerUnavailable, sd_queue d'))"
proof -
  have time: "in_i64 (25000 + 250)" by (simp add: in_i64_def i64_min_def i64_max_def)
  have gone: "filter (\<lambda>m. \<not> undeliverable (consumers (sd_queue orphaning)) m)
      (map (release_one 25000) (messages (sd_queue orphaning))) = []"
    by (simp add: orphaning_def waiting_db_def waiting_row_def claimable_message_def claim_consumer_row_def
        undeliverable_def exhausted_def release_one_def)
  obtain p where p: "p \<in> set (pendings (sd_queue orphaning))" "p_next p = 20000"
    by (simp add: orphaning_def waiting_db_def)
  obtain js q c where run: "transaction (reset_claims 25000 3) orphaning
      = (Inr (), \<lparr>sd_jobs = js, sd_queue = q, sd_cron = c\<rparr>)"
    and q: "messages q = []" "set (pendings (sd_queue orphaning)) \<subseteq> set (pendings q)"
    using reset_run [OF orphaning_inv _ time, of 3] unfolding gone by auto
  have "transaction (forward_queue_dlq_pending now backoff limit) q = (Inl SchedulerUnavailable, q)"
    if "20000 \<le> now" "limit \<noteq> 0" for now backoff limit
    by (rule missing_blocks_forward [OF q(1)]) (use p q(2) that in auto)
  with run show ?thesis by (intro exI [of _ "\<lparr>sd_jobs = js, sd_queue = q, sd_cron = c\<rparr>"]) simp
qed

theorem recovery_orphans_pending_witness:
  "\<exists>d'. transaction (reset_claims 25000 3) orphaning = (Inr (), d')
     \<and> transaction (forward_queue_dlq_pending 30000 1000 10) (sd_queue d') = (Inl SchedulerUnavailable, sd_queue d')"
proof -
  obtain d' where "transaction (reset_claims 25000 3) orphaning = (Inr (), d')"
    and f: "\<forall>now backoff limit. 20000 \<le> now \<longrightarrow> limit \<noteq> 0 \<longrightarrow>
          transaction (forward_queue_dlq_pending now backoff limit) (sd_queue d')
            = (Inl SchedulerUnavailable, sd_queue d')"
    using recovery_orphans_pending by blast
  moreover have "transaction (forward_queue_dlq_pending 30000 1000 10) (sd_queue d') = (Inl SchedulerUnavailable, sd_queue d')"
    using f by simp
  ultimately show ?thesis by blast
qed

end
