(* ===== verification/Cron_Projection.thy ===== *)
theory Cron_Projection
  imports Cron_Claims
begin

text \<open>
  Projection of due schedules into runs: the newest slot of the grace window becomes exactly one
  run, and the schedule advances past the present.
\<close>

text \<open>The stored expression parses to a schedule that the slot calculator answers for.\<close>

definition sound_schedule :: "('c, 't) croner \<Rightarrow> cron_schedule_row \<Rightarrow> 'c cron_schedule \<Rightarrow> bool" where
  "sound_schedule env s p \<longleftrightarrow> parse env (cs_expression s) = Inr p \<and> decided env p \<and> recurring env p"

definition slot_taken :: "cron_schedule_row \<Rightarrow> int \<Rightarrow> cron_run_row list \<Rightarrow> bool" where
  "slot_taken s t rs \<longleftrightarrow> list_ex (\<lambda>r. r_activation r = cs_activation s \<and> r_scheduled r = t) rs"

definition slot_runs :: "nat \<Rightarrow> cron_schedule_row \<Rightarrow> int option \<Rightarrow> int \<Rightarrow> cron_run_row list \<Rightarrow> cron_run_row list" where
  "slot_runs fresh s found now rs = (case found of None \<Rightarrow> []
     | Some t \<Rightarrow> if slot_taken s t rs then [] else [new_run fresh s t now])"

definition advance :: "nat \<Rightarrow> int \<Rightarrow> int \<Rightarrow> cron_schedule_row \<Rightarrow> cron_schedule_row" where
  "advance a nxt now x = (if cs_activation x = a then x\<lparr>cs_next_fire := nxt, cs_updated := now\<rparr> else x)"

lemma new_run_checks: "schedule_ok s \<Longrightarrow> 0 \<le> t \<Longrightarrow> run_checks (new_run i s t now)"
  by (simp add: schedule_ok_def run_checks_def new_run_def dispatch_check_def shape_check_def)

lemma insert_slot_ok:
  assumes inv: "cron_inv d" and s: "s \<in> set (schedules d)" "int (cs_generation s) \<le> i64_max"
    and fresh: "fresh \<notin> r_id ` set (runs d)" and found: "\<And>t. found = Some t \<Longrightarrow> 0 \<le> t"
  shows "\<exists>counts. insert_slot fresh s found now d
    = Inr (counts, d\<lparr>runs := runs d @ slot_runs fresh s found now (runs d)\<rparr>)"
proof (cases found)
  case (Some t)
  let ?r = "new_run fresh s t now"
  have auth: "run_authority ?r d" using s(1) by (auto simp: run_authority_def new_run_def list_ex_iff)
  have "run_checks ?r" by (rule new_run_checks [OF cron_invD(5) [OF inv s(1)] found [OF Some]])
  moreover have "list_ex (\<lambda>x. r_id x = r_id ?r \<or> (r_activation x = r_activation ?r \<and> r_scheduled x = r_scheduled ?r)) (runs d)
      \<longleftrightarrow> slot_taken s t (runs d)"
    using fresh by (auto simp: slot_taken_def list_ex_iff new_run_def)
  ultimately have "\<exists>k. insert_run ?r d = Inr (k, d\<lparr>runs := runs d @ slot_runs fresh s found now (runs d)\<rparr>)"
    using auth by (simp add: insert_run_def slot_runs_def Some)
  then show ?thesis
    using s(2) by (auto simp: insert_slot_def Some andthen_def lift_def cron_as_i64_def i64_of_u64_def stmt_def ret_def)
qed (simp add: insert_slot_def slot_runs_def ret_def)

lemma project_schedule_ok:
  assumes inv: "cron_inv d" and s: "s \<in> set (schedules d)" "int (cs_generation s) \<le> i64_max" "cs_next_fire s \<le> now"
    and fresh: "fresh \<notin> r_id ` set (runs d)" and p: "sound_schedule env s p"
    and now: "0 \<le> now" "window_fits now" and floor: "0 \<le> floor" "floor \<le> now"
  shows "\<exists>counts found nxt. project_schedule env now floor (fresh, s) d = Inr (counts,
      d\<lparr>runs := runs d @ slot_runs fresh s found now (runs d),
        schedules := map (advance (cs_activation s) nxt now) (schedules d)\<rparr>)
    \<and> newest_slot env p (max floor (cs_next_fire s)) now found
    \<and> now < nxt \<and> is_slot env p nxt \<and> (\<forall>u. is_slot env p u \<and> now < u \<longrightarrow> nxt \<le> u)"
proof -
  let ?lo = "max floor (cs_next_fire s)"
  have parsed: "parse env (cs_expression s) = Inr p" "decided env p" "recurring env p"
    using p by (auto simp: sound_schedule_def)
  have lo: "0 \<le> ?lo" "?lo \<le> now" using floor s(3) by auto
  obtain found where found: "latest_at_or_before_ms env p ?lo now = Inr found" "newest_slot env p ?lo now found"
    using latest_newest [OF parsed(2, 3) now(2) lo] by blast
  obtain nxt where nxt: "next_after_ms env p now = Inr nxt"
    using next_after_returns [OF parsed(2, 3) now] by blast
  have pos: "0 \<le> t" if "found = Some t" for t using found(2) that floor(1) by (auto simp: newest_slot_def)
  obtain counts where ins: "insert_slot fresh s found now d
      = Inr (counts, d\<lparr>runs := runs d @ slot_runs fresh s found now (runs d)\<rparr>)"
    using insert_slot_ok [OF inv s(1, 2) fresh pos] by blast
  let ?p = "\<lambda>x. cs_activation x = cs_activation s \<and> cs_next_fire x \<le> now"
  have one: "filter ?p (schedules d) = [s]"
    by (rule filter_by_key) (use cron_invD(4) [OF inv] s in simp_all)
  have same: "x = s" if "x \<in> set (schedules d)" "cs_activation x = cs_activation s" for x
    using cron_invD(4) [OF inv] s(1) that by (auto simp: distinct_map inj_on_def)
  have rows: "map (\<lambda>x. if ?p x then x\<lparr>cs_next_fire := nxt, cs_updated := now\<rparr> else x) (schedules d)
      = map (advance (cs_activation s) nxt now) (schedules d)"
    by (rule map_cong [OF refl]) (use same s(3) in \<open>auto simp: advance_def\<close>)
  have later: "now < nxt" by (rule next_after_later [OF nxt])
  have "project_schedule env now floor (fresh, s) d = Inr (counts,
      d\<lparr>runs := runs d @ slot_runs fresh s found now (runs d),
        schedules := map (advance (cs_activation s) nxt now) (schedules d)\<rparr>)"
    using later now(1)
    by (simp add: project_schedule_def andthen_def lift_def parsed found ins nxt stmt_def update_schedules_def
        one rows require_def ret_def)
  with found(2) later next_after_first [OF nxt] show ?thesis by blast
qed

section \<open>All due schedules\<close>

definition window_start :: "int \<Rightarrow> cron_schedule_row \<Rightarrow> int" where
  "window_start floor s = max floor (cs_next_fire s)"

definition next_slot :: "('c, 't) croner \<Rightarrow> 'c cron_schedule \<Rightarrow> int \<Rightarrow> int \<Rightarrow> bool" where
  "next_slot env p now t \<longleftrightarrow> now < t \<and> is_slot env p t \<and> (\<forall>u. is_slot env p u \<and> now < u \<longrightarrow> t \<le> u)"

definition only_new_slots ::
  "('c, 't) croner \<Rightarrow> (cron_schedule_row \<Rightarrow> 'c cron_schedule) \<Rightarrow> int \<Rightarrow> int \<Rightarrow> cron_schedule_row list
     \<Rightarrow> cron_run_row list \<Rightarrow> cron_run_row list \<Rightarrow> bool" where
  "only_new_slots env P now floor ss rs rs' \<longleftrightarrow> (\<exists>new. rs' = rs @ new \<and> (\<forall>r \<in> set new. r_state r = Ready
     \<and> (\<exists>s \<in> set ss. r_activation r = cs_activation s
          \<and> newest_slot env (P s) (window_start floor s) now (Some (r_scheduled r)))))"

definition slots_covered ::
  "('c, 't) croner \<Rightarrow> (cron_schedule_row \<Rightarrow> 'c cron_schedule) \<Rightarrow> int \<Rightarrow> int \<Rightarrow> cron_schedule_row list
     \<Rightarrow> cron_run_row list \<Rightarrow> bool" where
  "slots_covered env P now floor ss rs \<longleftrightarrow> (\<forall>s \<in> set ss. \<forall>t.
     newest_slot env (P s) (window_start floor s) now (Some t) \<longrightarrow> slot_taken s t rs)"

definition all_advanced ::
  "('c, 't) croner \<Rightarrow> (cron_schedule_row \<Rightarrow> 'c cron_schedule) \<Rightarrow> int \<Rightarrow> cron_schedule_row list
     \<Rightarrow> cron_schedule_row list \<Rightarrow> cron_schedule_row list \<Rightarrow> bool" where
  "all_advanced env P now ss xs xs' \<longleftrightarrow>
     (\<forall>s \<in> set ss. \<exists>x \<in> set xs'. cs_activation x = cs_activation s \<and> next_slot env (P s) now (cs_next_fire x))
   \<and> (\<forall>x \<in> set xs. cs_activation x \<notin> cs_activation ` set ss \<longrightarrow> x \<in> set xs')"

lemma newest_unique:
  assumes "newest_slot env p lo hi found" "newest_slot env p lo hi (Some t)"
  shows "found = Some t"
proof (cases found)
  case None
  with assms show ?thesis by (force simp: newest_slot_def)
next
  case (Some u)
  with assms have "\<not> u < t" "\<not> t < u" by (force simp: newest_slot_def)+
  with Some show ?thesis by simp
qed

lemma slot_taken_append: "slot_taken s t rs \<Longrightarrow> slot_taken s t (rs @ rs')"
  by (auto simp: slot_taken_def)

lemma slot_runs_facts:
  assumes "newest_slot env (P s) (window_start floor s) now found"
  shows "only_new_slots env P now floor [s] rs (rs @ slot_runs i s found now rs)"
    and "slots_covered env P now floor [s] (rs @ slot_runs i s found now rs)"
    and "r \<in> set (slot_runs i s found now rs) \<Longrightarrow> r_id r = i"
proof -
  show "only_new_slots env P now floor [s] rs (rs @ slot_runs i s found now rs)"
    using assms by (auto simp: only_new_slots_def slot_runs_def new_run_def split: option.splits)
  show "slots_covered env P now floor [s] (rs @ slot_runs i s found now rs)"
    unfolding slots_covered_def
  proof (intro ballI allI impI)
    fix x t assume x: "x \<in> set [s]" and t: "newest_slot env (P x) (window_start floor x) now (Some t)"
    then have "found = Some t" using newest_unique [OF assms, of t] by simp
    with x show "slot_taken x t (rs @ slot_runs i s found now rs)"
      by (simp add: slot_runs_def slot_taken_def new_run_def)
  qed
  show "r_id r = i" if "r \<in> set (slot_runs i s found now rs)"
    using that by (auto simp: slot_runs_def new_run_def split: option.splits if_splits)
qed

lemma keeps_project_schedule: "keeps cron_inv (project_schedule env now floor x)"
  unfolding project_schedule_def insert_slot_def
  by (intro keeps_intros keeps_insert_slot_run keeps_update_schedules)

lemma only_new_cons:
  "only_new_slots env P now floor [s] rs rs1 \<Longrightarrow> only_new_slots env P now floor ss rs1 rs2
     \<Longrightarrow> only_new_slots env P now floor (s # ss) rs rs2"
  unfolding only_new_slots_def by fastforce

lemma slots_covered_cons:
  assumes "slots_covered env P now floor [s] rs1" "only_new_slots env P now floor ss rs1 rs2"
    "slots_covered env P now floor ss rs2"
  shows "slots_covered env P now floor (s # ss) rs2"
proof -
  obtain new where "rs2 = rs1 @ new" using assms(2) by (auto simp: only_new_slots_def)
  with assms(1, 3) slot_taken_append show ?thesis by (auto simp: slots_covered_def)
qed

lemma all_advanced_cons:
  assumes "s \<in> set xs" "next_slot env (P s) now n" "cs_activation s \<notin> cs_activation ` set ss"
    "all_advanced env P now ss (map (advance (cs_activation s) n now) xs) xs2"
  shows "all_advanced env P now (s # ss) xs xs2"
proof -
  let ?s = "s\<lparr>cs_next_fire := n, cs_updated := now\<rparr>"
  have keep: "x \<in> set xs2"
    if "x \<in> set (map (advance (cs_activation s) n now) xs)" "cs_activation x \<notin> cs_activation ` set ss" for x
    using assms(4) that unfolding all_advanced_def by blast
  have "?s \<in> set (map (advance (cs_activation s) n now) xs)" using assms(1) by (force simp: advance_def)
  then have "?s \<in> set xs2" using assms(3) by (intro keep) simp_all
  moreover have "x \<in> set xs2" if x: "x \<in> set xs" "cs_activation x \<notin> cs_activation ` set (s # ss)" for x
  proof -
    have "advance (cs_activation s) n now x = x" using x by (simp add: advance_def)
    then have "x \<in> set (map (advance (cs_activation s) n now) xs)" using x(1) by force
    then show ?thesis using x(2) by (intro keep) simp_all
  qed
  moreover have "\<exists>y \<in> set xs2. cs_activation y = cs_activation s \<and> next_slot env (P s) now (cs_next_fire y)"
    using calculation(1) assms(2) by (intro bexI [of _ ?s]) auto
  ultimately show ?thesis using assms(4) unfolding all_advanced_def set_simps ball_simps by blast
qed

lemma project_all_ok:
  assumes now: "0 \<le> now" "window_fits now" and floor: "0 \<le> floor" "floor \<le> now"
  shows "cron_inv d \<Longrightarrow> distinct (map fst xs) \<Longrightarrow> distinct (map cs_activation (map snd xs)) \<Longrightarrow>
     (\<And>i s. (i, s) \<in> set xs \<Longrightarrow> s \<in> set (schedules d) \<and> int (cs_generation s) \<le> i64_max
        \<and> cs_next_fire s \<le> now \<and> i \<notin> r_id ` set (runs d) \<and> sound_schedule env s (P s)) \<Longrightarrow>
     \<exists>counts d'. map_each (project_schedule env now floor) xs d = Inr (counts, d')
       \<and> only_new_slots env P now floor (map snd xs) (runs d) (runs d')
       \<and> slots_covered env P now floor (map snd xs) (runs d')
       \<and> all_advanced env P now (map snd xs) (schedules d) (schedules d')"
proof (induction xs arbitrary: d)
  case Nil
  then show ?case by (simp add: ret_def only_new_slots_def slots_covered_def all_advanced_def)
next
  case (Cons x xs)
  obtain i s where x: "x = (i, s)" by fastforce
  have s: "s \<in> set (schedules d)" "int (cs_generation s) \<le> i64_max" "cs_next_fire s \<le> now"
    "i \<notin> r_id ` set (runs d)" "sound_schedule env s (P s)" using Cons.prems(4) [of i s] x by auto
  from project_schedule_ok [OF Cons.prems(1) s now floor]
  obtain counts found nxt where run: "project_schedule env now floor (i, s) d = Inr (counts,
      d\<lparr>runs := runs d @ slot_runs i s found now (runs d),
        schedules := map (advance (cs_activation s) nxt now) (schedules d)\<rparr>)" (is "_ = Inr (_, ?d)")
    and newest: "newest_slot env (P s) (window_start floor s) now found" and nxt: "next_slot env (P s) now nxt"
    unfolding window_start_def next_slot_def by blast
  have inv: "cron_inv ?d" by (rule keepsD [OF keeps_project_schedule Cons.prems(1) run])
  have apart: "i \<notin> fst ` set xs" "cs_activation s \<notin> cs_activation ` set (map snd xs)"
    using Cons.prems(2, 3) x by auto
  have rest: "y \<in> set (schedules ?d) \<and> int (cs_generation y) \<le> i64_max \<and> cs_next_fire y \<le> now
      \<and> j \<notin> r_id ` set (runs ?d) \<and> sound_schedule env y (P y)" if y: "(j, y) \<in> set xs" for j y
  proof -
    have old: "y \<in> set (schedules d)" "j \<notin> r_id ` set (runs d)" "int (cs_generation y) \<le> i64_max"
      "cs_next_fire y \<le> now" "sound_schedule env y (P y)" using Cons.prems(4) [of j y] y by auto
    have "j \<noteq> i" using y apart(1) by force
    have "y \<in> set (map snd xs)" using y by force
    then have "cs_activation y \<noteq> cs_activation s" using apart(2) by (metis imageI)
    then have "advance (cs_activation s) nxt now y = y" by (simp add: advance_def)
    then have "y \<in> set (schedules ?d)" using old(1) by force
    moreover have "j \<notin> r_id ` set (slot_runs i s found now (runs d))"
      using slot_runs_facts(3) [where P = P, OF newest] \<open>j \<noteq> i\<close> by blast
    ultimately show ?thesis using old by (simp add: image_Un)
  qed
  from Cons.IH [OF inv _ _ rest] Cons.prems(2, 3)
  obtain cs d2 where IH: "map_each (project_schedule env now floor) xs ?d = Inr (cs, d2)"
    "only_new_slots env P now floor (map snd xs) (runs ?d) (runs d2)"
    "slots_covered env P now floor (map snd xs) (runs d2)"
    "all_advanced env P now (map snd xs) (schedules ?d) (schedules d2)" by auto
  have step: "only_new_slots env P now floor [s] (runs d) (runs ?d)" "slots_covered env P now floor [s] (runs ?d)"
    using slot_runs_facts(1, 2) [where P = P, OF newest] by simp_all
  have "map_each (project_schedule env now floor) (x # xs) d = Inr (counts # cs, d2)"
    using run IH(1) by (simp add: x andthen_def ret_def)
  moreover have "only_new_slots env P now floor (s # map snd xs) (runs d) (runs d2)"
    by (rule only_new_cons [OF step(1) IH(2)])
  moreover have "slots_covered env P now floor (s # map snd xs) (runs d2)"
    by (rule slots_covered_cons [OF step(2) IH(2, 3)])
  moreover have "all_advanced env P now (s # map snd xs) (schedules d) (schedules d2)"
    by (rule all_advanced_cons [where P = P, OF s(1) nxt apart(2)]) (use IH(4) in simp)
  ultimately show ?case by (auto simp: x)
qed

text \<open>
  C31. When the stored expressions of the due schedules parse and have slots in every search
  window, projection succeeds. Existing runs are untouched; every new run is a ready run for
  the newest slot of its schedule's grace window; the newest slot of each due schedule has a
  run afterwards, exactly one by the uniqueness invariant; and every due schedule
  advances to its earliest slot after now while the others keep theirs.
\<close>

theorem cron_projection_exact:
  assumes inv: "cron_inv d" and now: "0 \<le> now" "in_i64 now" "window_fits now" and limit: "limit \<noteq> 0"
    and grace: "int grace \<le> i64_max" and gen: "inj gen" "\<forall>i. gen i \<notin> r_id ` set (runs d)"
    and due: "due = order_limit (\<lambda>s. (cs_next_fire s, cs_activation s)) limit
        (filter (\<lambda>s. cs_next_fire s \<le> now) (schedules d))"
    and sound: "\<forall>s \<in> set due. int (cs_generation s) \<le> i64_max \<and> sound_schedule env s (P s)"
  shows "\<exists>summary d'. transaction (project_due_cron_slots env gen now grace limit) d = (Inr summary, d')
    \<and> only_new_slots env P now (max (now - int grace) 0) due (runs d) (runs d')
    \<and> slots_covered env P now (max (now - int grace) 0) due (runs d')
    \<and> all_advanced env P now due (schedules d) (schedules d')
    \<and> distinct (map run_slot (runs d'))"
proof -
  let ?floor = "max (now - int grace) 0" and ?xs = "zip (map gen [0..<length due]) due"
  have sat: "saturating_sub_i64 now (int grace) = now - int grace"
    using now(1, 2) grace by (auto simp: saturating_sub_i64_def in_i64_def i64_min_def i64_max_def)
  have floor: "grace_floor_ms now grace = Inr ?floor"
    using grace by (simp add: grace_floor_ms_def cron_as_i64_def i64_of_u64_def sat)
  have fst: "map fst ?xs = map gen [0..<length due]" and snd: "map snd ?xs = due" by simp_all
  have ids: "distinct (map fst ?xs)" unfolding fst using gen(1) by (simp add: distinct_map inj_on_def inj_def)
  have "distinct (map cs_activation due)"
    unfolding due using cron_invD(4) [OF inv] by (intro distinct_order_limit) (simp add: distinct_map_filter)
  then have acts: "distinct (map cs_activation (map snd ?xs))" unfolding snd .
  have row: "s \<in> set (schedules d) \<and> int (cs_generation s) \<le> i64_max \<and> cs_next_fire s \<le> now
      \<and> i \<notin> r_id ` set (runs d) \<and> sound_schedule env s (P s)" if "(i, s) \<in> set ?xs" for i s
  proof -
    have s: "s \<in> set due" "i \<in> range gen"
      using set_zip_leftD [OF that] set_zip_rightD [OF that] by auto
    then have "s \<in> set (schedules d)" "cs_next_fire s \<le> now"
      unfolding due using set_order_limit_subset by fastforce+
    moreover have "i \<notin> r_id ` set (runs d)" using s(2) gen(2) by (elim rangeE) simp
    ultimately show ?thesis using s(1) sound by blast
  qed
  obtain counts d' where run: "map_each (project_schedule env now ?floor) ?xs d = Inr (counts, d')"
    and facts: "only_new_slots env P now ?floor due (runs d) (runs d')"
      "slots_covered env P now ?floor due (runs d')" "all_advanced env P now due (schedules d) (schedules d')"
    using project_all_ok [OF now(1, 3) _ _ inv ids acts row, of ?floor] now(1) unfolding snd by auto
  have all: "project_due_cron_slots env gen now grace limit d
      = Inr (\<lparr>projected = sum_list (map fst counts), skipped = sum_list (map snd counts)\<rparr>, d')"
    using now(1) limit run
    by (simp add: project_due_cron_slots_def andthen_def require_def ret_def lift_def floor due_schedules_tx_def
        reading_def due [symmetric])
  have "cron_inv d'" by (rule keepsD [OF keeps_project inv all])
  with all facts show ?thesis by (auto simp: transaction_def cron_inv_def)
qed

theorem cron_projection_exact_witness:
  "\<exists>summary d'. transaction (project_due_cron_slots every_five (\<lambda>i. 100 + i) 1000000 600000 10) sample_cron
       = (Inr summary, d')
     \<and> all_advanced every_five (\<lambda>s. five_schedule) 1000000 [sample_schedule] [sample_schedule] (schedules d')"
proof -
  let ?due = "order_limit (\<lambda>s. (cs_next_fire s, cs_activation s)) 10
        (filter (\<lambda>s. cs_next_fire s \<le> 1000000) (schedules sample_cron))"
  have due: "?due = [sample_schedule]" by (simp add: order_limit_def sample_cron_def sample_schedule_def)
  have parsed: "parse every_five ''*/5 * * * *'' = Inr five_schedule" by code_simp
  have sound: "\<forall>s \<in> set ?due. int (cs_generation s) \<le> i64_max \<and> sound_schedule every_five s five_schedule"
    unfolding due
    by (simp add: sound_schedule_def sample_schedule_def parsed five_decided five_recurring i64_max_def)
  have gen: "inj (\<lambda>i. 100 + i :: nat)" "\<forall>i. 100 + i \<notin> r_id ` set (runs sample_cron)"
    by (simp_all add: inj_def sample_cron_defs)
  have "schedules sample_cron = [sample_schedule]" by (simp add: sample_cron_def)
  then show ?thesis
    using cron_projection_exact [OF sample_cron_inv _ _ five_window _ _ gen refl sound, of 600000] due
    by (auto simp: in_i64_def i64_min_def i64_max_def)
qed

end
