(* ===== verification/Scheduler_System.thy ===== *)
theory Scheduler_System
  imports Sched_Runner Queue_Dlq Queue_Retention Recovery Cron_Projection
begin

text \<open>
  The scheduler as a whole: the operations of the alarm, queue and cron stores and the
  startup recovery as steps of one store, and the run loop on top of the claims of the three
  stores. Every operation is one transaction; a failed one changes nothing. The consumers of
  queues and the schedules of cron are written by the control plane and may change between
  any two steps.
\<close>

section \<open>Queue claims\<close>

definition held_messages :: "db \<Rightarrow> nat set" where
  "held_messages d = m_id ` {m \<in> set (messages d). m_claim m \<noteq> None}"

lemma claim_consumer_Inr:
  assumes inv: "queue_inv d" and run: "claim_consumer self now (i, c) d = Inr (r, d')"
  defines "ms \<equiv> due_messages d (c_queue c) now (c_max_batch_size c)"
  shows "r = None \<and> d' = d \<or> r = Some (claimed_batch_of self i c ms)
    \<and> messages d' = map (mark (m_seq ` set ms) (claim_of i c)) (messages d)"
proof (cases "ms = []")
  case True
  then show ?thesis using run by (simp add: claim_consumer_def due_messages_tx_def tx_simps ms_def split: if_splits)
next
  case False
  let ?d1 = "d\<lparr>batches := batches d @ [batch_of_claim i c now ms]\<rparr>"
  from run False obtain u where r: "r = Some (claimed_batch_of self i c ms)" "int (c_generation c) \<le> i64_max"
    "insert_batch (batch_of_claim i c now ms) d = Inr (u, ?d1)" "for_each (claim_message i c now) ms ?d1 = Inr ((), d')"
    by (auto simp: claim_consumer_def due_messages_tx_def tx_simps ms_def [symmetric] insert_batch_def as_i64_def rust_arith result_simps
        split: if_splits sum.splits option.splits)
  have "for_each (claim_message i c now) ms ?d1
      = Inr ((), ?d1\<lparr>messages := map (mark (m_seq ` set ms) (claim_of i c)) (messages ?d1)\<rparr>)"
  proof (rule claim_messages_ok [OF insert_batch_inv [OF inv r(3)] _ r(2)])
    show "distinct (map m_seq ms)" unfolding ms_def by (rule due_messages_seq [OF inv])
    show "m \<in> set (messages ?d1) \<and> deliverable ?d1 now m \<and> claim_backed ?d1 (m_queue m) (claim_of i c)"
      if "m \<in> set ms" for m
      using due_messages_in [of m d "c_queue c" now] that
      by (auto simp: ms_def deliverable_def is_pending_def claim_backed_def batch_backs_def batch_of_claim_def claim_of_def)
  qed
  then show ?thesis using r by simp
qed

lemma claim_consumer_held:
  assumes inv: "queue_inv d" and run: "claim_consumer self now (i, c) d = Inr (Some b, d')"
  shows "distinct (batch_ids b) \<and> held_messages d \<inter> set (batch_ids b) = {}
    \<and> held_messages d' = held_messages d \<union> set (batch_ids b)"
proof -
  define ms where "ms = due_messages d (c_queue c) now (c_max_batch_size c)"
  have b: "batch_ids b = map m_id ms" "messages d' = map (mark (m_seq ` set ms) (claim_of i c)) (messages d)"
    using claim_consumer_Inr [OF inv run] by (auto simp: ms_def [symmetric] batch_ids_def claimed_batch_of_def)
  have ms: "m \<in> set (messages d)" "m_claim m = None" if "m \<in> set ms" for m
    using due_messages_in [of m d "c_queue c" now] that by (auto simp: ms_def deliverable_def)
  have marked: "m_seq m \<in> m_seq ` set ms \<longleftrightarrow> m \<in> set ms" if "m \<in> set (messages d)" for m
    using message_seq_inj [OF inv that] ms(1) by (metis imageE imageI)
  define f where "f = mark (m_seq ` set ms) (claim_of i c)"
  have f: "m_id (f m) = m_id m" "m \<in> set (messages d) \<Longrightarrow> m_claim (f m) \<noteq> None \<longleftrightarrow> m_claim m \<noteq> None \<or> m \<in> set ms" for m
    using marked [of m] by (simp_all add: f_def) (simp add: mark_def)
  have "held_messages d' = m_id ` f ` {m \<in> set (messages d). m_claim (f m) \<noteq> None}"
    unfolding held_messages_def b(2) f_def [symmetric] by auto
  also have "\<dots> = m_id ` {m \<in> set (messages d). m_claim m \<noteq> None \<or> m \<in> set ms}"
    unfolding image_image f(1) using f(2) by (intro arg_cong [where f = "image m_id"]) blast
  also have "\<dots> = held_messages d \<union> m_id ` set ms" using ms(1) by (auto simp: held_messages_def)
  finally have "held_messages d' = held_messages d \<union> set (batch_ids b)" by (simp add: b(1))
  moreover have "held_messages d \<inter> set (batch_ids b) = {}"
  proof -
    have False if "m \<in> set (messages d)" "m_claim m \<noteq> None" "x \<in> set ms" "m_id m = m_id x" for m x
      using message_id_inj [OF inv that(1) ms(1) [OF that(3)] that(4)] ms(2) [OF that(3)] that(2) by simp
    then show ?thesis by (auto simp: held_messages_def b(1))
  qed
  moreover have "distinct (batch_ids b)" unfolding b(1) ms_def by (rule due_messages_id [OF inv])
  ultimately show ?thesis by simp
qed

lemma claim_consumers_held:
  assumes "queue_inv d" "map_each (claim_consumer self now) ics d = Inr (rs, d')"
  defines "bs \<equiv> List.map_filter (\<lambda>b. b) rs"
  shows "distinct (concat (map batch_ids bs)) \<and> held_messages d \<inter> set (concat (map batch_ids bs)) = {}
    \<and> held_messages d' = held_messages d \<union> set (concat (map batch_ids bs)) \<and> length bs \<le> length ics"
  using assms(1, 2) unfolding bs_def
proof (induction ics arbitrary: d rs)
  case Nil
  then show ?case by (simp add: tx_simps List.map_filter_simps)
next
  case (Cons ic ics)
  obtain i c where ic: "ic = (i, c)" by fastforce
  obtain r d1 rs' where step: "claim_consumer self now (i, c) d = Inr (r, d1)"
    and rest: "map_each (claim_consumer self now) ics d1 = Inr (rs', d')" and rs: "rs = r # rs'"
    using Cons.prems(2) by (auto simp: ic tx_simps)
  have inv1: "queue_inv d1" by (rule keepsD [OF keeps_claim_consumer Cons.prems(1) step])
  note ih = Cons.IH [OF inv1 rest]
  show ?case
  proof (cases r)
    case None
    then have "d1 = d" using claim_consumer_Inr [OF Cons.prems(1) step] by simp
    with ih None show ?thesis by (simp add: rs List.map_filter_simps)
  next
    case (Some b)
    from claim_consumer_held [OF Cons.prems(1) step [unfolded Some]] ih show ?thesis
      by (auto simp: rs Some List.map_filter_simps)
  qed
qed

interpretation queue_claims: claim_store
  "\<lambda>(self, gen, now, n, after). transaction (claim_queue_batches self gen now n after)" "\<lambda>(self, gen, now, n, after). n"
  batch_ids held_messages queue_inv
proof unfold_locales
  fix d d' :: db and a :: "nat \<times> (nat \<Rightarrow> nat) \<times> int \<times> nat \<times> nat option" and bs
  assume inv: "queue_inv d"
    and run: "(case a of (self, gen, now, n, after) \<Rightarrow> transaction (claim_queue_batches self gen now n after)) d = (Inr bs, d')"
  obtain self gen now n after where a: "a = (self, gen, now, n, after)" by (metis prod.exhaust)
  have eq: "claim_queue_batches self gen now n after d = Inr (bs, d')"
    using run a by (auto simp: transaction_def split: sum.splits)
  define cs where "cs = selected_consumers d now n after"
  have len: "length cs \<le> n" by (simp add: cs_def selected_consumers_def)
  have "eligible_consumers_tx now n after d = Inr (cs, d)"
    by (simp add: eligible_consumers_tx_def reading_def selected_consumers_def cs_def)
  with eq obtain rs where cs:
    "map_each (claim_consumer self now) (zip (map gen [0..<length cs]) cs) d = Inr (rs, d')" "bs = List.map_filter (\<lambda>b. b) rs"
    by (auto simp: claim_queue_batches_def tx_simps)
  have "queue_inv d'" by (rule keepsD [OF keeps_claim inv eq])
  with claim_consumers_held [OF inv cs(1)] cs(2) len
  show "queue_inv d' \<and> distinct (concat (map batch_ids bs)) \<and> held_messages d \<inter> set (concat (map batch_ids bs)) = {}
      \<and> held_messages d' = held_messages d \<union> set (concat (map batch_ids bs))
      \<and> length bs \<le> (case a of (self, gen, now, n, after) \<Rightarrow> n)"
    by (simp add: a)
qed (auto simp: transaction_def split: sum.splits)

section \<open>One store\<close>

definition empty_store :: "nat \<Rightarrow> scheduler_db" where
  "empty_store self = \<lparr>sd_jobs = [], sd_queue = empty_db, sd_cron = \<lparr>cron_instance = self, schedules = [], runs = []\<rparr>\<rparr>"

text \<open>
  Any operation with any arguments: projection, claims and results of alarms; lifecycle,
  production, consumption, dead letters and retention of queues; projection, claims,
  results and history of cron; the recovery of a restart; and the control plane's writes.
\<close>

inductive store_step :: "('c, 't) croner \<Rightarrow> (byte list \<Rightarrow> byte list) \<Rightarrow> (nat \<Rightarrow> byte list) \<Rightarrow> scheduler_db \<Rightarrow> scheduler_db \<Rightarrow> bool"
  for env sha fmt where
  "store_step env sha fmt d (snd (transaction (on_jobs (upsert_alarm fresh p now)) d))"
| "store_step env sha fmt d (snd (transaction (on_jobs (delete_alarm_exact ns obj g token)) d))"
| "store_step env sha fmt d (snd (transaction (on_jobs (delete_object ns obj g)) d))"
| "store_step env sha fmt d (snd (transaction (on_jobs (claim_due now batch)) d))"
| "store_step env sha fmt d (snd (transaction (on_jobs (finish_claim j result now)) d))"
| "store_step env sha fmt d (snd (transaction (on_jobs (retarget_claim j v e now)) d))"
| "store_step env sha fmt d (snd (transaction (on_jobs (finish_discarding j)) d))"
| "store_step env sha fmt d (snd (transaction (on_queue (create_queue_projection self pr)) d))"
| "store_step env sha fmt d (snd (transaction (on_queue (begin_queue_config qid lc cg now)) d))"
| "store_step env sha fmt d (snd (transaction (on_queue (project_queue_config self pr)) d))"
| "store_step env sha fmt d (snd (transaction (on_queue (reconcile_queue_config self pr)) d))"
| "store_step env sha fmt d (snd (transaction (on_queue (finish_queue_config qid lc cg now)) d))"
| "store_step env sha fmt d (snd (transaction (on_queue (fence_queue_delete qid lc now)) d))"
| "store_step env sha fmt d (snd (transaction (on_queue (delete_queue_state_tx qid lc)) d))"
| "store_step env sha fmt d (snd (transaction (on_queue (enqueue_queue sha fmt request gen now)) d))"
| "store_step env sha fmt d (snd (transaction (on_queue (finalize_queue_enqueue rid qid lc now)) d))"
| "store_step env sha fmt d (snd (transaction (on_queue (sweep_queue_retention now rows bytes)) d))"
| "store_step env sha fmt d (snd (transaction (on_queue (purge_queue qid rows bytes)) d))"
| "store_step env sha fmt d (snd (transaction (on_queue (repair_queue_counter mismatch)) d))"
| "store_step env sha fmt d (snd (transaction (on_queue (claim_queue_batches self gen now n after)) d))"
| "store_step env sha fmt d (snd (transaction (on_queue (complete_queue_batch b decisions now)) d))"
| "store_step env sha fmt d (snd (transaction (on_queue (forward_queue_dlq_pending now retry_ms n)) d))"
| "store_step env sha fmt d (snd (transaction (on_cron (project_due_cron_slots env gen now grace n)) d))"
| "store_step env sha fmt d (snd (transaction (on_cron (gc_cron_history now keep limit)) d))"
| "store_step env sha fmt d (snd (transaction (on_cron (claim_cron_runs now retries n)) d))"
| "store_step env sha fmt d (snd (transaction (on_cron (complete_cron_run run completion now retries)) d))"
| "store_step env sha fmt d (snd (transaction (on_cron (mark_cron_unknown run reason now retries)) d))"
| "store_step env sha fmt d (snd (transaction (reset_claims now retries) d))"
| "store_step env sha fmt d (d\<lparr>sd_queue := (sd_queue d)\<lparr>consumers := cs\<rparr>\<rparr>)"
| "list_all schedule_ok ss \<Longrightarrow> distinct (map cs_activation ss) \<Longrightarrow>
     store_step env sha fmt d (d\<lparr>sd_cron := (sd_cron d)\<lparr>schedules := ss\<rparr>\<rparr>)"

definition store_inv :: "scheduler_db \<Rightarrow> bool" where
  "store_inv d \<longleftrightarrow> jobs_inv (sd_jobs d) \<and> queue_inv (sd_queue d) \<and> cron_inv (sd_cron d)"

lemma keeps_parts:
  "keeps jobs_inv m1 \<Longrightarrow> keeps store_inv (on_jobs m1)"
  "keeps queue_inv m2 \<Longrightarrow> keeps store_inv (on_queue m2)"
  "keeps cron_inv m3 \<Longrightarrow> keeps store_inv (on_cron m3)"
  by (auto simp: on_jobs_def on_queue_def on_cron_def store_inv_def keeps_def split: sum.splits)

lemma keeps_recovery: "keeps store_inv (reset_claims now retries)"
  unfolding reset_claims_def reset_claims_tx_def
  by (intro keeps_intros keeps_parts keeps_alarm keeps_reset_queue keeps_reset_cron)

lemmas keeps_store = keeps_parts keeps_alarm keeps_projections keeps_enqueue keeps_retention keeps_repair keeps_claim
  keeps_complete keeps_forward keeps_cron keeps_recovery

lemma empty_store_inv: "store_inv (empty_store self)"
  by (simp add: store_inv_def empty_store_def jobs_inv_Nil empty_db_inv cron_inv_def)

lemma store_step_inv:
  assumes "store_step env sha fmt d d'" "store_inv d"
  shows "store_inv d'"
  using assms
proof cases
  case (29 cs)
  have "claim_ok ((sd_queue d)\<lparr>consumers := cs\<rparr>) = claim_ok (sd_queue d)"
    by (simp add: fun_eq_iff claim_ok_def claim_backed_def is_pending_def split: option.split)
  then show ?thesis
    using assms(2) 29 by (simp add: store_inv_def queue_inv_def keys_ok_def rows_ok_def counters_ok_def claims_ok_def has_queue_def)
next
  case (30 ss)
  then show ?thesis using assms(2) by (simp add: store_inv_def cron_inv_def)
qed (use assms(2) in \<open>simp_all add: transaction_inv keeps_store\<close>)

lemma reachable_inv: "rtranclp (store_step env sha fmt) d d' \<Longrightarrow> store_inv d \<Longrightarrow> store_inv d'"
  by (induction rule: rtranclp_induct) (auto intro: store_step_inv)

text \<open>
  C3. In every state the scheduler store can reach from empty, by any operations in any order
  with any arguments, failed ones and restarts included: the backlog counters of every queue
  are the number and the bytes of its messages, every claimed message is claimed by an
  existing batch of its queue and is not waiting for a dead-letter queue, message
  identities are unique, an object has at most one alarm, and a slot of a cron schedule has
  at most one run, attempted at most four times.
\<close>

theorem scheduler_store_consistent:
  assumes "rtranclp (store_step env sha fmt) (empty_store self) d"
  shows "list_all (\<lambda>q. q_count q = count_where (\<lambda>m. m_queue m = q_id q) (messages (sd_queue d))
        \<and> q_bytes q = sum_where (\<lambda>m. m_queue m = q_id q) m_bytes (messages (sd_queue d))) (queues (sd_queue d))
    \<and> list_all (\<lambda>m. case m_claim m of None \<Rightarrow> True
        | Some c \<Rightarrow> claim_backed (sd_queue d) (m_queue m) c \<and> \<not> is_pending (sd_queue d) (m_id m)) (messages (sd_queue d))
    \<and> distinct (map m_id (messages (sd_queue d))) \<and> distinct (map job_key (sd_jobs d))
    \<and> distinct (map run_slot (runs (sd_cron d))) \<and> list_all (\<lambda>r. r_attempt r \<le> 4) (runs (sd_cron d))"
proof -
  have inv: "jobs_inv (sd_jobs d)" "queue_inv (sd_queue d)" "cron_inv (sd_cron d)"
    using reachable_inv [OF assms empty_store_inv] by (simp_all add: store_inv_def)
  have "list_all (\<lambda>r. r_attempt r \<le> 4) (runs (sd_cron d))"
    using cron_invD(3) [OF inv(3)] by (auto simp: list_all_iff run_ok_def run_checks_def)
  moreover have "claim_ok (sd_queue d) = (\<lambda>m. case m_claim m of None \<Rightarrow> True
      | Some c \<Rightarrow> claim_backed (sd_queue d) (m_queue m) c \<and> \<not> is_pending (sd_queue d) (m_id m))"
    by (simp add: fun_eq_iff claim_ok_def)
  ultimately show ?thesis
    using inv(1) queue_invD [OF inv(2)] cron_invD(2) [OF inv(3)]
    by (simp add: jobs_inv_def keys_ok_def counters_ok_def claims_ok_def)
qed

theorem scheduler_store_consistent_witness:
  "distinct (map run_slot (runs (sd_cron (snd (transaction (on_cron (project_due_cron_slots every_five (\<lambda>i. 100 + i) 600000 0 10))
     ((empty_store 1)\<lparr>sd_cron := (sd_cron (empty_store 1))\<lparr>schedules := [sample_schedule]\<rparr>\<rparr>))))))"
proof -
  let ?d = "(empty_store 1)\<lparr>sd_cron := (sd_cron (empty_store 1))\<lparr>schedules := [sample_schedule]\<rparr>\<rparr>"
  have "store_step every_five (\<lambda>b. b) (\<lambda>n. []) (empty_store 1) ?d"
    by (rule store_step.intros) (use cron_invD(4, 5) [OF sample_cron_inv] in \<open>simp_all add: sample_cron_def\<close>)
  moreover have "store_step every_five (\<lambda>b. b) (\<lambda>n. []) ?d
      (snd (transaction (on_cron (project_due_cron_slots every_five (\<lambda>i. 100 + i) 600000 0 10)) ?d))"
    by (rule store_step.intros)
  ultimately show ?thesis using scheduler_store_consistent [OF rtranclp_trans [OF r_into_rtranclp r_into_rtranclp]] by blast
qed

section \<open>The run loop over the stores\<close>

text \<open>What the pools claim: alarms, queue batches and cron runs from the store, workflow runs from their own.\<close>

definition store_claim ::
  "nat \<Rightarrow> (nat \<Rightarrow> nat) \<Rightarrow> int \<Rightarrow> nat \<Rightarrow> nat option \<Rightarrow> (nat \<Rightarrow> nat result) \<Rightarrow> scheduler_db \<Rightarrow> scheduler_kind \<Rightarrow> nat \<Rightarrow> nat result" where
  "store_claim self gen now retries after workflows d k n =
     (case k of
        Alarm \<Rightarrow> map_sum (\<lambda>e. e) length (fst (transaction (claim_due now n) (sd_jobs d)))
      | Queue \<Rightarrow> map_sum (\<lambda>e. e) length (fst (transaction (claim_queue_batches self gen now n after) (sd_queue d)))
      | Cron \<Rightarrow> map_sum (\<lambda>e. e) length (fst (transaction (claim_cron_runs now retries n) (sd_cron d)))
      | Workflow \<Rightarrow> workflows n)"

lemma counted: "map_sum (\<lambda>e. e) length (fst t) = Inr j \<Longrightarrow> \<exists>cs s. t = (Inr cs, s) \<and> j = length cs"
  by (cases t; cases "fst t") auto

lemma store_claim_within:
  assumes "store_inv d" "\<And>n j. workflows n = Inr j \<Longrightarrow> j \<le> n" "claim inp = store_claim self gen now retries after workflows d"
  shows "claims_within inp"
proof -
  have inv: "jobs_inv (sd_jobs d)" "queue_inv (sd_queue d)" "cron_inv (sd_cron d)" using assms(1) by (simp_all add: store_inv_def)
  have "j \<le> n" if c: "store_claim self gen now retries after workflows d k n = Inr j" for k n j
  proof (cases k)
    case Alarm
    with c counted [of "transaction (claim_due now n) (sd_jobs d)"] show ?thesis
      using alarm_claims.claim_ok [OF inv(1), of "(now, n)"] by (auto simp: store_claim_def)
  next
    case Queue
    with c counted [of "transaction (claim_queue_batches self gen now n after) (sd_queue d)"] show ?thesis
      using queue_claims.claim_ok [OF inv(2), of "(self, gen, now, n, after)"] by (auto simp: store_claim_def)
  next
    case Cron
    with c counted [of "transaction (claim_cron_runs now retries n) (sd_cron d)"] show ?thesis
      using cron_claims.claim_ok [OF inv(3), of "(now, retries, n)"] by (auto simp: store_claim_def)
  next
    case Workflow
    then show ?thesis using c assms(2) by (simp add: store_claim_def)
  qed
  then show ?thesis by (simp add: claims_within_def assms(3))
qed



end
