(* ===== verification/Cron_Syntax.thy ===== *)
theory Cron_Syntax
  imports Cron_Slots
begin

text \<open>
  The parse/normalize round trip of cron expressions: the normalized spelling, which the
  control store hashes, is a fixed point of the parser.
\<close>

section \<open>Splitting and joining\<close>

lemma split_at_nonempty [simp]: "split_at p xs \<noteq> []"
  by (cases xs) (auto split: list.splits)

lemma split_at_none: "list_all (\<lambda>x. \<not> p x) xs \<Longrightarrow> split_at p xs = [xs]"
  by (induction xs) auto

lemma split_at_first: "list_all (\<lambda>x. \<not> p x) xs \<Longrightarrow> p c \<Longrightarrow> split_at p (xs @ c # ys) = xs # split_at p ys"
  by (induction xs) auto

lemma split_at_pieces: "x \<in> set (split_at p xs) \<Longrightarrow> list_all (\<lambda>y. \<not> p y) x"
  by (induction xs arbitrary: x) (auto split: if_splits list.splits)

lemma split_at_map: "(\<And>x. p (f x) \<longleftrightarrow> p x) \<Longrightarrow> split_at p (map f xs) = map (map f) (split_at p xs)"
  by (induction xs) (auto split: list.splits)

lemma split_at_join:
  "fs \<noteq> [] \<Longrightarrow> p c \<Longrightarrow> (\<And>f. f \<in> set fs \<Longrightarrow> list_all (\<lambda>x. \<not> p x) f) \<Longrightarrow> split_at p (join [c] fs) = fs"
  by (induction "[c]" fs rule: join.induct) (simp_all add: split_at_none split_at_first)

lemma split_at_length: "sum_list (map (\<lambda>f. Suc (length f)) (split_at p xs)) = Suc (length xs)"
  by (induction xs) (auto split: list.splits)

lemma join_length: "fs \<noteq> [] \<Longrightarrow> Suc (length (join [c] fs)) = sum_list (map (\<lambda>f. Suc (length f)) fs)"
  by (induction "[c]" fs rule: join.induct) simp_all

lemma filter_sum_le: "sum_list (map g (filter q fs)) \<le> (sum_list (map g fs) :: nat)"
  by (induction fs) auto

lemma join_hd: "fs \<noteq> [] \<Longrightarrow> hd fs \<noteq> [] \<Longrightarrow> hd (join sep fs) = hd (hd fs) \<and> join sep fs \<noteq> []"
  by (induction sep fs rule: join.induct) simp_all

lemma join_last:
  "fs \<noteq> [] \<Longrightarrow> (\<And>f. f \<in> set fs \<Longrightarrow> f \<noteq> []) \<Longrightarrow> last (join sep fs) = last (last fs) \<and> join sep fs \<noteq> []"
  by (induction sep fs rule: join.induct) simp_all

section \<open>Case folding\<close>

lemma to_upper_code: "(of_char (to_upper c) :: nat) =
    (if 97 \<le> (of_char c :: nat) \<and> (of_char c :: nat) \<le> 122 then of_char c - 32 else of_char c)"
  by (auto simp: to_upper_def)

lemma to_upper_idem [simp]: "to_upper (to_upper c) = to_upper c"
  unfolding to_upper_def [of "to_upper c"] to_upper_code by auto

lemma to_upper_ws [simp]: "is_ascii_whitespace (to_upper c) \<longleftrightarrow> is_ascii_whitespace c"
  unfolding is_ascii_whitespace_def to_upper_code by auto

lemma to_upper_digit [simp]: "is_digit (to_upper c) \<longleftrightarrow> is_digit c"
  unfolding is_digit_def to_upper_code by auto

lemma to_upper_eq:
  assumes "(of_char d :: nat) < 65 \<or> 122 < (of_char d :: nat)"
  shows "to_upper c = d \<longleftrightarrow> c = d"
proof -
  have "to_upper c = d \<longleftrightarrow> (of_char (to_upper c) :: nat) = of_char d" by simp
  also have "\<dots> \<longleftrightarrow> (of_char c :: nat) = of_char d" unfolding to_upper_code using assms by auto
  finally show ?thesis by simp
qed

lemma digit_upper: "is_digit c \<Longrightarrow> to_upper c = c"
  by (simp add: is_digit_def to_upper_def)

lemma split_once_upper:
  assumes "(of_char d :: nat) < 65"
  shows "split_once d (map to_upper s)
     = map_option (\<lambda>(a, b). (map to_upper a, map to_upper b)) (split_once d s)"
proof -
  have eq: "to_upper c = d \<longleftrightarrow> c = d" for c using to_upper_eq assms by blast
  have "d \<in> set (map to_upper s) \<longleftrightarrow> d \<in> set s" using eq by (metis (no_types, lifting) imageE imageI list.set_map)
  then show ?thesis by (simp add: split_once_def takeWhile_map dropWhile_map map_tl comp_def eq)
qed

lemma number_upper: "number (map to_upper s) \<longleftrightarrow> number s"
  by (simp add: number_def list_all_iff)

lemma digits_upper: "list_all is_digit s \<Longrightarrow> digits_value acc (map to_upper s) = digits_value acc s"
  by (induction s arbitrary: acc) (simp_all add: digit_upper)

lemma parse_u8_upper: "parse_u8 (map to_upper s) = parse_u8 s"
proof -
  have eq: "(if number (map to_upper ds) \<and> digits_value 0 (map to_upper ds) \<le> 255
             then Some (digits_value 0 (map to_upper ds)) else None)
          = (if number ds \<and> digits_value 0 ds \<le> 255 then Some (digits_value 0 ds) else None)" for ds
    using digits_upper [of ds 0] number_upper [of ds] by (cases "number ds") (auto simp: number_def)
  show ?thesis
  proof (cases s)
    case (Cons a l)
    have "to_upper a = CHR ''+'' \<longleftrightarrow> a = CHR ''+''" by (simp add: to_upper_eq)
    then show ?thesis
      using eq [of l] eq [of "a # l"] unfolding Cons parse_u8_def Let_def list.map list.case
      by (cases "a = CHR ''+''") (simp_all only: if_True if_False refl)
  qed simp
qed

lemma step_fits_upper: "step_fits (map to_upper item) \<longleftrightarrow> step_fits item"
  by (auto simp: step_fits_def split_once_upper parse_u8_upper split: option.splits)

lemma items_upper: "items (map to_upper f) = map (map to_upper) (items f)"
  unfolding items_def by (rule split_at_map) (simp add: to_upper_eq)

section \<open>Accepted characters\<close>

definition graphic :: "char \<Rightarrow> bool" where
  "graphic c \<longleftrightarrow> 33 \<le> (of_char c :: nat) \<and> (of_char c :: nat) < 127"

lemma split_once_parts: "split_once c s = Some (a, b) \<Longrightarrow> s = a @ c # b"
proof -
  assume "split_once c s = Some (a, b)"
  then have c: "c \<in> set s" and a: "a = takeWhile (\<lambda>x. x \<noteq> c) s"
    and b: "b = tl (dropWhile (\<lambda>x. x \<noteq> c) s)"
    by (auto simp: split_once_def split: if_splits)
  have ne: "dropWhile (\<lambda>x. x \<noteq> c) s \<noteq> []" using c by (simp add: dropWhile_eq_Nil_conv)
  then have "dropWhile (\<lambda>x. x \<noteq> c) s = c # b" using hd_dropWhile [OF ne] b by (cases "dropWhile (\<lambda>x. x \<noteq> c) s") auto
  then show ?thesis using takeWhile_dropWhile_id [of "\<lambda>x. x \<noteq> c" s] a by simp
qed

lemma graphic_number: "number s \<Longrightarrow> list_all graphic s"
  by (auto simp: number_def list_all_iff graphic_def is_digit_def)

lemma graphic_names: "month s \<Longrightarrow> list_all graphic s" "weekday s \<Longrightarrow> list_all graphic s"
  using graphic_number [of s] by (auto simp: month_def weekday_def graphic_def)

lemma graphic_ordinary:
  assumes v: "\<And>x. v x \<Longrightarrow> list_all graphic x" and s: "ordinary v s"
  shows "list_all graphic s"
proof -
  have base: "list_all graphic x" if "base_item v x" for x
    using that v split_once_parts [of _ x]
    by (fastforce simp: base_item_def graphic_def split: option.splits)
  show ?thesis
    using s base graphic_number split_once_parts [of _ s]
    by (fastforce simp: ordinary_def graphic_def split: option.splits)
qed

lemma graphic_snoc: "s \<noteq> [] \<Longrightarrow> last s = c \<Longrightarrow> graphic c \<Longrightarrow> list_all graphic (butlast s) \<Longrightarrow> list_all graphic s"
  by (subst append_butlast_last_id [symmetric]) auto

lemma graphic_dom: "dom_item s \<Longrightarrow> list_all graphic s"
  using graphic_ordinary [of number s] graphic_number graphic_snoc [of s "CHR ''W''"]
  by (auto simp: dom_item_def graphic_def)

lemma graphic_nth: "nth_weekday s \<Longrightarrow> list_all graphic s"
proof -
  assume n: "nth_weekday s"
  have "\<forall>c \<in> set ''12345''. graphic c" by (simp add: graphic_def)
  then have "graphic (last s)" using n unfolding nth_weekday_def by blast
  moreover have "list_all graphic (butlast s)"
    using n unfolding nth_weekday_def by (elim conjE list.pred_mono_strong) (simp add: graphic_def)
  ultimately show ?thesis using n graphic_snoc [of s "last s"] by (simp add: nth_weekday_def)
qed

lemma graphic_dow: "dow_item s \<Longrightarrow> list_all graphic s"
proof -
  assume "dow_item s"
  then consider "ordinary weekday s" | "s \<noteq> []" "last s = CHR ''L''" "weekday (butlast s)"
    | a b where "split_once CHR ''#'' s = Some (a, b)" "weekday a" "nth_weekday b"
    by (auto simp: dow_item_def split: option.splits)
  then show ?thesis
  proof cases
    case 1
    then show ?thesis using graphic_ordinary graphic_names(2) by blast
  next
    case 2
    then show ?thesis using graphic_snoc [of s] graphic_names(2) by (simp add: graphic_def)
  next
    case 3
    then show ?thesis
      using split_once_parts [OF 3(1)] graphic_names(2) graphic_nth by (simp add: graphic_def)
  qed
qed

lemma graphic_item: "field_item i s \<Longrightarrow> list_all graphic s"
proof -
  assume "field_item i s"
  then consider "dom_item s" | "ordinary month s" | "dow_item s" | "ordinary number s"
    unfolding field_item_def by (simp split: if_splits)
  then show ?thesis
    using graphic_dom graphic_dow graphic_ordinary [OF graphic_number] graphic_ordinary [OF graphic_names(1)]
    by cases blast+
qed

lemma split_at_chars: "set f \<subseteq> \<Union> (set ` set (split_at p f)) \<union> Collect p"
proof (induction f)
  case (Cons a f)
  then show ?case by (cases "split_at p f") (simp_all, blast+)
qed simp

lemma graphic_items: "list_all (field_item i) (items f) \<Longrightarrow> list_all graphic f"
proof -
  assume a: "list_all (field_item i) (items f)"
  have "graphic c" if "c \<in> set f" for c
  proof -
    have "c = CHR '','' \<or> (\<exists>x \<in> set (items f). c \<in> set x)"
      using that split_at_chars [of f "\<lambda>c. c = CHR '',''"] by (auto simp: items_def)
    then show ?thesis
      using a graphic_item unfolding list_all_iff by (auto simp: graphic_def)
  qed
  then show ?thesis by (simp add: list_all_iff)
qed

lemma graphic_fields: "cloudflare_syntax fs \<Longrightarrow> f \<in> set fs \<Longrightarrow> list_all graphic f"
proof -
  assume c: "cloudflare_syntax fs" and f: "f \<in> set fs"
  then obtain i where "i < 5" "f = fs ! i" by (auto simp: cloudflare_syntax_def in_set_conv_nth)
  with c have "list_all (field_item i) (items f)"
    unfolding cloudflare_syntax_def list_all_iff [of _ "[0..<5]"] by simp
  then show ?thesis by (rule graphic_items)
qed

lemma white_space_ends:
  "w \<in> set white_space \<Longrightarrow> w \<noteq> [] \<and> \<not> graphic (hd w) \<and> \<not> graphic (last w)"
  by (auto simp: white_space_def graphic_def)

lemma graphic_trimmed: "s \<noteq> [] \<Longrightarrow> graphic (hd s) \<Longrightarrow> graphic (last s) \<Longrightarrow> trimmed s"
  using white_space_ends by (fastforce simp: trimmed_def list_ex_iff prefix_def suffix_def)

section \<open>The round trip\<close>

lemma parsed_facts:
  assumes "parse env e = Inr s"
  obtains fs where "fs = split_ascii_whitespace e" "length fs = 5" "length e \<le> 256"
    "\<not> list_ex (\<lambda>f. CHR ''?'' \<in> set f) fs" "cloudflare_syntax (map (map to_upper) fs)"
    "\<not> list_ex (\<lambda>f. list_ex (\<lambda>item. \<not> step_fits item) (items f)) fs"
    "compile env (parser_expression (map (map to_upper) fs)) = Some (cron s)"
    "normalized s = join '' '' (map (map to_upper) fs)"
  using assms by (auto simp: parse_def Let_def split: if_splits option.splits)

lemma split_fields: "f \<in> set (split_ascii_whitespace e) \<Longrightarrow> f \<noteq> [] \<and> list_all (\<lambda>x. \<not> is_ascii_whitespace x) f"
  using split_at_pieces by (auto simp: split_ascii_whitespace_def)

lemma fields_of_join:
  assumes "fs \<noteq> []" "\<And>f. f \<in> set fs \<Longrightarrow> f \<noteq> [] \<and> list_all (\<lambda>x. \<not> is_ascii_whitespace x) f"
  shows "split_ascii_whitespace (join '' '' fs) = fs"
proof -
  have "split_at is_ascii_whitespace (join '' '' fs) = fs"
    using assms by (intro split_at_join) (auto simp: is_ascii_whitespace_def)
  then show ?thesis using assms(2) by (simp add: split_ascii_whitespace_def)
qed

lemma join_fields_length:
  assumes "split_ascii_whitespace e \<noteq> []"
  shows "length (join '' '' (map (map f) (split_ascii_whitespace e))) \<le> length e"
proof -
  let ?fs = "split_ascii_whitespace e"
  have "Suc (length (join '' '' (map (map f) ?fs))) = sum_list (map (\<lambda>x. Suc (length x)) ?fs)"
    using assms by (subst join_length) (simp_all add: comp_def)
  also have "\<dots> \<le> Suc (length e)"
    unfolding split_ascii_whitespace_def split_at_length [of is_ascii_whitespace e, symmetric] by (rule filter_sum_le)
  finally show ?thesis by simp
qed

lemma parse_accepts:
  "e \<noteq> [] \<Longrightarrow> length e \<le> 256 \<Longrightarrow> trimmed e \<Longrightarrow> split_ascii_whitespace e = fs \<Longrightarrow> length fs = 5 \<Longrightarrow>
   \<not> list_ex (\<lambda>f. CHR ''?'' \<in> set f) fs \<Longrightarrow> cloudflare_syntax (map (map to_upper) fs) \<Longrightarrow>
   \<not> list_ex (\<lambda>f. list_ex (\<lambda>item. \<not> step_fits item) (items f)) fs \<Longrightarrow>
   compile env (parser_expression (map (map to_upper) fs)) = Some c \<Longrightarrow>
   parse env e = Inr \<lparr>normalized = join '' '' (map (map to_upper) fs), cron = c\<rparr>"
  by (simp add: parse_def Let_def)

lemma question_upper:
  "list_ex (\<lambda>f. CHR ''?'' \<in> set f) (map (map to_upper) fs) \<longleftrightarrow> list_ex (\<lambda>f. CHR ''?'' \<in> set f) fs"
proof -
  have eq: "CHR ''?'' = to_upper c \<longleftrightarrow> CHR ''?'' = c" for c
    using to_upper_eq [of "CHR ''?''" c] by (simp add: eq_commute)
  have "CHR ''?'' \<in> set (map to_upper f) \<longleftrightarrow> CHR ''?'' \<in> set f" for f
    by (induction f) (simp_all only: list.map list.set insert_iff empty_iff eq)
  then show ?thesis by (induction fs) (simp_all only: list.map list_ex_iff list.set bex_simps)
qed

lemma steps_upper:
  "list_ex (\<lambda>f. list_ex (\<lambda>item. \<not> step_fits item) (items f)) (map (map to_upper) fs)
     \<longleftrightarrow> list_ex (\<lambda>f. list_ex (\<lambda>item. \<not> step_fits item) (items f)) fs"
proof -
  have "list_ex (\<lambda>item. \<not> step_fits item) (map (map to_upper) xs) \<longleftrightarrow> list_ex (\<lambda>item. \<not> step_fits item) xs"
    for xs by (induction xs) (simp_all add: step_fits_upper)
  then show ?thesis by (induction fs) (simp_all add: items_upper)
qed

lemma normalized_ends:
  assumes "fs \<noteq> []" "\<And>f. f \<in> set fs \<Longrightarrow> f \<noteq> [] \<and> list_all graphic f"
  shows "join '' '' fs \<noteq> [] \<and> trimmed (join '' '' fs)"
proof -
  have m: "hd fs \<in> set fs" "last fs \<in> set fs" using assms(1) by simp_all
  have "graphic (hd (hd fs))" "graphic (last (last fs))"
    using assms(2) [OF m(1)] assms(2) [OF m(2)] by (simp_all add: list_all_iff)
  moreover have "hd (join '' '' fs) = hd (hd fs)" "join '' '' fs \<noteq> []" "last (join '' '' fs) = last (last fs)"
    using join_hd [OF assms(1)] join_last [OF assms(1)] assms(2) m by blast+
  ultimately show ?thesis using graphic_trimmed by metis
qed

text \<open>
  C28. Parsing the normalized spelling of an accepted expression succeeds and returns the very
  schedule it came from: normalization changes neither the fields nor the compiled pattern,
  and the normalized spelling, which is what integrity hashes cover, is stable.
\<close>

theorem parse_normalized_roundtrip:
  assumes "parse env e = Inr s"
  shows "parse env (normalized s) = Inr s"
proof -
  from assms obtain fs where fs: "fs = split_ascii_whitespace e" "length fs = 5" "length e \<le> 256"
    "\<not> list_ex (\<lambda>f. CHR ''?'' \<in> set f) fs" "cloudflare_syntax (map (map to_upper) fs)"
    "\<not> list_ex (\<lambda>f. list_ex (\<lambda>item. \<not> step_fits item) (items f)) fs"
    "compile env (parser_expression (map (map to_upper) fs)) = Some (cron s)"
    "normalized s = join '' '' (map (map to_upper) fs)"
    by (rule parsed_facts)
  let ?up = "map (map to_upper) fs"
  have ne: "fs \<noteq> []" using fs(2) by auto
  have shape: "f \<noteq> [] \<and> list_all (\<lambda>x. \<not> is_ascii_whitespace x) f" if "f \<in> set ?up" for f
    using that split_fields fs(1) by (auto simp: list_all_iff)
  have split: "split_ascii_whitespace (normalized s) = ?up"
    unfolding fs(8) by (rule fields_of_join) (use ne shape in auto)
  have len: "length (normalized s) \<le> 256"
    using join_fields_length [of e to_upper] ne fs(1, 3, 8) by simp
  have again: "map (map to_upper) ?up = ?up" by (simp add: comp_def)
  have "f \<noteq> [] \<and> list_all graphic f" if "f \<in> set ?up" for f
    using graphic_fields [OF fs(5) that] shape [OF that] by blast
  then have "normalized s \<noteq> [] \<and> trimmed (normalized s)"
    unfolding fs(8) using normalized_ends [of ?up] ne by blast
  then have "parse env (normalized s) = Inr \<lparr>normalized = join '' '' (map (map to_upper) ?up), cron = cron s\<rparr>"
    using len split fs(2, 4-7)
    by (intro parse_accepts) (simp_all only: question_upper steps_upper again length_map not_False_eq_True)
  then show ?thesis unfolding again fs(8) [symmetric] by simp
qed

theorem parse_normalized_roundtrip_witness:
  "parse every_five (normalized five_schedule) = Inr five_schedule"
proof -
  have "parse every_five ''*/5  * * * *'' = Inr five_schedule" by code_simp
  then show ?thesis by (rule parse_normalized_roundtrip)
qed

end
