(* ===== verification/Pins.thy ===== *)
theory Pins
  imports OC_Prelude "HOL-Library.AList"
begin

text \<open>
  In-process pins and deletion fences (\<open>crates/workers/src/pins.rs\<close> and
  \<open>crates/workers/src/resource_pins.rs\<close>). A registry counts the pins of each key; a fence
  refuses new pins of a key, and a deletion proceeds once the fenced key has drained. The
  hash maps are association lists; a pin value is the key it was acquired for, with its
  deployment in the case of versions. Waiting for a key to drain is polling the registry
  between the operations of others; a timeout leaves the fence in place.
\<close>

section \<open>The contract\<close>

text \<open>
  \<open>active s p\<close> is the number of outstanding pins equal to \<open>p\<close> that the registry accounts for;
  \<open>retained s k\<close> says that background work holds \<open>k\<close> without a pin.
\<close>

datatype ('p, 'k, 'o) pin_event =
  Acquire 'p | Release 'p | Fence "'k list" | Unfence 'k | Retire 'k | Other 'o

text \<open>
  A run of a registry together with the pin values its clients hold: a pin that was granted is
  held until it is dropped, and a held pin is dropped once.
\<close>

fun pin_step :: "('p \<Rightarrow> 's \<Rightarrow> unit result \<times> 's) \<Rightarrow> ('p \<Rightarrow> 's \<Rightarrow> 's) \<Rightarrow> ('k list \<Rightarrow> 's \<Rightarrow> 's) \<Rightarrow> ('k \<Rightarrow> 's \<Rightarrow> 's)
    \<Rightarrow> ('k \<Rightarrow> 's \<Rightarrow> 's) \<Rightarrow> ('o \<Rightarrow> 's \<Rightarrow> 's) \<Rightarrow> 's \<times> 'p list \<Rightarrow> ('p, 'k, 'o) pin_event \<Rightarrow> 's \<times> 'p list" where
  "pin_step acq rel fen unf ret oth (s, h) (Acquire p) =
     (case acq p s of (Inl e, s') \<Rightarrow> (s', h) | (Inr u, s') \<Rightarrow> (s', p # h))"
| "pin_step acq rel fen unf ret oth (s, h) (Release p) = (if p \<in> set h then (rel p s, remove1 p h) else (s, h))"
| "pin_step acq rel fen unf ret oth (s, h) (Fence ks) = (fen ks s, h)"
| "pin_step acq rel fen unf ret oth (s, h) (Unfence k) = (unf k s, h)"
| "pin_step acq rel fen unf ret oth (s, h) (Retire k) = (ret k s, h)"
| "pin_step acq rel fen unf ret oth (s, h) (Other c) = (oth c s, h)"

fun lifts :: "'k \<Rightarrow> ('p, 'k, 'o) pin_event \<Rightarrow> bool" where
  "lifts k (Unfence j) = (j = k)"
| "lifts k (Retire j) = (j = k)"
| "lifts k e = False"

locale pin_registry =
  fixes acquire :: "'p \<Rightarrow> 's \<Rightarrow> unit result \<times> 's"
    and release :: "'p \<Rightarrow> 's \<Rightarrow> 's"
    and fence :: "'k list \<Rightarrow> 's \<Rightarrow> 's"
    and unfence :: "'k \<Rightarrow> 's \<Rightarrow> 's"
    and retire :: "'k \<Rightarrow> 's \<Rightarrow> 's"
    and other :: "'o \<Rightarrow> 's \<Rightarrow> 's"
    and key :: "'p \<Rightarrow> 'k"
    and active :: "'s \<Rightarrow> 'p \<Rightarrow> nat"
    and is_fenced :: "'s \<Rightarrow> 'k \<Rightarrow> bool"
    and drained :: "'k list \<Rightarrow> 's \<Rightarrow> bool"
    and retained :: "'s \<Rightarrow> 'k \<Rightarrow> bool"
    and inv :: "'s \<Rightarrow> bool"
  assumes acquire_ok: "inv s \<Longrightarrow> acquire p s = (Inr u, s') \<Longrightarrow> inv s' \<and> \<not> is_fenced s (key p)
      \<and> active s' = (active s)(p := active s p + 1) \<and> is_fenced s' = is_fenced s \<and> retained s' = retained s"
    and acquire_error: "inv s \<Longrightarrow> acquire p s = (Inl e, s') \<Longrightarrow> inv s' \<and> active s' = active s
      \<and> is_fenced s' = is_fenced s \<and> retained s' = retained s"
    and release_ok: "inv s \<Longrightarrow> 0 < active s p \<Longrightarrow> inv (release p s)
      \<and> active (release p s) = (active s)(p := active s p - 1) \<and> is_fenced (release p s) = is_fenced s
      \<and> retained (release p s) = retained s"
    and fence_ok: "inv s \<Longrightarrow> inv (fence ks s) \<and> active (fence ks s) = active s
      \<and> is_fenced (fence ks s) k = (k \<in> set ks \<or> is_fenced s k) \<and> retained (fence ks s) = retained s"
    and unfence_ok: "inv s \<Longrightarrow> inv (unfence k s) \<and> active (unfence k s) = active s
      \<and> (j \<noteq> k \<longrightarrow> is_fenced (unfence k s) j = is_fenced s j) \<and> retained (unfence k s) = retained s"
    and retire_ok: "inv s \<Longrightarrow> inv (retire k s) \<and> active (retire k s) = active s
      \<and> (j \<noteq> k \<longrightarrow> is_fenced (retire k s) j = is_fenced s j) \<and> retained (retire k s) = retained s"
    and other_ok: "inv s \<Longrightarrow> inv (other c s) \<and> active (other c s) = active s \<and> is_fenced (other c s) = is_fenced s
      \<and> (is_fenced s k \<longrightarrow> retained (other c s) k \<longrightarrow> retained s k)"
    and drained_idle: "inv s \<Longrightarrow> drained ks s \<Longrightarrow> key p \<in> set ks \<Longrightarrow> active s p = 0"
    and drained_free: "inv s \<Longrightarrow> drained ks s \<Longrightarrow> k \<in> set ks \<Longrightarrow> \<not> retained s k"
begin

abbreviation step :: "'s \<times> 'p list \<Rightarrow> ('p, 'k, 'o) pin_event \<Rightarrow> 's \<times> 'p list" where
  "step \<equiv> pin_step acquire release fence unfence retire other"

definition accounted :: "'s \<times> 'p list \<Rightarrow> bool" where
  "accounted x \<longleftrightarrow> inv (fst x) \<and> active (fst x) = count_list (snd x)"

lemma count_list_drop: "count_list (remove1 p h) = (count_list h)(p := count_list h p - 1)"
  by (induction h) (auto simp: fun_eq_iff)

lemma step_accounted: "accounted x \<Longrightarrow> accounted (step x e)"
proof -
  assume a: "accounted x"
  obtain s h where x: "x = (s, h)" by fastforce
  have s: "inv s" "active s = count_list h" using a by (auto simp: accounted_def x)
  show ?thesis
  proof (cases e)
    case (Acquire p)
    show ?thesis
      using acquire_ok [OF s(1), of p] acquire_error [OF s(1), of p] s(2)
      by (auto simp: x Acquire accounted_def fun_eq_iff split: prod.split sum.split)
  next
    case (Release p)
    show ?thesis
    proof (cases "p \<in> set h")
      case True
      then have "0 < active s p" unfolding s(2) by (simp add: count_list_0_iff neq0_conv [symmetric] del: neq0_conv)
      then show ?thesis
        using release_ok [OF s(1)] True s(2) by (simp add: x Release accounted_def count_list_drop)
    qed (use s in \<open>simp add: x Release accounted_def\<close>)
  qed (use s fence_ok unfence_ok retire_ok other_ok in \<open>auto simp: x accounted_def\<close>)
qed

lemma run_accounted: "accounted x \<Longrightarrow> accounted (run_events step x es)"
  by (induction es arbitrary: x) (simp_all add: step_accounted)

lemma step_keeps_fence:
  assumes "accounted x" "\<not> lifts k e" "is_fenced (fst x) k"
  shows "is_fenced (fst (step x e)) k \<and> (retained (fst (step x e)) k \<longrightarrow> retained (fst x) k)"
proof -
  obtain s h where x: "x = (s, h)" by fastforce
  have s: "inv s" "is_fenced s k" using assms by (auto simp: accounted_def x)
  show ?thesis
  proof (cases e)
    case (Acquire p)
    then show ?thesis
      using acquire_ok [OF s(1), of p] acquire_error [OF s(1), of p] s(2)
      by (auto simp: x split: prod.split sum.split)
  next
    case (Release p)
    have "0 < active s p" if "p \<in> set h"
      using assms(1) that by (simp add: accounted_def x count_list_0_iff neq0_conv [symmetric] del: neq0_conv)
    then show ?thesis using release_ok [OF s(1), of p] s(2) by (simp add: x Release)
  next
    case (Fence ks)
    then show ?thesis using fence_ok [OF s(1), of ks k] s(2) by (simp add: x)
  next
    case (Unfence j)
    then show ?thesis using unfence_ok [OF s(1), of j k] s(2) assms(2) by (simp add: x)
  next
    case (Retire j)
    then show ?thesis using retire_ok [OF s(1), of j k] s(2) assms(2) by (simp add: x)
  next
    case (Other c)
    then show ?thesis using other_ok [OF s(1), of c k] s(2) by (simp add: x)
  qed
qed

lemma step_no_new_pin:
  assumes "accounted x" "is_fenced (fst x) k" "p \<in> set (snd (step x e))" "key p = k"
  shows "p \<in> set (snd x)"
proof -
  obtain s h where x: "x = (s, h)" by fastforce
  show ?thesis
  proof (cases e)
    case (Acquire q)
    have "\<not> is_fenced s (key q)" if "acquire q s = (Inr u, s')" for u s'
      using acquire_ok that assms(1) by (simp add: accounted_def x)
    then show ?thesis using assms by (auto simp: x Acquire split: prod.splits sum.splits)
  next
    case (Release q)
    then show ?thesis using assms(3) by (auto simp: x split: if_splits dest: in_set_remove1 [THEN iffD1, rotated] notin_set_remove1)
  qed (use assms in \<open>auto simp: x\<close>)
qed

lemma fenced_run:
  assumes "accounted x" "is_fenced (fst x) k" "list_all (\<lambda>e. \<not> lifts k e) es"
  shows "is_fenced (fst (run_events step x es)) k \<and> (retained (fst (run_events step x es)) k \<longrightarrow> retained (fst x) k)"
    and "p \<in> set (snd (run_events step x es)) \<Longrightarrow> key p = k \<Longrightarrow> p \<in> set (snd x)"
  using assms
proof (induction es arbitrary: x)
  case (Cons e es)
  { case 1 with Cons.IH(1) [of "step x e"] step_keeps_fence [of x k e] show ?case by (simp add: step_accounted) }
  { case 2 with Cons.IH(2) [of "step x e"] step_no_new_pin [of x k p e] step_keeps_fence [of x k e] show ?case
      by (simp add: step_accounted) }
qed simp_all

text \<open>
  Once a fenced set of keys has drained, no pin of these keys exists, and no background work
  holds them, until a fence is lifted.
\<close>

lemma drained_exclusive:
  assumes "accounted x" "run_events step (step x (Fence ks)) es = y" "drained ks (fst y)"
    and "k \<in> set ks" "list_all (\<lambda>e. \<not> lifts k e) (es @ es')"
  shows "is_fenced (fst (run_events step y es')) k \<and> \<not> retained (fst (run_events step y es')) k
    \<and> (\<forall>p \<in> set (snd (run_events step y es')). key p \<noteq> k)"
proof -
  have a0: "accounted (step x (Fence ks))" by (rule step_accounted [OF assms(1)])
  have f0: "is_fenced (fst (step x (Fence ks))) k"
    using assms(1, 4) fence_ok [of "fst x" ks k] by (cases x) (simp add: accounted_def)
  have y: "accounted y" "is_fenced (fst y) k"
    using run_accounted [OF a0, of es] fenced_run(1) [OF a0 f0, of es] assms(5) unfolding assms(2) by simp_all
  have "p \<notin> set (snd y)" if "key p = k" for p
  proof -
    have "active (fst y) p = 0" using drained_idle [of "fst y" ks p] y(1) assms(3, 4) that by (simp add: accounted_def)
    then show ?thesis using y(1) by (simp add: accounted_def count_list_0_iff)
  qed
  moreover have "\<not> retained (fst y) k" using drained_free [of "fst y" ks k] y(1) assms(3, 4) by (simp add: accounted_def)
  moreover have es': "list_all (\<lambda>e. \<not> lifts k e) es'" using assms(5) by simp
  ultimately show ?thesis using fenced_run(1) [OF y es'] fenced_run(2) [OF y es'] by blast
qed

end

section \<open>Version pins\<close>

record version_entry =
  ve_count :: nat
  ve_deployments :: "(nat \<times> nat) list"
  ve_fenced :: bool
  ve_retained :: bool
  ve_awaiting :: "nat list"

type_synonym version_entries = "(nat \<times> version_entry) list"
type_synonym version_pin = "nat \<times> nat option"

definition version_entry_default :: version_entry where
  "version_entry_default = \<lparr>ve_count = 0, ve_deployments = [], ve_fenced = False, ve_retained = False, ve_awaiting = []\<rparr>"

definition version_entry_of :: "version_entries \<Rightarrow> nat \<Rightarrow> version_entry" where
  "version_entry_of es v = (case map_of es v of None \<Rightarrow> version_entry_default | Some e \<Rightarrow> e)"

definition ve_idle :: "version_entry \<Rightarrow> bool" where
  "ve_idle e \<longleftrightarrow> ve_count e = 0 \<and> \<not> ve_retained e \<and> ve_awaiting e = []"

definition dep_count :: "(nat \<times> nat) list \<Rightarrow> nat \<Rightarrow> nat" where
  "dep_count ds d = (case map_of ds d of None \<Rightarrow> 0 | Some n \<Rightarrow> n)"

text \<open>
  The count is raised before the count of the deployment is checked, as in the code: were the
  latter to overflow, the former would stay raised without a pin value to lower it again.
\<close>

definition pin_inner :: "version_pin \<Rightarrow> version_entries \<Rightarrow> unit result \<times> version_entries" where
  "pin_inner p es =
     (let v = fst p; e = version_entry_of es v
      in if ve_fenced e then (Inl VersionNotReady, AList.update v e es)
         else case checked_add_u64 (ve_count e) 1 of
             None \<Rightarrow> (Inl Internal, AList.update v e es)
           | Some c \<Rightarrow> (case snd p of
               None \<Rightarrow> (Inr (), AList.update v (e\<lparr>ve_count := c\<rparr>) es)
             | Some d \<Rightarrow> (case checked_add_u64 (dep_count (ve_deployments e) d) 1 of
                 None \<Rightarrow> (Inl Internal, AList.update v (e\<lparr>ve_count := c,
                     ve_deployments := AList.update d (dep_count (ve_deployments e) d) (ve_deployments e)\<rparr>) es)
               | Some n \<Rightarrow> (Inr (), AList.update v (e\<lparr>ve_count := c,
                     ve_deployments := AList.update d n (ve_deployments e)\<rparr>) es))))"

definition active_deployments :: "version_entries \<Rightarrow> nat list" where
  "active_deployments es = concat (map (\<lambda>(v, e). map fst (ve_deployments e)) es)"

definition retain_until_restart :: "nat \<Rightarrow> version_entries \<Rightarrow> unit result \<times> version_entries" where
  "retain_until_restart v es =
     (let e = version_entry_of es v
      in if ve_fenced e then (Inl VersionNotReady, AList.update v e es)
         else (Inr (), AList.update v (e\<lparr>ve_retained := True\<rparr>) es))"

definition retain_until_drain :: "nat \<Rightarrow> nat \<Rightarrow> version_entries \<Rightarrow> unit result \<times> version_entries" where
  "retain_until_drain v r es =
     (let e = version_entry_of es v
      in if ve_fenced e then (Inl VersionNotReady, AList.update v e es)
         else (Inr (), AList.update v (e\<lparr>ve_awaiting := List.insert r (ve_awaiting e)\<rparr>) es))"

definition release_drained :: "nat \<Rightarrow> nat \<Rightarrow> version_entries \<Rightarrow> version_entries" where
  "release_drained v r es =
     (case map_of es v of
        None \<Rightarrow> es
      | Some e \<Rightarrow>
          (let e' = e\<lparr>ve_awaiting := removeAll r (ve_awaiting e)\<rparr>
           in if ve_idle e' \<and> \<not> ve_fenced e' then AList.delete v es else AList.update v e' es))"

definition clear_generation_retentions :: "version_entries \<Rightarrow> version_entries" where
  "clear_generation_retentions es =
     filter (\<lambda>(v, e). 0 < ve_count e \<or> ve_fenced e)
       (map (\<lambda>(v, e). (v, e\<lparr>ve_retained := False, ve_awaiting := []\<rparr>)) es)"

definition version_fence_many :: "nat list \<Rightarrow> version_entries \<Rightarrow> version_entries" where
  "version_fence_many vs es = fold (\<lambda>v es. AList.update v ((version_entry_of es v)\<lparr>ve_fenced := True\<rparr>) es) vs es"

definition versions_drained :: "nat list \<Rightarrow> version_entries \<Rightarrow> bool" where
  "versions_drained vs es = list_all (\<lambda>(v, e). ve_idle e) (filter (\<lambda>(v, e). v \<in> set vs) es)"

definition version_unfence :: "nat \<Rightarrow> version_entries \<Rightarrow> version_entries" where
  "version_unfence v es =
     (case map_of es v of
        None \<Rightarrow> es
      | Some e \<Rightarrow> if ve_idle e then AList.delete v es else AList.update v (e\<lparr>ve_fenced := False\<rparr>) es)"

definition version_retire_fence :: "nat \<Rightarrow> version_entries \<Rightarrow> version_entries" where
  "version_retire_fence v es =
     (case map_of es v of
        None \<Rightarrow> es
      | Some e \<Rightarrow> if ve_fenced e \<and> ve_idle e then AList.delete v es else es)"

definition version_count :: "nat \<Rightarrow> version_entries \<Rightarrow> nat" where
  "version_count v es =
     (case map_of es v of
        None \<Rightarrow> 0
      | Some e \<Rightarrow> ve_count e + (if ve_retained e then 1 else 0) + length (ve_awaiting e))"

definition version_pin_drop :: "version_pin \<Rightarrow> version_entries \<Rightarrow> version_entries" where
  "version_pin_drop p es =
     (case map_of es (fst p) of
        None \<Rightarrow> es
      | Some e \<Rightarrow>
          (let e1 = e\<lparr>ve_count := ve_count e - 1\<rparr>;
               e2 = (case snd p of
                       None \<Rightarrow> e1
                     | Some d \<Rightarrow> (case map_of (ve_deployments e1) d of
                         None \<Rightarrow> e1
                       | Some n \<Rightarrow> e1\<lparr>ve_deployments := (if n - 1 = 0 then AList.delete d (ve_deployments e1)
                                                  else AList.update d (n - 1) (ve_deployments e1))\<rparr>))
           in if ve_idle e2 \<and> \<not> ve_fenced e2 then AList.delete (fst p) es else AList.update (fst p) e2 es))"

datatype retention = Retain_Restart nat | Retain_Drain nat nat | Release_Drained nat nat | Clear_Generation

fun apply_retention :: "retention \<Rightarrow> version_entries \<Rightarrow> version_entries" where
  "apply_retention (Retain_Restart v) es = snd (retain_until_restart v es)"
| "apply_retention (Retain_Drain v r) es = snd (retain_until_drain v r es)"
| "apply_retention (Release_Drained v r) es = release_drained v r es"
| "apply_retention Clear_Generation es = clear_generation_retentions es"

section \<open>Resource pins\<close>

record resource_entry =
  re_count :: nat
  re_fenced :: bool

type_synonym resource_entries = "(nat \<times> resource_entry) list"

definition resource_entry_of :: "resource_entries \<Rightarrow> nat \<Rightarrow> resource_entry" where
  "resource_entry_of es r = (case map_of es r of None \<Rightarrow> \<lparr>re_count = 0, re_fenced = False\<rparr> | Some e \<Rightarrow> e)"

definition try_pin :: "nat \<Rightarrow> resource_entries \<Rightarrow> unit result \<times> resource_entries" where
  "try_pin r es =
     (let e = resource_entry_of es r
      in if re_fenced e then (Inl ResourceNotReady, AList.update r e es)
         else case checked_add_u64 (re_count e) 1 of
             None \<Rightarrow> (Inl Internal, AList.update r e es)
           | Some c \<Rightarrow> (Inr (), AList.update r (e\<lparr>re_count := c\<rparr>) es))"

definition resource_fence :: "nat \<Rightarrow> resource_entries \<Rightarrow> resource_entries" where
  "resource_fence r es = AList.update r ((resource_entry_of es r)\<lparr>re_fenced := True\<rparr>) es"

definition resource_drained :: "nat \<Rightarrow> resource_entries \<Rightarrow> bool" where
  "resource_drained r es = (case map_of es r of None \<Rightarrow> True | Some e \<Rightarrow> re_count e = 0)"

definition resource_unfence :: "nat \<Rightarrow> resource_entries \<Rightarrow> resource_entries" where
  "resource_unfence r es =
     (case map_of es r of
        None \<Rightarrow> es
      | Some e \<Rightarrow> if re_count e = 0 then AList.delete r es else AList.update r (e\<lparr>re_fenced := False\<rparr>) es)"

definition resource_retire_fence :: "nat \<Rightarrow> resource_entries \<Rightarrow> resource_entries" where
  "resource_retire_fence r es =
     (case map_of es r of
        None \<Rightarrow> es
      | Some e \<Rightarrow> if re_fenced e \<and> re_count e = 0 then AList.delete r es else es)"

definition resource_count :: "nat \<Rightarrow> resource_entries \<Rightarrow> nat" where
  "resource_count r es = (case map_of es r of None \<Rightarrow> 0 | Some e \<Rightarrow> re_count e)"

definition resource_pin_drop :: "nat \<Rightarrow> resource_entries \<Rightarrow> resource_entries" where
  "resource_pin_drop r es =
     (case map_of es r of
        None \<Rightarrow> es
      | Some e \<Rightarrow>
          (let e' = e\<lparr>re_count := re_count e - 1\<rparr>
           in if re_count e' = 0 \<and> \<not> re_fenced e' then AList.delete r es else AList.update r e' es))"

section \<open>The registries meet the contract\<close>

definition version_wf :: "version_entry \<Rightarrow> bool" where
  "version_wf e \<longleftrightarrow> distinct (map fst (ve_deployments e)) \<and> sum_list (map snd (ve_deployments e)) \<le> ve_count e"

definition version_inv :: "version_entries \<Rightarrow> bool" where
  "version_inv es \<longleftrightarrow> distinct (map fst es) \<and> (\<forall>v. version_wf (version_entry_of es v))"

text \<open>The pins of a version that carry no deployment are those the deployments do not account for.\<close>

definition entry_active :: "version_entry \<Rightarrow> nat option \<Rightarrow> nat" where
  "entry_active e d = (case d of None \<Rightarrow> ve_count e - sum_list (map snd (ve_deployments e))
                             | Some d \<Rightarrow> dep_count (ve_deployments e) d)"

definition version_active :: "version_entries \<Rightarrow> version_pin \<Rightarrow> nat" where
  "version_active es p = entry_active (version_entry_of es (fst p)) (snd p)"

definition version_fenced :: "version_entries \<Rightarrow> nat \<Rightarrow> bool" where
  "version_fenced es v = ve_fenced (version_entry_of es v)"

definition version_retained :: "version_entries \<Rightarrow> nat \<Rightarrow> bool" where
  "version_retained es v = (let e = version_entry_of es v in ve_retained e \<or> ve_awaiting e \<noteq> [])"

definition version_step where
  "version_step = pin_step pin_inner version_pin_drop version_fence_many version_unfence version_retire_fence apply_retention"

definition resource_inv :: "resource_entries \<Rightarrow> bool" where
  "resource_inv es \<longleftrightarrow> distinct (map fst es)"

definition resource_fenced :: "resource_entries \<Rightarrow> nat \<Rightarrow> bool" where
  "resource_fenced es r = re_fenced (resource_entry_of es r)"

text \<open>A resource has no holds besides its pins.\<close>

definition resource_retained :: "resource_entries \<Rightarrow> nat \<Rightarrow> bool" where
  "resource_retained es r = False"

definition resources_drained :: "nat list \<Rightarrow> resource_entries \<Rightarrow> bool" where
  "resources_drained rs es = list_all (\<lambda>r. resource_drained r es) rs"

definition resource_step where
  "resource_step = pin_step try_pin resource_pin_drop (fold resource_fence) resource_unfence resource_retire_fence (\<lambda>_ :: unit. \<lambda>es. es)"

lemma version_entry_of_update [simp]:
  "version_entry_of (AList.update v e es) = (version_entry_of es)(v := e)"
  by (auto simp: version_entry_of_def fun_eq_iff AList.update_conv)

lemma version_entry_of_delete [simp]:
  "version_entry_of (AList.delete v es) = (version_entry_of es)(v := version_entry_default)"
  by (auto simp: version_entry_of_def fun_eq_iff AList.delete_conv)

lemma version_entry_of_Some: "map_of es v = Some e \<Longrightarrow> version_entry_of es v = e"
  by (simp add: version_entry_of_def)

lemma resource_entry_of_update [simp]:
  "resource_entry_of (AList.update v e es) = (resource_entry_of es)(v := e)"
  by (auto simp: resource_entry_of_def fun_eq_iff AList.update_conv)

lemma resource_entry_of_delete [simp]:
  "resource_entry_of (AList.delete v es) = (resource_entry_of es)(v := \<lparr>re_count = 0, re_fenced = False\<rparr>)"
  by (auto simp: resource_entry_of_def fun_eq_iff AList.delete_conv)

lemma resource_count_eq: "resource_count r es = re_count (resource_entry_of es r)"
  by (simp add: resource_count_def resource_entry_of_def split: option.split)

lemma dep_count_update [simp]: "dep_count (AList.update d n ds) = (dep_count ds)(d := n)"
  by (auto simp: dep_count_def fun_eq_iff AList.update_conv)

lemma dep_count_delete [simp]: "dep_count (AList.delete d ds) = (dep_count ds)(d := 0)"
  by (auto simp: dep_count_def fun_eq_iff AList.delete_conv)

lemma dep_count_le: "dep_count ds d \<le> sum_list (map snd ds)"
  by (induction ds) (auto simp: dep_count_def split: option.splits)

lemma dep_sum_update:
  "sum_list (map snd (AList.update d n ds)) + dep_count ds d = sum_list (map snd ds) + n"
  by (induction ds) (auto simp: dep_count_def)

lemma dep_sum_delete:
  "distinct (map fst ds) \<Longrightarrow> sum_list (map snd (AList.delete d ds)) + dep_count ds d = sum_list (map snd ds)"
  by (induction ds) (auto simp: dep_count_def AList.delete_eq dest!: map_of_eq_None_iff [THEN iffD2])

lemma version_inv_update: "version_inv es \<Longrightarrow> version_wf e \<Longrightarrow> version_inv (AList.update v e es)"
  by (simp add: version_inv_def distinct_update)

lemma version_wf_default [simp]: "version_wf version_entry_default"
  by (simp add: version_wf_def version_entry_default_def)

lemma version_inv_delete: "version_inv es \<Longrightarrow> version_inv (AList.delete v es)"
  by (simp add: version_inv_def distinct_delete)

lemma version_views_update:
  "version_active (AList.update v e es) (w, d) = (if w = v then entry_active e d else version_active es (w, d))"
  "version_fenced (AList.update v e es) w = (if w = v then ve_fenced e else version_fenced es w)"
  "version_retained (AList.update v e es) w = (if w = v then ve_retained e \<or> ve_awaiting e \<noteq> [] else version_retained es w)"
  by (simp_all add: version_active_def version_fenced_def version_retained_def)

lemma entry_active_default [simp]: "entry_active version_entry_default d = 0"
  by (simp add: entry_active_def version_entry_default_def dep_count_def split: option.split)

lemma version_views_delete:
  "version_active (AList.delete v es) (w, d) = (if w = v then 0 else version_active es (w, d))"
  "version_fenced (AList.delete v es) w = (w \<noteq> v \<and> version_fenced es w)"
  "version_retained (AList.delete v es) w = (w \<noteq> v \<and> version_retained es w)"
  by (simp_all add: version_active_def version_fenced_def version_retained_def)
    (simp_all add: version_entry_default_def)

lemma entry_active_le: "version_wf e \<Longrightarrow> entry_active e d \<le> ve_count e"
  using dep_count_le [of "ve_deployments e"]
  by (auto simp: entry_active_def version_wf_def intro: order_trans split: option.split)

lemma version_entry_wf: "version_inv es \<Longrightarrow> version_wf (version_entry_of es v)"
  by (simp add: version_inv_def)

lemma entry_pin:
  assumes "version_wf e" "d = None \<Longrightarrow> ds = ve_deployments e"
    and "\<And>k. d = Some k \<Longrightarrow> ds = AList.update k (dep_count (ve_deployments e) k + 1) (ve_deployments e)"
  shows "version_wf (e\<lparr>ve_count := ve_count e + 1, ve_deployments := ds\<rparr>)"
    and "entry_active (e\<lparr>ve_count := ve_count e + 1, ve_deployments := ds\<rparr>) = (entry_active e)(d := entry_active e d + 1)"
proof -
  have "version_wf (e\<lparr>ve_count := ve_count e + 1, ve_deployments := ds\<rparr>)
      \<and> entry_active (e\<lparr>ve_count := ve_count e + 1, ve_deployments := ds\<rparr>) = (entry_active e)(d := entry_active e d + 1)"
  proof (cases d)
    case None
    then show ?thesis using assms(1, 2) by (auto simp: version_wf_def entry_active_def fun_eq_iff split: option.split)
  next
    case (Some k)
    have ds: "ds = AList.update k (dep_count (ve_deployments e) k + 1) (ve_deployments e)" by (rule assms(3) [OF Some])
    have sum: "sum_list (map snd ds) = sum_list (map snd (ve_deployments e)) + 1"
      using dep_sum_update [of k "dep_count (ve_deployments e) k + 1" "ve_deployments e"] unfolding ds by simp
    show ?thesis
      using assms(1) sum by (auto simp: version_wf_def entry_active_def Some fun_eq_iff ds distinct_update split: option.split)
  qed
  then show "version_wf (e\<lparr>ve_count := ve_count e + 1, ve_deployments := ds\<rparr>)"
    and "entry_active (e\<lparr>ve_count := ve_count e + 1, ve_deployments := ds\<rparr>) = (entry_active e)(d := entry_active e d + 1)"
    by auto
qed

lemma pin_inner_Inr:
  assumes "pin_inner p es = (Inr u, es')"
  obtains ds where "\<not> version_fenced es (fst p)"
    "es' = AList.update (fst p) ((version_entry_of es (fst p))\<lparr>ve_count := ve_count (version_entry_of es (fst p)) + 1, ve_deployments := ds\<rparr>) es"
    "snd p = None \<Longrightarrow> ds = ve_deployments (version_entry_of es (fst p))"
    "\<And>k. snd p = Some k \<Longrightarrow> ds = AList.update k (dep_count (ve_deployments (version_entry_of es (fst p))) k + 1)
        (ve_deployments (version_entry_of es (fst p)))"
proof -
  let ?e = "version_entry_of es (fst p)"
  have same: "e\<lparr>ve_count := c\<rparr> = e\<lparr>ve_count := c, ve_deployments := ve_deployments e\<rparr>" for e :: version_entry and c
    by simp
  show thesis
  proof (cases "snd p")
    case None
    have "es' = AList.update (fst p) (?e\<lparr>ve_count := ve_count ?e + 1\<rparr>) es" "\<not> version_fenced es (fst p)"
      using assms by (auto simp: pin_inner_def Let_def None version_fenced_def rust_arith split: if_splits option.splits)
    then show thesis using that [of "ve_deployments ?e"] None same by simp
  next
    case (Some k)
    then show thesis
      using assms that by (auto simp: pin_inner_def Let_def version_fenced_def rust_arith split: if_splits option.splits)
  qed
qed

lemma version_acquire_ok:
  assumes "version_inv es" "pin_inner p es = (Inr u, es')"
  shows "version_inv es' \<and> \<not> version_fenced es (fst p) \<and> version_active es' = (version_active es)(p := version_active es p + 1)
    \<and> version_fenced es' = version_fenced es \<and> version_retained es' = version_retained es"
proof -
  let ?e = "version_entry_of es (fst p)"
  obtain ds where d: "\<not> version_fenced es (fst p)"
    "es' = AList.update (fst p) (?e\<lparr>ve_count := ve_count ?e + 1, ve_deployments := ds\<rparr>) es"
    "snd p = None \<Longrightarrow> ds = ve_deployments ?e"
    "\<And>k. snd p = Some k \<Longrightarrow> ds = AList.update k (dep_count (ve_deployments ?e) k + 1) (ve_deployments ?e)"
    using pin_inner_Inr [OF assms(2)] by metis
  note pin = entry_pin [OF version_entry_wf [OF assms(1)] d(3) d(4)]
  have "version_active es' q = ((version_active es)(p := version_active es p + 1)) q" for q
    using pin(2) by (cases q; cases p) (auto simp: d(2) version_views_update(1) version_active_def)
  then show ?thesis
    using version_inv_update [OF assms(1) pin(1)] d(1)
    by (auto simp: d(2) fun_eq_iff version_views_update(2, 3)) (auto simp: version_fenced_def version_retained_def)
qed

lemma version_acquire_error:
  assumes "version_inv es" "pin_inner p es = (Inl c, es')"
  shows "version_inv es' \<and> version_active es' = version_active es
    \<and> version_fenced es' = version_fenced es \<and> version_retained es' = version_retained es"
proof -
  let ?e = "version_entry_of es (fst p)"
  have "dep_count (ve_deployments ?e) d + 1 \<le> u64_max" if "ve_count ?e + 1 \<le> u64_max" for d
    using dep_count_le [of "ve_deployments ?e" d] version_entry_wf [OF assms(1), of "fst p"] that by (simp add: version_wf_def)
  then have "es' = AList.update (fst p) ?e es"
    using assms(2) by (auto simp: pin_inner_def Let_def checked_add_u64_def split: if_splits option.splits)
  then show ?thesis
    using version_inv_update [OF assms(1) version_entry_wf [OF assms(1)]]
    by (simp add: version_active_def version_fenced_def version_retained_def fun_eq_iff)
qed

text \<open>Dropping a pin, at the level of one entry.\<close>

definition entry_unpin :: "nat option \<Rightarrow> version_entry \<Rightarrow> version_entry" where
  "entry_unpin d e = (case d of None \<Rightarrow> e\<lparr>ve_count := ve_count e - 1\<rparr>
     | Some k \<Rightarrow> (case map_of (ve_deployments e) k of None \<Rightarrow> e\<lparr>ve_count := ve_count e - 1\<rparr>
         | Some n \<Rightarrow> e\<lparr>ve_count := ve_count e - 1, ve_deployments :=
              (if n - 1 = 0 then AList.delete k (ve_deployments e) else AList.update k (n - 1) (ve_deployments e))\<rparr>))"

lemma entry_unpin_ok:
  assumes "version_wf e" "0 < entry_active e d"
  shows "version_wf (entry_unpin d e) \<and> entry_active (entry_unpin d e) = (entry_active e)(d := entry_active e d - 1)"
proof (cases d)
  case None
  then show ?thesis using assms by (auto simp: version_wf_def entry_active_def entry_unpin_def fun_eq_iff split: option.split)
next
  case (Some k)
  obtain n where n: "map_of (ve_deployments e) k = Some n" "0 < n"
    using assms(2) by (auto simp: Some entry_active_def dep_count_def split: option.splits)
  define ds where "ds = (if n - 1 = 0 then AList.delete k (ve_deployments e) else AList.update k (n - 1) (ve_deployments e))"
  have dist: "distinct (map fst (ve_deployments e))" using assms(1) by (simp add: version_wf_def)
  have c: "dep_count (ve_deployments e) k = n" by (simp add: dep_count_def n(1))
  have sum: "sum_list (map snd ds) + 1 = sum_list (map snd (ve_deployments e))"
    using dep_sum_update [of k "n - 1" "ve_deployments e"] dep_sum_delete [OF dist, of k] c n(2) unfolding ds_def by auto
  have ds: "dep_count ds = (dep_count (ve_deployments e))(k := n - 1)" "distinct (map fst ds)"
    unfolding ds_def using dist by (auto simp: distinct_update distinct_delete)
  have u: "entry_unpin d e = e\<lparr>ve_count := ve_count e - 1, ve_deployments := ds\<rparr>"
    by (simp add: entry_unpin_def Some n(1) ds_def)
  show ?thesis
    unfolding u using assms(1) sum ds c by (auto simp: Some version_wf_def entry_active_def fun_eq_iff split: option.split)
qed

lemma entry_unpin_flags:
  "ve_fenced (entry_unpin d e) = ve_fenced e" "ve_retained (entry_unpin d e) = ve_retained e"
  "ve_awaiting (entry_unpin d e) = ve_awaiting e" "ve_count (entry_unpin d e) = ve_count e - 1"
  by (simp_all add: entry_unpin_def split: option.split)

lemma version_pin_drop_eq:
  "version_pin_drop p es = (case map_of es (fst p) of None \<Rightarrow> es
     | Some e \<Rightarrow> let e' = entry_unpin (snd p) e
         in if ve_idle e' \<and> \<not> ve_fenced e' then AList.delete (fst p) es else AList.update (fst p) e' es)"
  by (auto simp: version_pin_drop_def entry_unpin_def Let_def split: option.split)

text \<open>An entry that says nothing is removed; the views of the registry do not see the difference.\<close>

lemma version_store_or_remove:
  assumes "version_inv es" "version_wf e"
    and "es' = (if ve_idle e \<and> \<not> ve_fenced e then AList.delete v es else AList.update v e es)"
  shows "version_inv es'"
    and "version_active es' (w, d) = (if w = v then entry_active e d else version_active es (w, d))"
    and "version_fenced es' w = (if w = v then ve_fenced e else version_fenced es w)"
    and "version_retained es' w = (if w = v then ve_retained e \<or> ve_awaiting e \<noteq> [] else version_retained es w)"
  using assms entry_active_le [OF assms(2), of d]
  by (auto simp: version_views_update version_views_delete version_inv_update version_inv_delete ve_idle_def)

lemma version_views_at:
  "map_of es v = Some e \<Longrightarrow> version_active es (v, d) = entry_active e d"
  "map_of es v = Some e \<Longrightarrow> version_fenced es v = ve_fenced e"
  "map_of es v = Some e \<Longrightarrow> version_retained es v = (ve_retained e \<or> ve_awaiting e \<noteq> [])"
  by (simp_all add: version_active_def version_fenced_def version_retained_def version_entry_of_def)

lemma version_wf_at: "version_inv es \<Longrightarrow> map_of es v = Some e \<Longrightarrow> version_wf e"
  using version_entry_wf [of es v] by (simp add: version_entry_of_def)

lemma version_release_ok:
  assumes "version_inv es" "0 < version_active es p"
  shows "version_inv (version_pin_drop p es)
    \<and> version_active (version_pin_drop p es) = (version_active es)(p := version_active es p - 1)
    \<and> version_fenced (version_pin_drop p es) = version_fenced es
    \<and> version_retained (version_pin_drop p es) = version_retained es"
proof -
  obtain v d where p: "p = (v, d)" by fastforce
  have "\<exists>e. map_of es v = Some e"
    using assms(2) by (cases "map_of es v") (auto simp: p version_active_def version_entry_of_def)
  then obtain e where e: "map_of es v = Some e" ..
  have u: "version_wf (entry_unpin d e)" "entry_active (entry_unpin d e) = (entry_active e)(d := entry_active e d - 1)"
    using entry_unpin_ok [OF version_wf_at [OF assms(1) e], of d] assms(2) version_views_at(1) [OF e] by (simp_all add: p)
  have "version_pin_drop p es = (if ve_idle (entry_unpin d e) \<and> \<not> ve_fenced (entry_unpin d e)
      then AList.delete v es else AList.update v (entry_unpin d e) es)"
    by (simp add: version_pin_drop_eq p e Let_def)
  note drop = version_store_or_remove [OF assms(1) u(1) this]
  have "version_active (version_pin_drop p es) q = ((version_active es)(p := version_active es p - 1)) q" for q
    by (cases q) (auto simp: drop(2) [unfolded p] u(2) p version_views_at(1) [OF e])
  then show ?thesis
    using drop(1) by (auto simp: fun_eq_iff drop(3, 4) entry_unpin_flags version_views_at(2, 3) [OF e])
qed

lemma version_fence_ok:
  "version_inv es \<Longrightarrow> version_inv (version_fence_many vs es) \<and> version_active (version_fence_many vs es) = version_active es
    \<and> version_fenced (version_fence_many vs es) v = (v \<in> set vs \<or> version_fenced es v)
    \<and> version_retained (version_fence_many vs es) = version_retained es"
proof (induction vs arbitrary: es)
  case (Cons w vs)
  let ?e = "(version_entry_of es w)\<lparr>ve_fenced := True\<rparr>"
  have "version_wf ?e" using version_entry_wf [OF Cons.prems, of w] by (simp add: version_wf_def)
  from version_inv_update [OF Cons.prems this, of w] Cons.IH [of "AList.update w ?e es"] show ?case
    by (auto simp: version_fence_many_def fun_eq_iff version_views_update)
      (auto simp: version_active_def version_retained_def entry_active_def split: option.splits)
qed (simp add: version_fence_many_def)

lemma version_unfence_ok:
  assumes "version_inv es"
  shows "version_inv (version_unfence v es) \<and> version_active (version_unfence v es) = version_active es
    \<and> (w \<noteq> v \<longrightarrow> version_fenced (version_unfence v es) w = version_fenced es w)
    \<and> version_retained (version_unfence v es) = version_retained es"
proof (cases "map_of es v")
  case (Some e)
  let ?e = "e\<lparr>ve_fenced := False\<rparr>"
  have wf: "version_wf ?e" using version_wf_at [OF assms Some] by (simp add: version_wf_def)
  have "version_unfence v es = (if ve_idle ?e \<and> \<not> ve_fenced ?e then AList.delete v es else AList.update v ?e es)"
    by (simp add: version_unfence_def Some ve_idle_def)
  note un = version_store_or_remove [OF assms wf this]
  have "entry_active ?e = entry_active e" by (simp add: entry_active_def fun_eq_iff split: option.split)
  then have "version_active (version_unfence v es) q = version_active es q" for q
    by (cases q) (simp add: un(2) version_views_at(1) [OF Some])
  then show ?thesis using un(1) by (auto simp: fun_eq_iff un(3, 4) version_views_at(3) [OF Some])
qed (simp add: version_unfence_def assms)

lemma version_retire_ok:
  assumes "version_inv es"
  shows "version_inv (version_retire_fence v es) \<and> version_active (version_retire_fence v es) = version_active es
    \<and> (w \<noteq> v \<longrightarrow> version_fenced (version_retire_fence v es) w = version_fenced es w)
    \<and> version_retained (version_retire_fence v es) = version_retained es"
proof (cases "\<exists>e. map_of es v = Some e \<and> ve_fenced e \<and> ve_idle e")
  case True
  then obtain e where e: "map_of es v = Some e" "ve_fenced e" "ve_idle e" by blast
  have "entry_active e d = 0" for d
    using entry_active_le [OF version_wf_at [OF assms e(1)], of d] e(3) by (simp add: ve_idle_def)
  then have "version_active (AList.delete v es) q = version_active es q" for q
    by (cases q) (simp add: version_views_delete(1) version_views_at(1) [OF e(1)])
  then show ?thesis
    using version_inv_delete [OF assms, of v] e
    by (auto simp: version_retire_fence_def version_views_delete(2, 3) fun_eq_iff ve_idle_def version_views_at(3) [OF e(1)])
qed (use assms in \<open>auto simp: version_retire_fence_def split: option.split\<close>)

lemma clear_generation_entry:
  assumes "distinct (map fst es)"
  shows "version_entry_of (clear_generation_retentions es) v
    = (let e = version_entry_of es v
       in if 0 < ve_count e \<or> ve_fenced e then e\<lparr>ve_retained := False, ve_awaiting := []\<rparr> else version_entry_default)"
proof -
  have "map_of (clear_generation_retentions es) v
      = (case map_of es v of None \<Rightarrow> None | Some e \<Rightarrow>
           if 0 < ve_count e \<or> ve_fenced e then Some (e\<lparr>ve_retained := False, ve_awaiting := []\<rparr>) else None)"
    using assms
  proof (induction es)
    case (Cons x es)
    obtain w e where x: "x = (w, e)" by fastforce
    have "map_of es w = None" using Cons.prems by (simp add: x map_of_eq_None_iff)
    then show ?case using Cons by (auto simp: clear_generation_retentions_def x split: option.splits)
  qed (simp add: clear_generation_retentions_def)
  then show ?thesis by (auto simp: version_entry_of_def version_entry_default_def Let_def split: option.split)
qed

lemma version_wf_cleared: "version_wf (e\<lparr>ve_retained := b, ve_awaiting := rs\<rparr>) = version_wf e"
  by (simp add: version_wf_def)

lemma clear_generation_ok:
  assumes "version_inv es"
  shows "version_inv (clear_generation_retentions es)
    \<and> version_active (clear_generation_retentions es) = version_active es
    \<and> version_fenced (clear_generation_retentions es) = version_fenced es
    \<and> \<not> version_retained (clear_generation_retentions es) v"
proof -
  have dist: "distinct (map fst es)" using assms by (simp add: version_inv_def)
  have "distinct (map fst (clear_generation_retentions es))"
    using dist by (simp add: clear_generation_retentions_def distinct_map_filter comp_def case_prod_unfold)
  moreover have "version_wf (version_entry_of (clear_generation_retentions es) w)" for w
    using version_entry_wf [OF assms, of w] by (simp add: clear_generation_entry [OF dist] Let_def version_wf_cleared)
  moreover have "version_active (clear_generation_retentions es) q = version_active es q" for q
    using entry_active_le [OF version_entry_wf [OF assms, of "fst q"], of "snd q"]
    by (auto simp: version_active_def clear_generation_entry [OF dist] Let_def)
      (simp_all add: entry_active_def split: option.splits)
  ultimately show ?thesis
    by (auto simp: version_inv_def fun_eq_iff version_fenced_def version_retained_def clear_generation_entry [OF dist] Let_def
        version_entry_default_def)
qed

lemma release_drained_ok:
  assumes "version_inv es"
  shows "version_inv (release_drained v r es) \<and> version_active (release_drained v r es) = version_active es
    \<and> version_fenced (release_drained v r es) = version_fenced es
    \<and> (version_retained (release_drained v r es) w \<longrightarrow> version_retained es w)"
proof (cases "map_of es v")
  case (Some e)
  let ?e = "e\<lparr>ve_awaiting := removeAll r (ve_awaiting e)\<rparr>"
  have wf: "version_wf ?e" using version_wf_at [OF assms Some] by (simp add: version_wf_def)
  have "release_drained v r es = (if ve_idle ?e \<and> \<not> ve_fenced ?e then AList.delete v es else AList.update v ?e es)"
    by (simp add: release_drained_def Some Let_def)
  note rel = version_store_or_remove [OF assms wf this]
  have "entry_active ?e = entry_active e" by (simp add: entry_active_def fun_eq_iff split: option.split)
  then have "version_active (release_drained v r es) q = version_active es q" for q
    by (cases q) (simp add: rel(2) version_views_at(1) [OF Some])
  then show ?thesis using rel(1) by (auto simp: fun_eq_iff rel(3, 4) version_views_at(2, 3) [OF Some])
qed (simp add: release_drained_def assms)

lemma retain_ok:
  assumes "version_inv es" "es' = AList.update v e es" "ve_count e = ve_count (version_entry_of es v)"
    "ve_deployments e = ve_deployments (version_entry_of es v)" "ve_fenced e = version_fenced es v"
    "version_fenced es v \<Longrightarrow> e = version_entry_of es v"
  shows "version_inv es' \<and> version_active es' = version_active es \<and> version_fenced es' = version_fenced es
    \<and> (version_fenced es w \<longrightarrow> version_retained es' w \<longrightarrow> version_retained es w)"
proof -
  have "version_wf e" using version_entry_wf [OF assms(1), of v] assms(3, 4) by (simp add: version_wf_def)
  moreover have "version_active es' q = version_active es q" for q
    using assms(3, 4) by (cases q) (simp add: assms(2) version_views_update version_active_def entry_active_def split: option.split)
  ultimately show ?thesis
    using version_inv_update [OF assms(1), of e v] assms(5, 6)
    by (auto simp: assms(2) fun_eq_iff version_views_update) (auto simp: version_retained_def Let_def)
qed

lemma apply_retention_ok:
  assumes "version_inv es"
  shows "version_inv (apply_retention c es) \<and> version_active (apply_retention c es) = version_active es
    \<and> version_fenced (apply_retention c es) = version_fenced es
    \<and> (version_fenced es w \<longrightarrow> version_retained (apply_retention c es) w \<longrightarrow> version_retained es w)"
proof (cases c)
  case (Retain_Restart v)
  show ?thesis
    by (rule retain_ok [OF assms, where v = v and e = "if version_fenced es v then version_entry_of es v
          else (version_entry_of es v)\<lparr>ve_retained := True\<rparr>"])
      (simp_all add: Retain_Restart retain_until_restart_def version_fenced_def Let_def)
next
  case (Retain_Drain v r)
  show ?thesis
    by (rule retain_ok [OF assms, where v = v and e = "if version_fenced es v then version_entry_of es v
          else (version_entry_of es v)\<lparr>ve_awaiting := List.insert r (ve_awaiting (version_entry_of es v))\<rparr>"])
      (simp_all add: Retain_Drain retain_until_drain_def version_fenced_def Let_def)
next
  case (Release_Drained v r)
  then show ?thesis using release_drained_ok [OF assms, of v r w] by simp
next
  case Clear_Generation
  then show ?thesis using clear_generation_ok [OF assms, of w] by simp
qed

lemma versions_drained_idle:
  assumes "version_inv es" "versions_drained vs es" "v \<in> set vs"
  shows "ve_idle (version_entry_of es v)"
proof (cases "map_of es v")
  case (Some e)
  then have "(v, e) \<in> set es" by (rule map_of_SomeD)
  then show ?thesis using assms(2, 3) Some by (auto simp: versions_drained_def list_all_iff version_entry_of_def)
qed (simp add: version_entry_of_def ve_idle_def version_entry_default_def)

lemma version_idle_views:
  "version_inv es \<Longrightarrow> ve_idle (version_entry_of es (fst p)) \<Longrightarrow> version_active es p = 0"
  "ve_idle (version_entry_of es v) \<Longrightarrow> \<not> version_retained es v"
  using entry_active_le [OF version_entry_wf, of es "fst p" "snd p"]
  by (simp_all add: version_active_def version_retained_def ve_idle_def)

interpretation version_pins: pin_registry pin_inner version_pin_drop version_fence_many version_unfence version_retire_fence
  apply_retention fst version_active version_fenced versions_drained version_retained version_inv
proof unfold_locales
  show "version_active s p = 0" if "version_inv s" "versions_drained ks s" "fst p \<in> set ks" for s ks p
    using version_idle_views(1) [OF that(1) versions_drained_idle [OF that]] .
  show "\<not> version_retained s k" if "version_inv s" "versions_drained ks s" "k \<in> set ks" for s ks k
    using version_idle_views(2) [OF versions_drained_idle [OF that]] .
qed (rule version_acquire_ok version_acquire_error version_release_ok version_fence_ok version_unfence_ok version_retire_ok
    apply_retention_ok; assumption)+

lemma resource_acquire_ok:
  assumes "resource_inv es" "try_pin r es = (Inr u, es')"
  shows "resource_inv es' \<and> \<not> resource_fenced es r
    \<and> (\<lambda>k. resource_count k es') = (\<lambda>k. resource_count k es)(r := resource_count r es + 1)
    \<and> resource_fenced es' = resource_fenced es \<and> resource_retained es' = resource_retained es"
  using assms by (auto simp: try_pin_def Let_def resource_inv_def resource_fenced_def resource_count_eq resource_retained_def fun_eq_iff
      distinct_update rust_arith split: if_splits option.splits)

lemma resource_acquire_error:
  assumes "resource_inv es" "try_pin r es = (Inl c, es')"
  shows "resource_inv es' \<and> (\<lambda>k. resource_count k es') = (\<lambda>k. resource_count k es)
    \<and> resource_fenced es' = resource_fenced es \<and> resource_retained es' = resource_retained es"
  using assms by (auto simp: try_pin_def Let_def resource_inv_def resource_fenced_def resource_count_eq resource_retained_def fun_eq_iff
      distinct_update split: if_splits option.splits)

lemma resource_release_ok:
  assumes "resource_inv es"
  shows "resource_inv (resource_pin_drop r es)
    \<and> (\<lambda>k. resource_count k (resource_pin_drop r es)) = (\<lambda>k. resource_count k es)(r := resource_count r es - 1)
    \<and> resource_fenced (resource_pin_drop r es) = resource_fenced es \<and> resource_retained (resource_pin_drop r es) = resource_retained es"
  using assms by (auto simp: resource_pin_drop_def Let_def resource_inv_def resource_fenced_def resource_count_eq resource_retained_def
      resource_entry_of_def fun_eq_iff distinct_update distinct_delete AList.update_conv AList.delete_conv split: option.splits)

lemma resource_fence_ok:
  "resource_inv es \<Longrightarrow> resource_inv (fold resource_fence rs es)
    \<and> (\<lambda>k. resource_count k (fold resource_fence rs es)) = (\<lambda>k. resource_count k es)
    \<and> resource_fenced (fold resource_fence rs es) k = (k \<in> set rs \<or> resource_fenced es k) \<and> resource_retained (fold resource_fence rs es) = resource_retained es"
proof (induction rs arbitrary: es)
  case (Cons r rs)
  have "resource_inv (resource_fence r es)" using Cons.prems by (simp add: resource_inv_def resource_fence_def distinct_update)
  from Cons.IH [OF this] show ?case
    by (auto simp: resource_fence_def resource_fenced_def resource_count_eq resource_retained_def fun_eq_iff)
qed simp

lemma resource_unfence_ok:
  "resource_inv es \<Longrightarrow> resource_inv (resource_unfence r es)
    \<and> (\<lambda>k. resource_count k (resource_unfence r es)) = (\<lambda>k. resource_count k es)
    \<and> (j \<noteq> r \<longrightarrow> resource_fenced (resource_unfence r es) j = resource_fenced es j) \<and> resource_retained (resource_unfence r es) = resource_retained es"
  by (auto simp: resource_unfence_def resource_inv_def resource_fenced_def resource_count_eq resource_retained_def resource_entry_of_def
      fun_eq_iff distinct_update distinct_delete AList.update_conv AList.delete_conv split: option.splits)

lemma resource_retire_ok:
  "resource_inv es \<Longrightarrow> resource_inv (resource_retire_fence r es)
    \<and> (\<lambda>k. resource_count k (resource_retire_fence r es)) = (\<lambda>k. resource_count k es)
    \<and> (j \<noteq> r \<longrightarrow> resource_fenced (resource_retire_fence r es) j = resource_fenced es j) \<and> resource_retained (resource_retire_fence r es) = resource_retained es"
  by (auto simp: resource_retire_fence_def resource_inv_def resource_fenced_def resource_count_eq resource_retained_def resource_entry_of_def
      fun_eq_iff distinct_delete AList.delete_conv split: option.splits)

interpretation resource_pins: pin_registry try_pin resource_pin_drop "fold resource_fence" resource_unfence resource_retire_fence
  "\<lambda>_ :: unit. \<lambda>es. es" "\<lambda>r. r" "\<lambda>es r. resource_count r es" resource_fenced resources_drained resource_retained resource_inv
  by unfold_locales
    ((rule resource_acquire_ok resource_acquire_error resource_release_ok resource_fence_ok resource_unfence_ok
        resource_retire_ok; assumption)
     | auto simp: resource_retained_def resources_drained_def list_all_iff resource_drained_def resource_count_def split: option.splits)+

section \<open>Deletion is exclusive\<close>

lemma version_fenced_refuses:
  "version_fenced es v \<Longrightarrow> fst (pin_inner (v, d) es) = Inl VersionNotReady"
  "version_fenced es v \<Longrightarrow> fst (retain_until_restart v es) = Inl VersionNotReady"
  "version_fenced es v \<Longrightarrow> fst (retain_until_drain v r es) = Inl VersionNotReady"
  by (simp_all add: version_fenced_def pin_inner_def retain_until_restart_def retain_until_drain_def Let_def)

lemma version_start: "version_pins.accounted ([], [])"
  by (simp add: version_pins.accounted_def version_inv_def version_entry_of_def version_active_def fun_eq_iff)

lemma resource_start: "resource_pins.accounted ([], [])"
  unfolding resource_pins.accounted_def by (simp add: resource_inv_def resource_count_def fun_eq_iff)

lemmas version_step_eval = version_step_def pin_inner_def version_pin_drop_def version_fence_many_def retain_until_drain_def
  release_drained_def version_entry_of_def version_entry_default_def ve_idle_def dep_count_def checked_add_u64_def
  u64_max_def AList.delete_eq Let_def

text \<open>
  C13. Deleting a version excludes its use. In any run of the registry of version pins from its
  empty start, once a fenced set of versions is seen drained, then for as long as nobody
  lifts or retires the fence of a version of the set, whatever else is done to the registry,
  nobody holds a pin of the version, no background activation retains it, and every request
  to pin or to retain it is refused.
\<close>

theorem version_deletion_exclusive:
  assumes "run_events version_step (version_step (run_events version_step ([], []) before) (Fence vs)) waiting = y"
    and "versions_drained vs (fst y)" "v \<in> set vs" "list_all (\<lambda>e. \<not> lifts v e) (waiting @ after)"
    and "run_events version_step y after = (es, held)"
  shows "(\<forall>p \<in> set held. fst p \<noteq> v) \<and> \<not> version_retained es v
    \<and> fst (pin_inner (v, d) es) = Inl VersionNotReady
    \<and> fst (retain_until_restart v es) = Inl VersionNotReady
    \<and> fst (retain_until_drain v r es) = Inl VersionNotReady"
proof -
  note drained = version_pins.drained_exclusive [OF version_pins.run_accounted [OF version_start, of before],
      OF assms(1) [unfolded version_step_def] assms(2) assms(3) assms(4)]
  show ?thesis
    using drained version_fenced_refuses [of es v] assms(5) unfolding version_step_def by auto
qed

theorem version_deletion_exclusive_witness:
  "run_events version_step (version_step (run_events version_step ([], []) [Acquire (7, Some 1), Other (Retain_Drain 7 4)]) (Fence [7]))
      [Release (7, Some 1), Acquire (7, None), Other (Release_Drained 7 4)]
    = ([(7, version_entry_default\<lparr>ve_fenced := True\<rparr>)], [])
    \<and> fst (pin_inner (7, None) [(7, version_entry_default\<lparr>ve_fenced := True\<rparr>), (8, version_entry_default\<lparr>ve_count := 1\<rparr>)])
      = Inl VersionNotReady"
proof
  show y: "run_events version_step (version_step (run_events version_step ([], [])
        [Acquire (7, Some 1), Other (Retain_Drain 7 4)]) (Fence [7]))
      [Release (7, Some 1), Acquire (7, None), Other (Release_Drained 7 4)]
    = ([(7, version_entry_default\<lparr>ve_fenced := True\<rparr>)], [])" by (simp add: version_step_eval)
  have z: "run_events version_step ([(7, version_entry_default\<lparr>ve_fenced := True\<rparr>)], [])
      [Acquire (7, Some 2), Acquire (8, None), Other (Retain_Drain 7 5)]
      = ([(7, version_entry_default\<lparr>ve_fenced := True\<rparr>), (8, version_entry_default\<lparr>ve_count := 1\<rparr>)], [(8, None)])" by (simp add: version_step_eval)
  have d: "versions_drained [7] (fst ([(7, version_entry_default\<lparr>ve_fenced := True\<rparr>)], []))" by (simp add: versions_drained_def ve_idle_def version_entry_default_def)
  have l: "list_all (\<lambda>e. \<not> lifts 7 e) ([Release (7, Some 1), Acquire (7, None), Other (Release_Drained 7 4)]
      @ [Acquire (7, Some 2), Acquire (8, None), Other (Retain_Drain 7 5)])" by simp
  show "fst (pin_inner (7, None) [(7, version_entry_default\<lparr>ve_fenced := True\<rparr>), (8, version_entry_default\<lparr>ve_count := 1\<rparr>)])
      = Inl VersionNotReady"
    using version_deletion_exclusive [OF y d _ l z, of None 0] by simp
qed

lemma resource_deletion_exclusive:
  assumes "run_events resource_step (resource_step (run_events resource_step ([], []) before) (Fence [r])) waiting = y"
    and "resource_drained r (fst y)" "list_all (\<lambda>e. \<not> lifts r e) (waiting @ after)"
    and "run_events resource_step y after = (es, held)"
  shows "r \<notin> set held \<and> fst (try_pin r es) = Inl ResourceNotReady"
proof -
  have "resources_drained [r] (fst y)" using assms(2) by (simp add: resources_drained_def)
  note drained = resource_pins.drained_exclusive [OF resource_pins.run_accounted [OF resource_start, of before],
      OF assms(1) [unfolded resource_step_def] this _ assms(3)]
  then have "resource_fenced es r" "r \<notin> set held" using assms(4) unfolding resource_step_def by auto
  then show ?thesis by (simp add: try_pin_def resource_fenced_def)
qed

end
