(* ===== verification/Workflow_Duration.thy ===== *)
theory Workflow_Duration
  imports OC_Prelude "HOL-Library.Log_Nat"
begin

text \<open>
  Workflow durations (\<open>crates/core/src/workflow/duration.rs\<close>). Text is the list of its
  Unicode scalar values. A JSON number is, as in \<open>serde_json\<close>, an unsigned or a negative
  64-bit integer or a finite float; a finite float is the rational it denotes, so \<open>ceil\<close>,
  \<open>fract\<close> and the comparisons are exact. An object is the list of its entries.
\<close>

section \<open>JSON values\<close>

type_synonym utext = "nat list"

datatype json_number = PosInt nat | NegInt int | Float rat

datatype json =
  JNull | JBool bool | JNumber json_number | JString utext | JArray "json list" | JObject "(utext \<times> json) list"

definition utf8_length :: "nat \<Rightarrow> nat" where
  "utf8_length c = (if c < 128 then 1 else if c < 2048 then 2 else if c < 65536 then 3 else 4)"

definition text_bytes :: "utext \<Rightarrow> nat" where
  "text_bytes s = sum_list (map utf8_length s)"

definition ascii :: "string \<Rightarrow> utext" where
  "ascii s = map of_char s"

text \<open>
  The float nearest to a natural number, ties to the even significand: the significand has
  53 bits, and the excess bits are rounded away.
\<close>

definition f64_of_nat :: "nat \<Rightarrow> nat" where
  "f64_of_nat n =
     (let e = floorlog 2 n - 53; q = n div 2 ^ e; r = n mod 2 ^ e
      in if e = 0 then n
         else (if 2 ^ (e - 1) < r \<or> r = 2 ^ (e - 1) \<and> odd q then q + 1 else q) * 2 ^ e)"

definition f64_of_int :: "int \<Rightarrow> int" where
  "f64_of_int i = (if i < 0 then - int (f64_of_nat (nat (- i))) else int (f64_of_nat (nat i)))"

fun number_as_f64 :: "json_number \<Rightarrow> rat" where
  "number_as_f64 (PosInt n) = of_nat (f64_of_nat n)"
| "number_as_f64 (NegInt i) = of_int (f64_of_int i)"
| "number_as_f64 (Float q) = q"

fun as_f64 :: "json \<Rightarrow> rat option" where
  "as_f64 (JNumber n) = Some (number_as_f64 n)"
| "as_f64 v = None"

section \<open>Durations\<close>

definition workflow_max_safe_integer :: nat where
  "workflow_max_safe_integer = 9007199254740991"

definition workflow_max_duration_ms :: nat where
  "workflow_max_duration_ms = 365 * 24 * 60 * 60 * 1000"

definition whitespace :: "nat \<Rightarrow> bool" where
  "whitespace c \<longleftrightarrow> 9 \<le> c \<and> c \<le> 13 \<or> c = 32 \<or> c = 160 \<or> c = 5760 \<or> 8192 \<le> c \<and> c \<le> 8202
     \<or> c = 8232 \<or> c = 8233 \<or> c = 8239 \<or> c = 8287 \<or> c = 12288 \<or> c = 65279"

definition trim_whitespace :: "utext \<Rightarrow> utext" where
  "trim_whitespace s = rev (dropWhile whitespace (rev (dropWhile whitespace s)))"

definition to_ascii_lowercase :: "utext \<Rightarrow> utext" where
  "to_ascii_lowercase s = map (\<lambda>c. if 65 \<le> c \<and> c \<le> 90 then c + 32 else c) s"

definition unit_names :: "(string \<times> nat) list" where
  "unit_names =
     [(''ms'', 1), (''millisecond'', 1), (''milliseconds'', 1), (''s'', 1000), (''second'', 1000), (''seconds'', 1000),
      (''m'', 60000), (''minute'', 60000), (''minutes'', 60000), (''h'', 3600000), (''hour'', 3600000), (''hours'', 3600000),
      (''d'', 86400000), (''day'', 86400000), (''days'', 86400000), (''w'', 604800000), (''week'', 604800000),
      (''weeks'', 604800000)]"

definition unit_multiplier :: "utext \<Rightarrow> nat option" where
  "unit_multiplier u = map_of (map (\<lambda>(name, m). (ascii name, m)) unit_names) u"

definition is_ascii_digit :: "nat \<Rightarrow> bool" where
  "is_ascii_digit c \<longleftrightarrow> 48 \<le> c \<and> c \<le> 57"

definition split_decimal :: "utext \<Rightarrow> utext \<times> utext" where
  "split_decimal s = (if 46 \<in> set s
     then (takeWhile (\<lambda>c. c \<noteq> 46) s, tl (dropWhile (\<lambda>c. c \<noteq> 46) s)) else (s, []))"

fun parse_whole :: "nat \<Rightarrow> utext \<Rightarrow> nat option" where
  "parse_whole integer [] = Some integer"
| "parse_whole integer (c # cs) =
     (case Option.bind (checked_mul_u64 integer 10) (\<lambda>value. checked_add_u64 value (c - 48)) of
        None \<Rightarrow> None
      | Some value \<Rightarrow> if value \<le> workflow_max_safe_integer then parse_whole value cs else None)"

text \<open>One digit of the long multiplication; the product is taken in 64 bits.\<close>

definition fraction_step :: "nat \<Rightarrow> nat \<Rightarrow> nat \<times> bool \<Rightarrow> nat \<times> bool" where
  "fraction_step multiplier c acc =
     (let product = ((c - 48) * multiplier + fst acc) mod 2 ^ 64
      in (product div 10, snd acc \<or> product mod 10 \<noteq> 0))"

definition scale_fraction :: "nat \<Rightarrow> utext \<Rightarrow> nat \<times> bool" where
  "scale_fraction multiplier fraction = fold (fraction_step multiplier) (rev fraction) (0, False)"

definition scale_decimal :: "nat \<Rightarrow> utext \<Rightarrow> utext \<Rightarrow> nat result" where
  "scale_decimal multiplier whole fraction =
     (case parse_whole 0 whole of
        None \<Rightarrow> Inl WorkflowDurationInvalid
      | Some integer \<Rightarrow>
          (let (carry, remainder) = scale_fraction multiplier fraction
           in case Option.bind (Option.bind (checked_mul_u64 integer multiplier)
                     (\<lambda>v. checked_add_u64 v carry)) (\<lambda>v. checked_add_u64 v (if remainder then 1 else 0)) of
                None \<Rightarrow> Inl WorkflowDurationInvalid
              | Some v \<Rightarrow> if v \<le> workflow_max_safe_integer then Inr v else Inl WorkflowDurationInvalid))"

definition string_duration :: "utext \<Rightarrow> nat result" where
  "string_duration s =
     (if 4096 < text_bytes s then Inl WorkflowDurationInvalid
      else let value = trim_whitespace s; decimal = takeWhile (\<lambda>c. \<not> whitespace c) value;
               rest = dropWhile (\<lambda>c. \<not> whitespace c) value
           in if rest = [] then Inl WorkflowDurationInvalid
              else case unit_multiplier (to_ascii_lowercase (dropWhile whitespace rest)) of
                  None \<Rightarrow> Inl WorkflowDurationInvalid
                | Some multiplier \<Rightarrow>
                    (let (whole, fraction) = split_decimal decimal
                     in if whole = [] \<and> fraction = [] \<or> \<not> list_all is_ascii_digit (whole @ fraction)
                        then Inl WorkflowDurationInvalid
                        else scale_decimal multiplier whole fraction))"

definition duration_ms :: "json \<Rightarrow> nat \<Rightarrow> nat result" where
  "duration_ms value maximum =
     (case (case value of
              JNumber n \<Rightarrow>
                (let number = number_as_f64 n
                 in if number < 0 \<or> \<lceil>number\<rceil> > int workflow_max_safe_integer then Inl WorkflowDurationInvalid
                    else Inr (nat \<lceil>number\<rceil>))
            | JString s \<Rightarrow> string_duration s
            | _ \<Rightarrow> Inl WorkflowDurationInvalid) of
        Inl e \<Rightarrow> Inl e
      | Inr parsed \<Rightarrow> if parsed > min maximum workflow_max_safe_integer then Inl WorkflowDurationInvalid else Inr parsed)"

definition timestamp_ms :: "json \<Rightarrow> int result" where
  "timestamp_ms value =
     (case as_f64 value of
        None \<Rightarrow> Inl WorkflowDurationInvalid
      | Some number \<Rightarrow>
          if frac number \<noteq> 0 \<or> \<bar>number\<bar> > of_nat workflow_max_safe_integer then Inl WorkflowDurationInvalid
          else Inr \<lfloor>number\<rfloor>)"

section \<open>What a duration denotes\<close>

primrec digits_value :: "nat \<Rightarrow> utext \<Rightarrow> nat" where
  "digits_value n [] = n"
| "digits_value n (c # cs) = digits_value (10 * n + (c - 48)) cs"

definition decimal_value :: "utext \<Rightarrow> utext \<Rightarrow> rat" where
  "decimal_value whole fraction = of_nat (digits_value 0 whole) + of_nat (digits_value 0 fraction) / 10 ^ length fraction"

text \<open>
  The text of a duration: a decimal with at least one digit, whitespace, the name of a unit in
  any case, and whitespace around it all; it denotes the exact number of milliseconds.
\<close>

inductive duration_text :: "utext \<Rightarrow> rat \<Rightarrow> bool" where
  "\<lbrakk>list_all whitespace before; list_all whitespace sep; sep \<noteq> []; list_all whitespace after;
    list_all is_ascii_digit whole; list_all is_ascii_digit fraction; whole \<noteq> [] \<or> fraction \<noteq> [];
    point = [46] \<or> point = [] \<and> fraction = []; unit_multiplier (to_ascii_lowercase u) = Some m\<rbrakk>
   \<Longrightarrow> duration_text (before @ whole @ point @ fraction @ sep @ u @ after) (decimal_value whole fraction * of_nat m)"

fun number_value :: "json_number \<Rightarrow> rat" where
  "number_value (PosInt n) = of_nat n"
| "number_value (NegInt i) = of_int i"
| "number_value (Float q) = q"

inductive denotes_ms :: "json \<Rightarrow> rat \<Rightarrow> bool" where
  number: "0 \<le> number_value n \<Longrightarrow> denotes_ms (JNumber n) (number_value n)"
| string: "text_bytes s \<le> 4096 \<Longrightarrow> duration_text s q \<Longrightarrow> denotes_ms (JString s) q"

inductive_simps denotes_ms_simps [simp]: "denotes_ms (JNumber n) q" "denotes_ms (JString s) q"

section \<open>Rounding of integers\<close>

lemma f64_small: "n < 2 ^ 53 \<Longrightarrow> f64_of_nat n = n"
  by (simp add: f64_of_nat_def floorlog_leI)

lemma f64_large:
  assumes "2 ^ 53 \<le> n"
  shows "2 ^ 53 \<le> f64_of_nat n"
proof (cases "floorlog 2 n - 53")
  case (Suc e)
  define T :: nat where "T = 2 ^ Suc e"
  have "floorlog 2 n - 1 = 53 + e" using Suc by linarith
  moreover have "0 < n" using assms by (metis less_le_trans pos2 zero_less_power)
  ultimately have "2 ^ (53 + e) \<le> n" using floorlog_bounds [of n 2] by simp
  moreover have T: "(2 :: nat) ^ (53 + e) = 2 ^ 52 * T" "(2 :: nat) ^ 53 \<le> 2 ^ 52 * T" by (simp_all add: T_def power_add)
  moreover have "0 < T" by (simp add: T_def)
  ultimately have "(2 :: nat) ^ 52 \<le> n div T" by (simp only: less_eq_div_iff_mult_less_eq)
  then have "2 ^ 52 * T \<le> n div T * T" by (rule mult_le_mono1)
  moreover have "n div T * T \<le> f64_of_nat n" unfolding f64_of_nat_def Let_def Suc T_def by simp
  ultimately show ?thesis using T(2) by linarith
qed (use assms in \<open>simp add: f64_of_nat_def Let_def\<close>)

section \<open>Decimal digits\<close>

lemma digits_value_eq: "digits_value n cs = n * 10 ^ length cs + digits_value 0 cs"
proof (induction cs arbitrary: n)
  case (Cons c cs)
  have "digits_value n (c # cs) = (10 * n + (c - 48)) * 10 ^ length cs + digits_value 0 cs"
    by (simp only: digits_value.simps) (rule Cons.IH)
  also have "\<dots> = n * 10 ^ length (c # cs) + ((c - 48) * 10 ^ length cs + digits_value 0 cs)"
    by (simp add: algebra_simps)
  also have "(c - 48) * 10 ^ length cs + digits_value 0 cs = digits_value 0 (c # cs)"
    using Cons.IH [of "c - 48"] by simp
  finally show ?case .
qed simp

lemma digits_value_Cons: "digits_value 0 (c # cs) = (c - 48) * 10 ^ length cs + digits_value 0 cs"
  using digits_value_eq [of "c - 48" cs] by simp

lemma digits_value_ge: "n \<le> digits_value n cs"
proof -
  have "n * 1 \<le> n * 10 ^ length cs" by (rule mult_le_mono2) simp
  then show ?thesis using digits_value_eq [of n cs] by linarith
qed

lemma parse_whole_eq:
  "list_all is_ascii_digit cs \<Longrightarrow> n \<le> workflow_max_safe_integer \<Longrightarrow>
   parse_whole n cs = (if digits_value n cs \<le> workflow_max_safe_integer then Some (digits_value n cs) else None)"
proof (induction cs arbitrary: n)
  case (Cons c cs)
  have "c - 48 \<le> 9" using Cons.prems(1) by (auto simp: is_ascii_digit_def)
  then have "n * 10 + (c - 48) \<le> u64_max" using Cons.prems(2) unfolding workflow_max_safe_integer_def u64_max_def by linarith
  moreover from this have "n * 10 \<le> u64_max" by linarith
  moreover have "10 * n + (c - 48) \<le> digits_value n (c # cs)" using digits_value_ge by simp
  ultimately show ?case
    using Cons by (auto simp: checked_mul_u64_def checked_add_u64_def mult.commute)
qed simp

lemma scale_fraction_Cons: "scale_fraction m (c # cs) = fraction_step m c (scale_fraction m cs)"
  by (simp add: scale_fraction_def)

lemma scale_fraction_eq:
  assumes "list_all is_ascii_digit cs" "m \<le> 604800000"
  shows "digits_value 0 cs < 10 ^ length cs
    \<and> scale_fraction m cs = (digits_value 0 cs * m div 10 ^ length cs, digits_value 0 cs * m mod 10 ^ length cs \<noteq> 0)"
  using assms(1)
proof (induction cs)
  case (Cons c cs)
  define k where "k = (10 :: nat) ^ length cs"
  define F where "F = digits_value 0 cs"
  define d where "d = c - 48"
  have k: "0 < k" by (simp add: k_def)
  have digits: "list_all is_ascii_digit cs" using Cons.prems by simp
  have d: "d \<le> 9" using Cons.prems by (auto simp: d_def is_ascii_digit_def)
  have F: "F < k" using Cons.IH [OF digits] by (simp add: F_def k_def)
  have val: "digits_value 0 (c # cs) = d * k + F" by (simp only: digits_value_Cons k_def F_def d_def)
  have "d * k \<le> 9 * k" using d by (rule mult_le_mono1)
  moreover have "10 ^ length (c # cs) = 10 * k" by (simp add: k_def)
  ultimately have lt: "digits_value 0 (c # cs) < 10 ^ length (c # cs)" unfolding val using F by linarith
  have "F * m div k \<le> m" using F by (metis div_le_mono less_imp_le mult.commute mult_le_mono1 nonzero_mult_div_cancel_left k less_numeral_extra(3))
  moreover have "d * m \<le> 9 * m" using d by (rule mult_le_mono1)
  ultimately have "d * m + F * m div k < 18446744073709551616" using assms(2) by linarith
  then have step: "fraction_step m c (F * m div k, F * m mod k \<noteq> 0)
      = ((d * m + F * m div k) div 10, F * m mod k \<noteq> 0 \<or> (d * m + F * m div k) mod 10 \<noteq> 0)"
    by (simp add: fraction_step_def Let_def d_def)
  have "(d * k + F) * m = F * m + k * (d * m)" by (simp add: algebra_simps)
  then have x: "(d * k + F) * m div k = d * m + F * m div k" "(d * k + F) * m mod k = F * m mod k"
    using k by (simp_all only: div_mult_self2 mod_mult_self2 less_not_refl2 not_False_eq_True)
  have "(d * k + F) * m mod (k * 10) = k * ((d * k + F) * m div k mod 10) + (d * k + F) * m mod k"
    by (rule mod_mult2_eq)
  then have "(d * k + F) * m mod (k * 10) \<noteq> 0 \<longleftrightarrow> F * m mod k \<noteq> 0 \<or> (d * m + F * m div k) mod 10 \<noteq> 0"
    using k unfolding x by auto
  moreover have "(d * k + F) * m div (k * 10) = (d * m + F * m div k) div 10" by (simp only: div_mult2_eq x)
  ultimately have "scale_fraction m (c # cs)
      = (digits_value 0 (c # cs) * m div 10 ^ length (c # cs), digits_value 0 (c # cs) * m mod 10 ^ length (c # cs) \<noteq> 0)"
    unfolding scale_fraction_Cons conjunct2 [OF Cons.IH [OF digits]] val using step by (simp add: k_def F_def mult.commute)
  with lt show ?case by blast
qed (simp_all add: scale_fraction_def)

section \<open>Rounding up\<close>

lemma ceiling_of_nat_divide:
  assumes "0 < b"
  shows "\<lceil>of_nat a / of_nat b :: rat\<rceil> = int (a div b + (if a mod b \<noteq> 0 then 1 else 0))"
proof -
  have "of_nat a = (of_nat (a div b) * of_nat b + of_nat (a mod b) :: rat)"
    by (metis div_mult_mod_eq of_nat_add of_nat_mult)
  then have split: "of_nat a / of_nat b = (of_nat (a div b) + of_nat (a mod b) / of_nat b :: rat)"
    using assms by (simp add: add_divide_distrib)
  have "(of_nat (a mod b) / of_nat b :: rat) < 1" "0 \<le> (of_nat (a mod b) / of_nat b :: rat)"
    using assms by simp_all
  moreover have "0 < (of_nat (a mod b) / of_nat b :: rat)" if "a mod b \<noteq> 0"
    using that assms by (simp del: of_nat_mod)
  ultimately show ?thesis unfolding split by (auto simp del: of_nat_mod intro!: ceiling_unique)
qed

lemma ceiling_scaled:
  assumes "list_all is_ascii_digit f" "m \<le> 604800000"
  shows "\<lceil>decimal_value w f * of_nat m\<rceil>
    = int (digits_value 0 w * m + fst (scale_fraction m f) + (if snd (scale_fraction m f) then 1 else 0))"
proof -
  let ?F = "digits_value 0 f * m"
  have "decimal_value w f * of_nat m = of_nat ?F / of_nat (10 ^ length f) + of_int (int (digits_value 0 w * m))"
    by (simp add: decimal_value_def algebra_simps)
  then have "\<lceil>decimal_value w f * of_nat m\<rceil> = \<lceil>of_nat ?F / of_nat (10 ^ length f) :: rat\<rceil> + int (digits_value 0 w * m)"
    by (simp only: ceiling_add_of_int)
  then show ?thesis
    unfolding conjunct2 [OF scale_fraction_eq [OF assms]] by (simp only: ceiling_of_nat_divide zero_less_power zero_less_numeral fst_conv snd_conv)
qed

lemma scale_decimal_eq:
  assumes "list_all is_ascii_digit w" "list_all is_ascii_digit f" "0 < m" "m \<le> 604800000"
  defines "n \<equiv> nat \<lceil>decimal_value w f * of_nat m\<rceil>"
  shows "scale_decimal m w f = (if n \<le> workflow_max_safe_integer then Inr n else Inl WorkflowDurationInvalid)"
proof -
  let ?c = "fst (scale_fraction m f)" and ?r = "if snd (scale_fraction m f) then 1 else 0 :: nat"
  define X where "X = digits_value 0 w * m"
  have n: "n = X + ?c + ?r" unfolding n_def X_def ceiling_scaled [OF assms(2, 4)] by (simp only: nat_int)
  have le: "digits_value 0 w \<le> X" unfolding X_def using assms(3) by simp
  have whole: "parse_whole 0 w = (if digits_value 0 w \<le> workflow_max_safe_integer then Some (digits_value 0 w) else None)"
    using assms(1) by (rule parse_whole_eq) simp
  have max: "workflow_max_safe_integer \<le> u64_max" by (simp add: workflow_max_safe_integer_def u64_max_def)
  show ?thesis
    unfolding scale_decimal_def whole using n le max
    by (auto simp: checked_mul_u64_def X_def [symmetric] checked_add_u64_def Let_def split: prod.split option.splits)
qed

section \<open>The shape of the text\<close>

lemma unit_multiplier_Some:
  assumes "unit_multiplier u = Some m"
  shows "0 < m \<and> m \<le> 604800000 \<and> u \<noteq> [] \<and> list_all (\<lambda>c. 97 \<le> c \<and> c \<le> 122) u"
proof -
  have "(u, m) \<in> set (map (\<lambda>(name, m). (ascii name, m)) unit_names)"
    using assms unfolding unit_multiplier_def by (rule map_of_SomeD)
  moreover have "\<forall>(u, m) \<in> set (map (\<lambda>(name, m). (ascii name, m)) unit_names).
      0 < m \<and> m \<le> 604800000 \<and> u \<noteq> [] \<and> list_all (\<lambda>c. 97 \<le> c \<and> c \<le> 122) u"
    by (simp add: unit_names_def ascii_def)
  ultimately show ?thesis by blast
qed

lemma unit_no_whitespace:
  assumes "unit_multiplier (to_ascii_lowercase u) = Some m"
  shows "u \<noteq> []" "list_all (\<lambda>c. \<not> whitespace c) u"
proof -
  note unit = unit_multiplier_Some [OF assms]
  show "u \<noteq> []" using unit by (auto simp: to_ascii_lowercase_def)
  have "\<not> whitespace c" if "c \<in> set u" for c
  proof -
    have "97 \<le> (if 65 \<le> c \<and> c \<le> 90 then c + 32 else c) \<and> (if 65 \<le> c \<and> c \<le> 90 then c + 32 else c) \<le> 122"
      using unit that by (auto simp: to_ascii_lowercase_def list_all_iff)
    then have "65 \<le> c" "c \<le> 122" by (auto split: if_splits)
    then show ?thesis by (simp add: whitespace_def)
  qed
  then show "list_all (\<lambda>c. \<not> whitespace c) u" by (simp add: list_all_iff)
qed

lemma digit_no_whitespace: "is_ascii_digit c \<Longrightarrow> \<not> whitespace c \<and> c \<noteq> 46"
  by (auto simp: is_ascii_digit_def whitespace_def)

lemma dropWhile_all_append: "list_all P xs \<Longrightarrow> dropWhile P (xs @ ys) = dropWhile P ys"
  by (induction xs) auto

lemma dropWhile_stop: "xs \<noteq> [] \<Longrightarrow> \<not> P (hd xs) \<Longrightarrow> dropWhile P (xs @ ys) = xs @ ys"
  by (cases xs) auto

lemma takeWhile_all_append: "list_all P xs \<Longrightarrow> ys = [] \<or> \<not> P (hd ys) \<Longrightarrow> takeWhile P (xs @ ys) = xs \<and> dropWhile P (xs @ ys) = ys"
  by (induction xs) (cases ys; auto)+

lemma trim_surrounded:
  assumes "list_all whitespace a" "list_all whitespace c" "b \<noteq> []" "\<not> whitespace (hd b)" "\<not> whitespace (last b)"
  shows "trim_whitespace (a @ b @ c) = b"
proof -
  have "dropWhile whitespace (a @ b @ c) = b @ c"
    by (simp only: dropWhile_all_append [OF assms(1)] dropWhile_stop [of b whitespace, OF assms(3, 4)])
  moreover have "dropWhile whitespace (rev c @ rev b @ []) = rev b @ []"
    using assms(2, 3, 5) dropWhile_stop [of "rev b" whitespace "[]"]
    by (simp add: dropWhile_all_append hd_rev)
  ultimately show ?thesis by (simp add: trim_whitespace_def)
qed

lemma trim_decompose:
  obtains a c where "s = a @ trim_whitespace s @ c" "list_all whitespace a" "list_all whitespace c"
proof -
  let ?d = "dropWhile whitespace s"
  have "?d = rev (takeWhile whitespace (rev ?d) @ dropWhile whitespace (rev ?d))" by (simp only: takeWhile_dropWhile_id rev_rev_ident)
  then have "?d = trim_whitespace s @ rev (takeWhile whitespace (rev ?d))" by (simp only: rev_append trim_whitespace_def)
  then have "s = takeWhile whitespace s @ trim_whitespace s @ rev (takeWhile whitespace (rev ?d))"
    by (metis takeWhile_dropWhile_id)
  moreover have "list_all whitespace (takeWhile whitespace s)" "list_all whitespace (rev (takeWhile whitespace (rev ?d)))"
    by (auto simp: list_all_iff dest: set_takeWhileD)
  ultimately show thesis using that by blast
qed

lemma split_decimal_join:
  assumes "list_all is_ascii_digit w" "point = [46] \<or> point = [] \<and> f = []"
  shows "split_decimal (w @ point @ f) = (w, f)"
proof -
  have w: "46 \<notin> set w" "list_all (\<lambda>c. c \<noteq> 46) w" using assms(1) digit_no_whitespace by (auto simp: list_all_iff)
  from takeWhile_all_append [OF w(2), of "46 # f"] w(1) assms(2) show ?thesis by (auto simp: split_decimal_def)
qed

lemma split_decimal_decompose:
  assumes "split_decimal d = (w, f)"
  obtains point where "d = w @ point @ f" "point = [46] \<or> point = [] \<and> f = []"
proof (cases "46 \<in> set d")
  case True
  then have ne: "dropWhile (\<lambda>c. c \<noteq> 46) d \<noteq> []" by auto
  then have "dropWhile (\<lambda>c. c \<noteq> 46) d = 46 # f"
    using assms True hd_dropWhile [OF ne] by (cases "dropWhile (\<lambda>c. c \<noteq> 46) d") (auto simp: split_decimal_def)
  then have "d = w @ [46] @ f"
    using assms True takeWhile_dropWhile_id [of "\<lambda>c. c \<noteq> 46" d] by (simp add: split_decimal_def)
  then show thesis using that by blast
next
  case False
  then show thesis using assms that [of "[]"] by (simp add: split_decimal_def)
qed

lemma string_duration_text:
  assumes "text_bytes s \<le> 4096" "duration_text s q"
  shows "string_duration s = (if nat \<lceil>q\<rceil> \<le> workflow_max_safe_integer then Inr (nat \<lceil>q\<rceil>) else Inl WorkflowDurationInvalid)"
  using assms(2)
proof cases
  case (1 before sep after whole fraction point u m)
  let ?d = "whole @ point @ fraction"
  have clean: "list_all (\<lambda>c. \<not> whitespace c) ds" if "list_all is_ascii_digit ds" for ds
    using that by (rule list.pred_mono_strong) (simp add: digit_no_whitespace)
  have "list_all (\<lambda>c. \<not> whitespace c) point" using 1(10) by (elim disjE) (simp_all add: whitespace_def)
  then have d: "list_all (\<lambda>c. \<not> whitespace c) ?d" "?d \<noteq> []" using clean [OF 1(7)] clean [OF 1(8)] 1(9) by simp_all
  note u = unit_no_whitespace [OF 1(11)]
  have hd: "\<not> whitespace (hd ?d)" "\<not> whitespace (hd u)" "\<not> whitespace (last u)" "whitespace (hd sep)"
    using d(1) hd_in_set [OF d(2)] u(2) hd_in_set [OF u(1)] last_in_set [OF u(1)] 1(4) hd_in_set [OF 1(5)]
    unfolding list_all_iff by blast+
  have trim: "trim_whitespace s = ?d @ sep @ u"
  proof -
    have "hd (?d @ sep @ u) = hd ?d" by (rule hd_append2 [OF d(2)])
    moreover have "last (?d @ sep @ u) = last u" using u(1) by simp
    ultimately have "trim_whitespace (before @ (?d @ sep @ u) @ after) = ?d @ sep @ u"
      by (intro trim_surrounded 1(3, 6)) (use u(1) hd in simp_all)
    then show ?thesis by (simp only: 1(1) append.assoc)
  qed
  have take: "takeWhile (\<lambda>c. \<not> whitespace c) (trim_whitespace s) = ?d"
    "dropWhile (\<lambda>c. \<not> whitespace c) (trim_whitespace s) = sep @ u"
    using takeWhile_all_append [OF d(1), of "sep @ u"] hd(4) hd_append2 [OF 1(5), of u] unfolding trim by simp_all
  have "dropWhile whitespace (sep @ u) = u"
    using dropWhile_stop [of u whitespace "[]"] u(1) hd(2) by (simp add: dropWhile_all_append 1(4))
  moreover have "\<not> (whole = [] \<and> fraction = [] \<or> \<not> list_all is_ascii_digit (whole @ fraction))" using 1(7-9) by simp
  ultimately have "string_duration s = scale_decimal m whole fraction"
    unfolding string_duration_def Let_def take using assms(1) 1(5, 11) split_decimal_join [OF 1(7) 1(10)] by auto
  then show ?thesis
    using scale_decimal_eq [OF 1(7, 8)] unit_multiplier_Some [OF 1(11)] unfolding 1(2) by simp
qed

lemma string_duration_denoted:
  assumes "string_duration s = Inr n"
  shows "text_bytes s \<le> 4096 \<and> (\<exists>q. duration_text s q)"
proof
  show "text_bytes s \<le> 4096" using assms by (simp add: string_duration_def split: if_splits)
  obtain before after where s: "s = before @ trim_whitespace s @ after" "list_all whitespace before" "list_all whitespace after"
    by (rule trim_decompose)
  define d where "d = takeWhile (\<lambda>c. \<not> whitespace c) (trim_whitespace s)"
  define rest where "rest = dropWhile (\<lambda>c. \<not> whitespace c) (trim_whitespace s)"
  obtain whole fraction where wf: "split_decimal d = (whole, fraction)" by fastforce
  have code: "rest \<noteq> []" "\<exists>m. unit_multiplier (to_ascii_lowercase (dropWhile whitespace rest)) = Some m"
    "whole \<noteq> [] \<or> fraction \<noteq> []" "list_all is_ascii_digit whole" "list_all is_ascii_digit fraction"
    using assms wf by (auto simp: string_duration_def Let_def d_def rest_def split: if_splits option.splits)
  then obtain m where m: "unit_multiplier (to_ascii_lowercase (dropWhile whitespace rest)) = Some m" by blast
  obtain point where point: "d = whole @ point @ fraction" "point = [46] \<or> point = [] \<and> fraction = []"
    using split_decimal_decompose [OF wf] by metis
  have "whitespace (hd rest)" using hd_dropWhile [OF code(1) [unfolded rest_def]] by (simp add: rest_def)
  then have sep: "takeWhile whitespace rest \<noteq> []" using code(1) by (cases rest) auto
  have "trim_whitespace s = d @ rest" by (simp add: d_def rest_def)
  then have "s = before @ whole @ point @ fraction @ takeWhile whitespace rest @ dropWhile whitespace rest @ after"
    using s(1) point(1) by (metis append.assoc takeWhile_dropWhile_id)
  moreover have "list_all whitespace (takeWhile whitespace rest)" by (auto simp: list_all_iff dest: set_takeWhileD)
  ultimately show "\<exists>q. duration_text s q"
    using duration_text.intros [OF s(2) _ sep s(3) code(4, 5, 3) point(2) m] by metis
qed

lemma string_duration_iff:
  "string_duration s = Inr n \<longleftrightarrow> text_bytes s \<le> 4096
     \<and> (\<exists>q. duration_text s q \<and> n = nat \<lceil>q\<rceil> \<and> n \<le> workflow_max_safe_integer)"
proof
  assume ok: "string_duration s = Inr n"
  from string_duration_denoted [OF this] obtain q where "text_bytes s \<le> 4096" "duration_text s q" by blast
  moreover from string_duration_text [OF this] ok have "n = nat \<lceil>q\<rceil> \<and> n \<le> workflow_max_safe_integer" by (simp split: if_splits)
  ultimately show "text_bytes s \<le> 4096 \<and> (\<exists>q. duration_text s q \<and> n = nat \<lceil>q\<rceil> \<and> n \<le> workflow_max_safe_integer)" by blast
qed (use string_duration_text in auto)

lemma f64_safe:
  "n \<le> workflow_max_safe_integer \<Longrightarrow> f64_of_nat n = n"
  "workflow_max_safe_integer < n \<Longrightarrow> workflow_max_safe_integer < f64_of_nat n"
proof -
  have "(2 :: nat) ^ 53 = workflow_max_safe_integer + 1" by (simp add: workflow_max_safe_integer_def)
  then show "n \<le> workflow_max_safe_integer \<Longrightarrow> f64_of_nat n = n"
    "workflow_max_safe_integer < n \<Longrightarrow> workflow_max_safe_integer < f64_of_nat n"
    using f64_small [of n] f64_large [of n] by simp_all
qed

lemma f64_of_nat_le_iff: "f64_of_nat n \<le> workflow_max_safe_integer \<longleftrightarrow> n \<le> workflow_max_safe_integer"
  using f64_safe [of n] by (cases "n \<le> workflow_max_safe_integer") auto

lemma f64_of_nat_pos: "0 < f64_of_nat n \<longleftrightarrow> 0 < n"
proof (cases "n \<le> workflow_max_safe_integer")
  case False
  then show ?thesis using f64_safe(2) [of n] by linarith
qed (simp add: f64_safe(1))

lemma f64_of_int_less_0: "f64_of_int i < 0 \<longleftrightarrow> i < 0"
  using f64_of_nat_pos [of "nat (- i)"] by (simp add: f64_of_int_def)

lemma f64_of_int_le_iff: "0 \<le> i \<Longrightarrow> f64_of_int i \<le> int workflow_max_safe_integer \<longleftrightarrow> i \<le> int workflow_max_safe_integer"
  using f64_of_nat_le_iff [of "nat i"] by (simp add: f64_of_int_def nat_le_iff)

lemma number_accepted_iff:
  "number_as_f64 k < 0 \<or> \<lceil>number_as_f64 k\<rceil> > int workflow_max_safe_integer
    \<longleftrightarrow> number_value k < 0 \<or> \<lceil>number_value k\<rceil> > int workflow_max_safe_integer"
proof (cases k)
  case (NegInt i)
  then show ?thesis using f64_of_int_less_0 [of i] f64_of_int_le_iff [of i] by (cases "0 \<le> i") (auto simp: not_le [symmetric])
qed (simp_all add: f64_of_nat_le_iff not_le [symmetric])

lemma number_exact:
  "0 \<le> number_value k \<Longrightarrow> \<lceil>number_value k\<rceil> \<le> int workflow_max_safe_integer \<Longrightarrow> number_as_f64 k = number_value k"
  by (cases k) (simp_all add: f64_safe(1) f64_of_int_def nat_le_iff)

text \<open>
  C12. Parsing a duration returns \<open>n\<close> exactly when the JSON value denotes a number of
  milliseconds, a nonnegative number itself, or a text of at most 4096 bytes made of a
  decimal and a unit, the denoted number rounded up is \<open>n\<close>, and \<open>n\<close> is within the caller's
  maximum and the safe integers. The digit-by-digit 64-bit arithmetic of the code, and the
  conversion of integers to floats, never lose anything.
\<close>

theorem duration_exact:
  "duration_ms v maximum = Inr n \<longleftrightarrow>
     (\<exists>q. denotes_ms v q \<and> n = nat \<lceil>q\<rceil> \<and> n \<le> min maximum workflow_max_safe_integer)"
proof (cases v)
  case (JNumber k)
  have "duration_ms v maximum = Inr n \<longleftrightarrow> \<not> (number_value k < 0 \<or> \<lceil>number_value k\<rceil> > int workflow_max_safe_integer)
      \<and> n = nat \<lceil>number_as_f64 k\<rceil> \<and> n \<le> min maximum workflow_max_safe_integer"
    unfolding duration_ms_def JNumber json.case Let_def number_accepted_iff by (auto split: if_splits)
  also have "\<dots> \<longleftrightarrow> 0 \<le> number_value k \<and> n = nat \<lceil>number_value k\<rceil> \<and> n \<le> min maximum workflow_max_safe_integer"
    using number_exact [of k] by (auto simp: nat_le_iff)
  finally show ?thesis by (auto simp: JNumber)
next
  case (JString s)
  have "duration_ms v maximum = Inr n \<longleftrightarrow> string_duration s = Inr n \<and> n \<le> min maximum workflow_max_safe_integer"
    by (auto simp: duration_ms_def JString split: sum.split)
  then show ?thesis by (auto simp: JString string_duration_iff)
qed (auto simp: duration_ms_def elim: denotes_ms.cases)

end
