(* ===== verification/Workflow_Policy.thy ===== *)
theory Workflow_Policy
  imports Workflow_Duration
begin

text \<open>
  Frozen retry, timeout and retention policy of workflows (\<open>crates/core/src/workflow/policy.rs\<close>)
  and the local capacity limits (\<open>crates/core/src/workflow.rs\<close>). Deserialisation of the two
  enums by \<open>serde\<close> is a parameter of \<open>step_config_resolve\<close>; an object is the list of its
  entries with distinct keys.
\<close>

section \<open>Constants and data\<close>

definition workflow_drain_margin_ms :: nat where "workflow_drain_margin_ms = 30000"
definition workflow_max_attempt_ms :: nat where "workflow_max_attempt_ms = 240000"
definition workflow_max_retry_delay_ms :: nat where "workflow_max_retry_delay_ms = 86400000"
definition workflow_value_max_bytes :: nat where "workflow_value_max_bytes = 1024 * 1024"

datatype workflow_backoff = Constant | Linear | Exponential

record workflow_retry_policy =
  rp_limit :: nat
  rp_delay :: "nat option"
  rp_backoff :: workflow_backoff

datatype workflow_sensitivity = Output

record workflow_step_config =
  sc_retries :: workflow_retry_policy
  sc_timeout :: nat
  sc_sensitive :: "workflow_sensitivity option"

record workflow_retention =
  success_retention_ms :: nat
  error_retention_ms :: nat

definition retry_policy_default :: workflow_retry_policy where
  "retry_policy_default = \<lparr>rp_limit = 5, rp_delay = Some 10000, rp_backoff = Exponential\<rparr>"

definition step_config_default :: workflow_step_config where
  "step_config_default = \<lparr>sc_retries = retry_policy_default, sc_timeout = 60000, sc_sensitive = None\<rparr>"

definition retention_default :: workflow_retention where
  "retention_default = \<lparr>success_retention_ms = 7 * 86400000, error_retention_ms = 30 * 86400000\<rparr>"

section \<open>Retry delays\<close>

definition retry_policy_validate :: "workflow_retry_policy \<Rightarrow> unit result" where
  "retry_policy_validate p =
     (if 100 < rp_limit p \<or> (case rp_delay p of None \<Rightarrow> False | Some delay \<Rightarrow> workflow_max_duration_ms < delay)
      then Inl WorkflowStepConfigUnsupported else Inr ())"

definition checked_shl_u64 :: "nat \<Rightarrow> nat \<Rightarrow> nat option" where
  "checked_shl_u64 x n = (if n < 64 then Some (x * 2 ^ n mod 2 ^ 64) else None)"

definition backoff_factor :: "workflow_backoff \<Rightarrow> nat \<Rightarrow> nat" where
  "backoff_factor backoff attempt =
     (case backoff of
        Constant \<Rightarrow> 1
      | Linear \<Rightarrow> attempt
      | Exponential \<Rightarrow> (case checked_shl_u64 1 (attempt - 1) of None \<Rightarrow> u64_max | Some f \<Rightarrow> f))"

definition resolved_delay :: "nat option \<Rightarrow> nat option \<Rightarrow> nat result" where
  "resolved_delay static dynamic =
     (case (static, dynamic) of
        (Some delay, None) \<Rightarrow> if delay \<le> workflow_max_duration_ms then Inr delay else Inl WorkflowStepConfigUnsupported
      | (None, Some delay) \<Rightarrow> if delay \<le> workflow_max_duration_ms then Inr delay else Inl WorkflowStepConfigUnsupported
      | _ \<Rightarrow> Inl WorkflowStepConfigUnsupported)"

definition delay_after_resolved :: "workflow_retry_policy \<Rightarrow> nat \<Rightarrow> nat option \<Rightarrow> nat result" where
  "delay_after_resolved p attempt resolved_dynamic_delay =
     rbind (retry_policy_validate p) (\<lambda>_.
     if \<not> (1 \<le> attempt \<and> attempt \<le> 101) then Inl WorkflowStepConfigUnsupported
     else rbind (resolved_delay (rp_delay p) resolved_dynamic_delay) (\<lambda>delay.
     Inr (min (saturating_mul_u64 delay (backoff_factor (rp_backoff p) attempt)) workflow_max_retry_delay_ms)))"

definition delay_after :: "workflow_retry_policy \<Rightarrow> nat \<Rightarrow> nat result" where
  "delay_after p attempt = delay_after_resolved p attempt None"

section \<open>Step configuration\<close>

definition object_fields :: "json \<Rightarrow> string list \<Rightarrow> (utext \<times> json) list result" where
  "object_fields value names =
     (case value of
        JObject fs \<Rightarrow> if list_ex (\<lambda>(k, v). k \<notin> ascii ` set names) fs then Inl WorkflowStepConfigUnsupported else Inr fs
      | _ \<Rightarrow> Inl WorkflowStepConfigUnsupported)"

definition get_field :: "(utext \<times> json) list \<Rightarrow> string \<Rightarrow> json option" where
  "get_field fs name = map_of fs (ascii name)"

definition step_config_validate :: "workflow_step_config \<Rightarrow> unit result" where
  "step_config_validate c =
     rbind (retry_policy_validate (sc_retries c)) (\<lambda>_.
     if 1 \<le> sc_timeout c \<and> sc_timeout c \<le> workflow_max_attempt_ms then Inr () else Inl WorkflowStepConfigUnsupported)"

definition resolve_limit :: "(utext \<times> json) list \<Rightarrow> nat result" where
  "resolve_limit retries =
     (case Option.bind (get_field retries ''limit'') as_f64 of
        None \<Rightarrow> Inl WorkflowStepConfigUnsupported
      | Some q \<Rightarrow> if frac q = 0 \<and> 0 \<le> q \<and> q \<le> 100 then Inr (nat \<lfloor>q\<rfloor>) else Inl WorkflowStepConfigUnsupported)"

definition is_dynamic :: "json \<Rightarrow> bool" where
  "is_dynamic delay = (case delay of JObject fs \<Rightarrow> length fs = 1 \<and> get_field fs ''dynamic'' = Some (JBool True) | _ \<Rightarrow> False)"

definition resolve_delay :: "(utext \<times> json) list \<Rightarrow> nat option result" where
  "resolve_delay retries =
     (case get_field retries ''delay'' of
        None \<Rightarrow> Inl WorkflowStepConfigUnsupported
      | Some delay \<Rightarrow>
          if is_dynamic delay then Inr None
          else rbind (duration_ms delay workflow_max_duration_ms) (\<lambda>d. Inr (Some d)))"

definition resolve_backoff :: "(json \<Rightarrow> workflow_backoff option) \<Rightarrow> (utext \<times> json) list \<Rightarrow> workflow_backoff result" where
  "resolve_backoff from_value retries =
     (case get_field retries ''backoff'' of
        None \<Rightarrow> Inr (rp_backoff retry_policy_default)
      | Some v \<Rightarrow> (case from_value v of None \<Rightarrow> Inl WorkflowStepConfigUnsupported | Some b \<Rightarrow> Inr b))"

definition resolve_retries ::
  "(json \<Rightarrow> workflow_backoff option) \<Rightarrow> (utext \<times> json) list \<Rightarrow> workflow_retry_policy result" where
  "resolve_retries from_backoff fs =
     (case get_field fs ''retries'' of
        None \<Rightarrow> Inr retry_policy_default
      | Some v \<Rightarrow>
          rbind (object_fields v [''limit'', ''delay'', ''backoff'']) (\<lambda>retries.
          rbind (resolve_limit retries) (\<lambda>limit.
          rbind (resolve_delay retries) (\<lambda>delay.
          rbind (resolve_backoff from_backoff retries) (\<lambda>backoff.
          Inr \<lparr>rp_limit = limit, rp_delay = delay, rp_backoff = backoff\<rparr>)))))"

definition resolve_timeout :: "(utext \<times> json) list \<Rightarrow> nat result" where
  "resolve_timeout fs =
     (case get_field fs ''timeout'' of
        None \<Rightarrow> Inr (sc_timeout step_config_default)
      | Some t \<Rightarrow> duration_ms t workflow_max_attempt_ms)"

definition resolve_sensitive ::
  "(json \<Rightarrow> workflow_sensitivity option) \<Rightarrow> (utext \<times> json) list \<Rightarrow> workflow_sensitivity option result" where
  "resolve_sensitive from_value fs =
     (case get_field fs ''sensitive'' of
        None \<Rightarrow> Inr None
      | Some v \<Rightarrow> (case from_value v of None \<Rightarrow> Inl WorkflowStepConfigUnsupported | Some x \<Rightarrow> Inr (Some x)))"

definition step_config_resolve ::
  "(json \<Rightarrow> workflow_backoff option) \<Rightarrow> (json \<Rightarrow> workflow_sensitivity option) \<Rightarrow> json \<Rightarrow> workflow_step_config result" where
  "step_config_resolve from_backoff from_sensitivity v =
     rbind (object_fields v [''retries'', ''timeout'', ''sensitive'']) (\<lambda>fs.
     rbind (resolve_timeout fs) (\<lambda>timeout.
     rbind (resolve_retries from_backoff fs) (\<lambda>retries.
     rbind (resolve_sensitive from_sensitivity fs) (\<lambda>sensitive.
     let c = \<lparr>sc_retries = retries, sc_timeout = timeout, sc_sensitive = sensitive\<rparr>
     in rbind (step_config_validate c) (\<lambda>_. Inr c)))))"

definition fits_activation :: "workflow_step_config \<Rightarrow> nat \<Rightarrow> bool" where
  "fits_activation c remaining_ms =
     (case checked_add_u64 (sc_timeout c) workflow_drain_margin_ms of None \<Rightarrow> False | Some required \<Rightarrow> required \<le> remaining_ms)"

section \<open>Retention\<close>

definition retention_validate :: "workflow_retention \<Rightarrow> unit result" where
  "retention_validate r =
     (if list_ex (\<lambda>d. workflow_max_duration_ms < d) [success_retention_ms r, error_retention_ms r]
      then Inl WorkflowDurationInvalid else Inr ())"

definition retention_field :: "(utext \<times> json) list \<Rightarrow> string \<Rightarrow> nat \<Rightarrow> nat result" where
  "retention_field fs name current =
     (case get_field fs name of None \<Rightarrow> Inr current | Some v \<Rightarrow> duration_ms v workflow_max_duration_ms)"

definition retention_resolve :: "json \<Rightarrow> workflow_retention \<Rightarrow> workflow_retention result" where
  "retention_resolve v defaults =
     rbind (retention_validate defaults) (\<lambda>_.
     rbind (object_fields v [''successRetention'', ''errorRetention'']) (\<lambda>fs.
     rbind (retention_field fs ''successRetention'' (success_retention_ms defaults)) (\<lambda>success.
     rbind (retention_field fs ''errorRetention'' (error_retention_ms defaults)) (\<lambda>failure.
     let r = \<lparr>success_retention_ms = success, error_retention_ms = failure\<rparr>
     in rbind (retention_validate r) (\<lambda>_. Inr r)))))"

definition retention_expires_at :: "workflow_retention \<Rightarrow> int \<Rightarrow> bool \<Rightarrow> int result" where
  "retention_expires_at r terminal_at_ms success =
     rbind (retention_validate r) (\<lambda>_.
     if nat \<bar>terminal_at_ms\<bar> > workflow_max_safe_integer then Inl WorkflowDurationInvalid
     else case i64_of_u64 (if success then success_retention_ms r else error_retention_ms r) of
         None \<Rightarrow> Inl WorkflowDurationInvalid
       | Some duration \<Rightarrow>
           (case checked_add_i64 terminal_at_ms duration of
              None \<Rightarrow> Inl WorkflowDurationInvalid
            | Some expiry \<Rightarrow> if nat \<bar>expiry\<bar> \<le> workflow_max_safe_integer then Inr expiry else Inl WorkflowDurationInvalid))"

section \<open>Local capacity\<close>

record workflows_config =
  wc_max_in_flight_requests :: nat
  wc_max_steps :: nat
  wc_max_state_bytes :: nat
  wc_max_instances :: nat
  wc_max_instances_per_definition :: nat
  wc_max_active :: nat
  wc_max_total_state_bytes :: nat
  wc_lease_ms :: nat
  wc_heartbeat_ms :: nat
  wc_dispatch_timeout_ms :: nat
  wc_recovery_backoff_ms :: nat
  wc_creation_grace_ms :: nat
  wc_max_parallel_steps :: nat
  wc_max_buffered_events :: nat
  wc_max_event_bytes :: nat
  wc_default_retention :: workflow_retention

definition workflows_config_default :: workflows_config where
  "workflows_config_default =
     \<lparr>wc_max_in_flight_requests = 64, wc_max_steps = 1024, wc_max_state_bytes = 32 * 1024 * 1024,
      wc_max_instances = 10000, wc_max_instances_per_definition = 10000, wc_max_active = 1000,
      wc_max_total_state_bytes = 1024 * 1024 * 1024, wc_lease_ms = 60000, wc_heartbeat_ms = 20000,
      wc_dispatch_timeout_ms = 300000, wc_recovery_backoff_ms = 1000, wc_creation_grace_ms = 60000,
      wc_max_parallel_steps = 4, wc_max_buffered_events = 128, wc_max_event_bytes = 8 * 1024 * 1024,
      wc_default_retention = retention_default\<rparr>"

definition workflows_config_validate :: "workflows_config \<Rightarrow> unit result" where
  "workflows_config_validate c =
     rbind (retention_validate (wc_default_retention c)) (\<lambda>_.
     if wc_max_in_flight_requests c = 0 \<or> wc_max_in_flight_requests c > 512
       \<or> wc_max_steps c = 0 \<or> wc_max_steps c > 1024
       \<or> wc_max_state_bytes c < workflow_value_max_bytes \<or> wc_max_state_bytes c > 1024 * 1024 * 1024
       \<or> wc_max_instances c = 0 \<or> wc_max_instances c > 1000000
       \<or> wc_max_instances_per_definition c = 0 \<or> wc_max_instances_per_definition c > wc_max_instances c
       \<or> wc_max_active c = 0 \<or> wc_max_active c > wc_max_instances c
       \<or> wc_max_total_state_bytes c < wc_max_state_bytes c \<or> wc_max_total_state_bytes c > 1024 * 1024 * 1024 * 1024
       \<or> wc_heartbeat_ms c = 0 \<or> wc_lease_ms c > 300000 \<or> wc_heartbeat_ms c \<ge> wc_lease_ms c div 2
       \<or> wc_lease_ms c div 2 \<ge> wc_dispatch_timeout_ms c \<or> wc_dispatch_timeout_ms c > 3600000
       \<or> wc_recovery_backoff_ms c = 0 \<or> wc_recovery_backoff_ms c > 60000
       \<or> wc_creation_grace_ms c = 0 \<or> wc_creation_grace_ms c > 300000
       \<or> \<not> (1 \<le> wc_max_parallel_steps c \<and> wc_max_parallel_steps c \<le> 16)
       \<or> \<not> (1 \<le> wc_max_buffered_events c \<and> wc_max_buffered_events c \<le> 128)
       \<or> \<not> (1 \<le> wc_max_event_bytes c \<and> wc_max_event_bytes c \<le> 8 * 1024 * 1024)
     then Inl LimitInvalid else Inr ())"

definition is_ascii_alphanumeric :: "nat \<Rightarrow> bool" where
  "is_ascii_alphanumeric b \<longleftrightarrow> is_ascii_digit b \<or> 65 \<le> b \<and> b \<le> 90 \<or> 97 \<le> b \<and> b \<le> 122"

definition validate_workflow_instance_id :: "nat list \<Rightarrow> unit result" where
  "validate_workflow_instance_id bytes =
     (if bytes = [] \<or> length bytes > 100 \<or> \<not> (is_ascii_alphanumeric (hd bytes) \<or> hd bytes = 95)
        \<or> \<not> list_all (\<lambda>b. is_ascii_alphanumeric b \<or> b = 95 \<or> b = 45) bytes
      then Inl WorkflowInstanceIdInvalid else Inr ())"

definition validate_workflow_name :: "nat list \<Rightarrow> unit result" where
  "validate_workflow_name bytes =
     (if length bytes > 64 \<or> isl (validate_workflow_instance_id bytes) then Inl WorkflowNotReady else Inr ())"

section \<open>Reference semantics of the delays\<close>

text \<open>The factor of the documented formula, in unbounded arithmetic.\<close>

fun ideal_factor :: "workflow_backoff \<Rightarrow> nat \<Rightarrow> nat" where
  "ideal_factor Constant attempt = 1"
| "ideal_factor Linear attempt = attempt"
| "ideal_factor Exponential attempt = 2 ^ (attempt - 1)"

lemma backoff_factor_cases:
  "backoff_factor b attempt = ideal_factor b attempt
    \<or> u64_max \<le> backoff_factor b attempt \<and> u64_max \<le> ideal_factor b attempt"
proof (cases "b = Exponential \<and> 64 \<le> attempt - 1")
  case True
  have "u64_max \<le> 2 ^ 64" by (simp add: u64_max_def)
  also have "\<dots> \<le> (2 :: nat) ^ (attempt - 1)" using True by (intro power_increasing) auto
  finally show ?thesis using True by (simp add: backoff_factor_def checked_shl_u64_def)
next
  case False
  have "(2 :: nat) ^ n mod 2 ^ 64 = 2 ^ n" if "n < 64" for n
    using that by (intro mod_less power_strict_increasing) auto
  then show ?thesis
    using False by (cases b) (auto simp: backoff_factor_def checked_shl_u64_def split: option.splits)
qed

text \<open>Saturation at 64 bits is invisible below the cap of one day.\<close>

lemma saturated_delay:
  "min (saturating_mul_u64 d (backoff_factor b attempt)) workflow_max_retry_delay_ms
    = min (d * ideal_factor b attempt) workflow_max_retry_delay_ms"
proof -
  have cap: "workflow_max_retry_delay_ms \<le> u64_max" by (simp add: workflow_max_retry_delay_ms_def u64_max_def)
  consider "d = 0" | "backoff_factor b attempt = ideal_factor b attempt"
    | "0 < d" "u64_max \<le> backoff_factor b attempt" "u64_max \<le> ideal_factor b attempt"
    using backoff_factor_cases [of b attempt] by auto
  then show ?thesis
  proof cases
    case 3
    have "u64_max \<le> d * x" if "u64_max \<le> x" for x
      using mult_le_mono [of 1 d u64_max x] 3(1) that by simp
    from this [OF 3(2)] this [OF 3(3)] show ?thesis using cap unfolding saturating_mul_u64_def by linarith
  qed (use cap in \<open>auto simp: saturating_mul_u64_def\<close>)
qed

lemma retry_policy_valid_iff:
  "retry_policy_validate p = Inr () \<longleftrightarrow> rp_limit p \<le> 100 \<and> (\<forall>d. rp_delay p = Some d \<longrightarrow> d \<le> workflow_max_duration_ms)"
  by (auto simp: retry_policy_validate_def split: option.splits)

lemma step_config_valid_iff:
  "step_config_validate c = Inr () \<longleftrightarrow> retry_policy_validate (sc_retries c) = Inr ()
     \<and> 1 \<le> sc_timeout c \<and> sc_timeout c \<le> workflow_max_attempt_ms"
  by (auto simp: step_config_validate_def result_simps)

lemma step_config_resolve_valid: "step_config_resolve fb fs v = Inr c \<Longrightarrow> step_config_validate c = Inr ()"
  by (auto simp: step_config_resolve_def result_simps Let_def)

lemma delay_after_resolved_eq:
  assumes "retry_policy_validate p = Inr ()" "1 \<le> attempt" "attempt \<le> 101"
    and "rp_delay p = Some d \<and> dyn = None \<or> rp_delay p = None \<and> dyn = Some d \<and> d \<le> workflow_max_duration_ms"
  shows "delay_after_resolved p attempt dyn = Inr (min (d * ideal_factor (rp_backoff p) attempt) workflow_max_retry_delay_ms)"
proof -
  have "resolved_delay (rp_delay p) dyn = Inr d"
    using assms(1, 4) by (auto simp: resolved_delay_def retry_policy_valid_iff)
  then show ?thesis using assms(1-3) by (simp add: delay_after_resolved_def saturated_delay)
qed

lemma fits_activation_iff:
  "sc_timeout c \<le> workflow_max_attempt_ms \<Longrightarrow> fits_activation c remaining \<longleftrightarrow> sc_timeout c + workflow_drain_margin_ms \<le> remaining"
  by (simp add: fits_activation_def checked_add_u64_def workflow_max_attempt_ms_def workflow_drain_margin_ms_def u64_max_def)

text \<open>
  C17. A configuration that \<open>WorkflowStepConfig::resolve\<close> accepts never goes wrong later: it
  passes \<open>validate\<close>, its attempt has a positive timeout that fits an activation exactly when
  the timeout and the drain margin do, and after each of its at most 101 attempts, with the
  delay it declares or a dynamic delay of at most a year, the retry delay is computed without
  error and is the documented formula in unbounded arithmetic, capped at one day.
\<close>

theorem resolved_config_sound:
  assumes "step_config_resolve from_backoff from_sensitivity v = Inr c"
    and "1 \<le> attempt" "attempt \<le> rp_limit (sc_retries c) + 1"
    and "rp_delay (sc_retries c) = Some d \<and> dyn = None
       \<or> rp_delay (sc_retries c) = None \<and> dyn = Some d \<and> d \<le> workflow_max_duration_ms"
  shows "step_config_validate c = Inr ()
    \<and> 1 \<le> sc_timeout c \<and> (fits_activation c remaining \<longleftrightarrow> sc_timeout c + workflow_drain_margin_ms \<le> remaining)
    \<and> delay_after_resolved (sc_retries c) attempt dyn
        = Inr (min (d * ideal_factor (rp_backoff (sc_retries c)) attempt) workflow_max_retry_delay_ms)"
proof -
  have c: "step_config_validate c = Inr ()" by (rule step_config_resolve_valid [OF assms(1)])
  then have p: "retry_policy_validate (sc_retries c) = Inr ()" "rp_limit (sc_retries c) \<le> 100"
    by (simp_all add: step_config_valid_iff retry_policy_valid_iff)
  then show ?thesis
    using c assms(2-4) fits_activation_iff [of c] delay_after_resolved_eq [OF p(1), of attempt d dyn]
    by (simp add: step_config_valid_iff)
qed

theorem resolved_config_sound_witness:
  "step_config_resolve (\<lambda>v. if v = JString (ascii ''exponential'') then Some Exponential else None) (\<lambda>_. None)
     (JObject [(ascii ''timeout'', JNumber (Float (3 / 2))),
               (ascii ''retries'', JObject [(ascii ''limit'', JNumber (PosInt 100)), (ascii ''delay'', JNumber (PosInt 1000)),
                 (ascii ''backoff'', JString (ascii ''exponential''))])])
   = Inr \<lparr>sc_retries = \<lparr>rp_limit = 100, rp_delay = Some 1000, rp_backoff = Exponential\<rparr>, sc_timeout = 2, sc_sensitive = None\<rparr>
   \<and> delay_after_resolved \<lparr>rp_limit = 100, rp_delay = Some 1000, rp_backoff = Exponential\<rparr> 101 None = Inr 86400000"
  (is "?r = Inr ?c \<and> _")
proof
  have f: "f64_of_nat 1000 = 1000" "f64_of_nat 100 = 100" by (simp_all add: f64_safe(1) workflow_max_safe_integer_def)
  have "\<lceil>3 / 2 :: rat\<rceil> = 2" by (rule ceiling_unique) simp_all
  then show c: "?r = Inr ?c"
    by (simp add: step_config_resolve_def object_fields_def resolve_timeout_def resolve_retries_def resolve_sensitive_def
        resolve_limit_def resolve_delay_def resolve_backoff_def is_dynamic_def get_field_def ascii_def duration_ms_def f
        workflow_max_safe_integer_def workflow_max_duration_ms_def workflow_max_attempt_ms_def step_config_validate_def
        retry_policy_validate_def frac_def)
  have "(86400000 :: nat) \<le> 1000 * 2 ^ 100" by simp
  then show "delay_after_resolved \<lparr>rp_limit = 100, rp_delay = Some 1000, rp_backoff = Exponential\<rparr> 101 None = Inr 86400000"
    using resolved_config_sound [OF c, of 101 1000 None] by (simp add: workflow_max_retry_delay_ms_def)
qed

lemma retention_expiry_bounds:
  assumes "retention_validate r = Inr ()" "\<bar>t\<bar> \<le> int workflow_max_safe_integer - int workflow_max_duration_ms"
  shows "retention_expires_at r t success = Inr (t + int (if success then success_retention_ms r else error_retention_ms r))"
proof -
  let ?d = "if success then success_retention_ms r else error_retention_ms r"
  have d: "?d \<le> workflow_max_duration_ms" using assms(1) by (auto simp: retention_validate_def split: if_splits)
  have "i64_of_u64 ?d = Some (int ?d)" "checked_add_i64 t (int ?d) = Some (t + int ?d)"
    using d assms(2) by (auto simp: rust_arith in_i64_def i64_max_def i64_min_def workflow_max_duration_ms_def
        workflow_max_safe_integer_def)
  moreover have "nat \<bar>t\<bar> \<le> workflow_max_safe_integer" "nat \<bar>t + int ?d\<bar> \<le> workflow_max_safe_integer"
    using d assms(2) by linarith+
  ultimately show ?thesis by (simp add: retention_expires_at_def assms(1))
qed

lemma workflows_config_default_valid: "workflows_config_validate workflows_config_default = Inr ()"
  by (simp add: workflows_config_validate_def workflows_config_default_def retention_validate_def retention_default_def
      workflow_max_duration_ms_def workflow_value_max_bytes_def)

text \<open>In a valid configuration two heartbeats fit in a lease, and half a lease is shorter than the dispatch timeout.\<close>

lemma workflows_config_lease:
  "workflows_config_validate c = Inr () \<Longrightarrow> 2 * wc_heartbeat_ms c < wc_lease_ms c \<and> wc_lease_ms c < 2 * wc_dispatch_timeout_ms c + 2"
  by (auto simp: workflows_config_validate_def result_simps split: if_splits)

end
