(* ===== verification/Workflow_Tables.thy ===== *)
theory Workflow_Tables
  imports Transactions Workflow_Policy
begin

text \<open>
  The workflow tables of the scheduler database with their \<open>CHECK\<close> constraints, the
  accounting view and the triggers (migrations V21 and V24 under
  \<open>crates/storage/refinery-migrations/control\<close>), the descriptors of steps
  (\<open>crates/core/src/workflow/descriptor.rs\<close>) and the helpers of the store
  (\<open>crates/storage/src/scheduler/workflow/helpers.rs\<close>). A Rust string is the list of its
  UTF-8 bytes; identifiers and random tokens are numbers. Columns that a \<open>CHECK\<close> makes
  \<open>NULL\<close> together become one option: the token, claim time and lease of a run, the two
  tokens of a running step, the start and deadline of an attempt. The table
  \<open>workflow_mutation_context\<close> is filled and emptied inside the transactions of restart and
  purge only, which are not modelled: it is empty throughout. The dependencies of a step are
  kept in its descriptor, \<open>capability_version\<close>, always 1, is left out, and \<open>error_json\<close>, always \<open>failure_json\<close>, is present exactly
  when \<open>error_code\<close> is.
\<close>

section \<open>Rows\<close>

type_synonym bytes = "nat list"

datatype workflow_state = Queued | Running | Waiting | Paused | Completed | Errored | Terminated

definition is_terminal :: "workflow_state \<Rightarrow> bool" where
  "is_terminal s \<longleftrightarrow> s = Completed \<or> s = Errored \<or> s = Terminated"

record workflow_target =
  tg_instance :: nat
  tg_definition :: nat
  tg_definition_name :: bytes
  tg_version :: nat
  tg_worker :: nat
  tg_worker_version :: nat
  tg_worker_code :: bytes
  tg_class_name :: bytes
  tg_loader_schema :: nat
  tg_descriptor :: bytes

record workflow_identity =
  id_target :: workflow_target
  id_instance :: nat
  id_external :: bytes
  id_generation :: int
  id_nonce :: nat
  id_operation :: nat
  id_batch :: nat
  id_created :: int
  id_schedule :: "(bytes \<times> int) option"

record run_lease =
  rl_token :: nat
  rl_claimed :: int
  rl_until :: int

record workflow_instance =
  wi_identity :: workflow_identity
  wi_input :: bytes
  wi_retention :: workflow_retention
  wi_state :: workflow_state
  wi_output :: "bytes option"
  wi_error :: "error_code option"
  wi_next_run :: "int option"
  wi_run :: "run_lease option"
  wi_updated :: int
  wi_terminal_at :: "int option"
  wi_expires_at :: "int option"
  wi_pause_requested :: bool
  wi_yield_requested :: bool
  wi_rollback_requested :: bool
  wi_has_activated :: bool
  wi_registered :: nat
  wi_settled :: nat
  wi_completed :: nat
  wi_next_wake :: "int option"
  wi_event_count :: nat
  wi_event_bytes :: nat
  wi_next_event_seq :: int
  wi_state_bytes :: nat

abbreviation wi_id :: "workflow_instance \<Rightarrow> nat" where
  "wi_id i \<equiv> id_instance (wi_identity i)"

abbreviation wi_generation :: "workflow_instance \<Rightarrow> int" where
  "wi_generation i \<equiv> id_generation (wi_identity i)"

datatype workflow_step_kind = DoKind | SleepKind | SleepUntilKind | WaitEventKind

datatype durable_config =
    Do workflow_step_config
  | Sleep nat
  | SleepUntil int
  | WaitEvent bytes nat

record step_descriptor =
  sd_ordinal :: nat
  sd_name :: bytes
  sd_name_count :: nat
  sd_config :: durable_config
  sd_rollback_config :: "workflow_step_config option"
  sd_rollback_step :: bool
  sd_dependencies :: "nat list"
  sd_batch_first :: nat
  sd_batch_size :: nat

datatype step_state = Pending | StepRunning | DelayPending | RetryWait | StepWaiting
  | StepComplete | StepFailed | Cancelled

text \<open>
  The \<open>output_json\<close> of a callback is its value; that of an event wait is the JSON envelope of
  the consumed event, kept with its fields and its rendering.
\<close>

datatype step_output = Value bytes | Envelope bytes bytes int bytes

record workflow_step =
  st_instance :: nat
  st_generation :: int
  st_descriptor :: step_descriptor
  st_config_bytes :: nat
  st_state :: step_state
  st_attempt :: nat
  st_tokens :: "(nat \<times> nat) option"
  st_output :: "step_output option"
  st_error :: "error_code option"
  st_started :: int
  st_updated :: int
  st_completed_at :: "int option"
  st_window :: "(int \<times> int) option"
  st_due :: "int option"
  st_retry_delay :: "nat option"
  st_cancelled_at :: "int option"
  st_ceiling :: "int option"
  st_consumed :: "int option"

abbreviation st_ordinal :: "workflow_step \<Rightarrow> nat" where
  "st_ordinal s \<equiv> sd_ordinal (st_descriptor s)"

abbreviation st_deadline :: "workflow_step \<Rightarrow> int option" where
  "st_deadline s \<equiv> map_option snd (st_window s)"

record workflow_event =
  ev_instance :: nat
  ev_generation :: int
  ev_seq :: int
  ev_type :: bytes
  ev_payload :: bytes
  ev_accepted :: int
  ev_bytes :: nat

record event_receipt =
  er_operation :: nat
  er_instance :: nat
  er_generation :: int
  er_type :: bytes
  er_digest :: bytes
  er_accepted :: int

record workflow_store =
  wf_owner :: nat
  wf_instances :: "workflow_instance list"
  wf_steps :: "workflow_step list"
  wf_events :: "workflow_event list"
  wf_receipts :: "event_receipt list"

definition empty_workflows :: "nat \<Rightarrow> workflow_store" where
  "empty_workflows owner = \<lparr>wf_owner = owner, wf_instances = [], wf_steps = [], wf_events = [], wf_receipts = []\<rparr>"

type_synonym 'a wtx = "(workflow_store, 'a) stx"

record workflow_fence =
  fc_instance :: nat
  fc_generation :: int
  fc_token :: nat

section \<open>Descriptors\<close>

fun config_kind :: "durable_config \<Rightarrow> workflow_step_kind" where
  "config_kind (Do c) = DoKind"
| "config_kind (Sleep n) = SleepKind"
| "config_kind (SleepUntil t) = SleepUntilKind"
| "config_kind (WaitEvent ty n) = WaitEventKind"

abbreviation st_kind :: "workflow_step \<Rightarrow> workflow_step_kind" where
  "st_kind s \<equiv> config_kind (sd_config (st_descriptor s))"

definition validate_workflow_event_type :: "bytes \<Rightarrow> unit result" where
  "validate_workflow_event_type value =
     (case validate_workflow_instance_id value of Inl e \<Rightarrow> Inl WorkflowEventTypeInvalid | Inr u \<Rightarrow> Inr u)"

definition config_validate :: "durable_config \<Rightarrow> unit result" where
  "config_validate c =
     (case c of
        Do config \<Rightarrow> step_config_validate config
      | Sleep duration \<Rightarrow>
          if duration \<le> workflow_max_duration_ms then Inr () else Inl WorkflowDurationInvalid
      | SleepUntil timestamp \<Rightarrow>
          if nat \<bar>timestamp\<bar> \<le> workflow_max_safe_integer then Inr () else Inl WorkflowDurationInvalid
      | WaitEvent event_type timeout \<Rightarrow>
          if timeout \<le> workflow_max_duration_ms then validate_workflow_event_type event_type
          else Inl WorkflowDurationInvalid)"

definition descriptor_validate :: "step_descriptor \<Rightarrow> unit result" where
  "descriptor_validate d =
     rbind (config_validate (sd_config d)) (\<lambda>_.
     rbind (case sd_rollback_config d of None \<Rightarrow> Inr ()
            | Some config \<Rightarrow>
                if config_kind (sd_config d) \<noteq> DoKind \<or> sd_rollback_step d then Inl WorkflowStepConfigUnsupported
                else step_config_validate config) (\<lambda>_.
     if sd_rollback_step d \<and> config_kind (sd_config d) \<noteq> DoKind then Inl WorkflowStepConfigUnsupported
     else if sd_ordinal d \<ge> 1024 then Inl WorkflowStepLimitExceeded
     else if sd_name d = [] \<or> length (sd_name d) > 256 \<or> sd_name_count d = 0 then Inl WorkflowSerializationUnsupported
     else if sd_batch_size d = 0 \<or> sd_batch_size d > 16 \<or> length (sd_dependencies d) > 16 then Inl WorkflowStepLimitExceeded
     else if sd_batch_first d > sd_ordinal d
       \<or> \<not> (sd_ordinal d < sd_batch_first d + sd_batch_size d \<and> sd_batch_first d + sd_batch_size d \<le> 1024)
       \<or> \<not> sorted_wrt (<) (sd_dependencies d)
       \<or> (sd_dependencies d \<noteq> [] \<and> last (sd_dependencies d) \<ge> sd_batch_first d)
       \<or> (sd_batch_first d = 0 \<and> sd_dependencies d \<noteq> [])
     then Inl WorkflowSerializationUnsupported
     else Inr ()))"

text \<open>The rendering of a descriptor's configuration by \<open>serde_json\<close> is the argument \<open>config_json\<close>.\<close>

definition descriptor_state_bytes :: "(step_descriptor \<Rightarrow> bytes) \<Rightarrow> step_descriptor \<Rightarrow> nat result" where
  "descriptor_state_bytes config_json d =
     rbind (descriptor_validate d) (\<lambda>_.
     Inr (160 + length (sd_name d) + length (config_json d) + 16 * length (sd_dependencies d)))"

section \<open>Helpers of the store\<close>

definition failure_json :: string where
  \<open>failure_json = ''{"name":"Error","message":"Workflow execution failed"}''\<close>

definition terminal_error_code :: "error_code \<Rightarrow> error_code result" where
  "terminal_error_code code =
     (if code \<in> {WorkflowExecutionFailed, WorkflowNonDeterministic, WorkflowStepConfigUnsupported,
         WorkflowMethodUnsupported, WorkflowSerializationUnsupported, WorkflowResultTooLarge,
         WorkflowStateQuotaExceeded, WorkflowStepLimitExceeded, ArtifactIntegrityError, WorkflowStepTimeout,
         WorkflowStepRetriesExhausted, WorkflowNonRetryable, WorkflowEventTimeout, WorkflowDurationInvalid,
         WorkflowEventTypeInvalid}
      then Inr code else Inl WorkflowInvariantViolation)"

definition lease_deadline :: "int \<Rightarrow> nat \<Rightarrow> int result" where
  "lease_deadline now_ms duration =
     rbind (ok_or LimitInvalid (i64_of_u64 duration)) (\<lambda>d. ok_or LimitInvalid (checked_add_i64 now_ms d))"

definition durable_deadline :: "int \<Rightarrow> nat \<Rightarrow> int result" where
  "durable_deadline now_ms duration =
     rbind (lease_deadline now_ms duration) (\<lambda>v.
     if nat \<bar>v\<bar> > workflow_max_safe_integer then Inl WorkflowDurationInvalid else Inr v)"

definition bounded_page :: "nat \<Rightarrow> unit result" where
  "bounded_page limit = (if limit = 0 \<or> limit > 1000 then Inl LimitInvalid else Inr ())"

definition initial_state_bytes :: "workflow_identity \<Rightarrow> nat \<Rightarrow> nat" where
  "initial_state_bytes i input_bytes =
     input_bytes + 256 + length (tg_definition_name (id_target i)) + length (id_external i)
     + length (tg_class_name (id_target i))
     + (case id_schedule i of None \<Rightarrow> 0 | Some (cron, t) \<Rightarrow> length cron + 16)"

text \<open>Base64 (standard alphabet) is an argument of the value validation: its decoder and encoder.\<close>

definition durable_header :: bytes where "durable_header = [79, 67, 68, 86, 1, 2]"

definition durable_value_base64 ::
  "(bytes \<Rightarrow> bytes option) \<Rightarrow> (bytes \<Rightarrow> bytes) \<Rightarrow> bytes \<Rightarrow> error_code \<Rightarrow> bytes result" where
  "durable_value_base64 decode encode input size_error =
     (if length input > 1398112 \<or> length input mod 4 \<noteq> 0 then Inl size_error
      else case decode input of
        None \<Rightarrow> Inl WorkflowSerializationUnsupported
      | Some decoded \<Rightarrow>
          if length decoded > workflow_value_max_bytes then Inl size_error
          else if take 6 decoded \<noteq> durable_header \<or> encode decoded \<noteq> input then Inl WorkflowSerializationUnsupported
          else Inr input)"

section \<open>Accounting\<close>

text \<open>The view \<open>workflow_accounting\<close>: what an instance retains, recomputed from its history.\<close>

fun output_bytes :: "step_output \<Rightarrow> nat" where
  "output_bytes (Value v) = length v"
| "output_bytes (Envelope ty payload accepted wire) = length wire"

definition steps_of :: "workflow_store \<Rightarrow> nat \<Rightarrow> workflow_step list" where
  "steps_of d i = filter (\<lambda>s. st_instance s = i) (wf_steps d)"

definition events_of :: "workflow_store \<Rightarrow> nat \<Rightarrow> workflow_event list" where
  "events_of d i = filter (\<lambda>e. ev_instance e = i) (wf_events d)"

definition step_bytes :: "workflow_step \<Rightarrow> nat" where
  "step_bytes s = 160 + length (sd_name (st_descriptor s)) + st_config_bytes s
     + (case st_output s of None \<Rightarrow> 0 | Some v \<Rightarrow> output_bytes v)
     + (if st_error s = None then 0 else length failure_json)
     + 16 * length (sd_dependencies (st_descriptor s))"

definition step_wake :: "workflow_step \<Rightarrow> int option" where
  "step_wake s =
     (if st_state s \<in> {Pending, StepRunning} then st_deadline s
      else if st_state s = DelayPending then Some (st_updated s)
      else if st_state s \<in> {StepWaiting, RetryWait} then st_due s
      else None)"

definition settled_state :: "step_state \<Rightarrow> bool" where
  "settled_state s \<longleftrightarrow> s = StepComplete \<or> s = StepFailed"

definition result_bytes :: "workflow_instance \<Rightarrow> nat" where
  "result_bytes i = (case wi_output i of None \<Rightarrow> 0 | Some v \<Rightarrow> length v)
     + (if wi_error i = None then 0 else length failure_json)"

definition account :: "workflow_store \<Rightarrow> workflow_instance \<Rightarrow> workflow_instance" where
  "account d i = i
     \<lparr>wi_registered := length (steps_of d (wi_id i)),
      wi_settled := length (filter (\<lambda>s. settled_state (st_state s)) (steps_of d (wi_id i))),
      wi_completed := length (filter (\<lambda>s. st_state s = StepComplete) (steps_of d (wi_id i))),
      wi_next_wake := min_opt (List.map_filter step_wake (steps_of d (wi_id i))),
      wi_event_count := length (events_of d (wi_id i)),
      wi_event_bytes := sum_list (map ev_bytes (events_of d (wi_id i))),
      wi_state_bytes := initial_state_bytes (wi_identity i) (length (wi_input i)) + result_bytes i
        + sum_list (map step_bytes (steps_of d (wi_id i))) + sum_list (map ev_bytes (events_of d (wi_id i)))\<rparr>"

section \<open>Constraints\<close>

definition run_columns_ok :: "workflow_instance \<Rightarrow> bool" where
  "run_columns_ok i =
     (case wi_state i of
        Queued \<Rightarrow> wi_next_run i \<noteq> None \<and> wi_run i = None \<and> wi_terminal_at i = None
      | Running \<Rightarrow> wi_next_run i = None \<and> wi_terminal_at i = None
          \<and> (case wi_run i of None \<Rightarrow> False | Some l \<Rightarrow> rl_until l > rl_claimed l)
      | Waiting \<Rightarrow> wi_next_run i = None \<and> wi_run i = None \<and> wi_terminal_at i = None
      | Paused \<Rightarrow> wi_next_run i = None \<and> wi_run i = None \<and> wi_terminal_at i = None
      | _ \<Rightarrow> wi_next_run i = None \<and> wi_run i = None \<and> wi_terminal_at i \<noteq> None \<and> wi_next_wake i = None)"

definition expiry_ok :: "workflow_instance \<Rightarrow> bool" where
  "expiry_ok i =
     (case (wi_terminal_at i, wi_expires_at i) of
        (None, None) \<Rightarrow> True
      | (Some t, Some e) \<Rightarrow> e \<le> 9007199254740991
          \<and> e = t + int (if wi_state i = Completed then success_retention_ms (wi_retention i)
                         else error_retention_ms (wi_retention i))
      | _ \<Rightarrow> False)"

text \<open>\<open>length\<close> of a \<open>TEXT\<close> column counts characters: the bytes that do not continue one.\<close>

definition text_length :: "bytes \<Rightarrow> nat" where
  "text_length v = length (filter (\<lambda>b. b div 64 \<noteq> 2) v)"

definition identity_columns_ok :: "workflow_identity \<Rightarrow> bool" where
  "identity_columns_ok i \<longleftrightarrow> tg_loader_schema (id_target i) > 0 \<and> id_generation i \<ge> 1
     \<and> (case id_schedule i of None \<Rightarrow> True
        | Some (cron, t) \<Rightarrow> 1 \<le> text_length cron \<and> text_length cron \<le> 256 \<and> t \<ge> 0)"

definition instance_checks :: "workflow_instance \<Rightarrow> bool" where
  "instance_checks i \<longleftrightarrow> run_columns_ok i \<and> expiry_ok i \<and> identity_columns_ok (wi_identity i)
     \<and> length (wi_input i) \<le> 1398112 \<and> (case wi_output i of None \<Rightarrow> True | Some v \<Rightarrow> length v \<le> 1398112)
     \<and> (wi_state i = Completed \<longleftrightarrow> wi_output i \<noteq> None)
     \<and> (wi_state i = Errored \<longleftrightarrow> wi_error i \<noteq> None)
     \<and> (wi_state i = Running \<or> \<not> wi_pause_requested i \<and> \<not> wi_yield_requested i)
     \<and> (is_terminal (wi_state i) \<longrightarrow> \<not> wi_rollback_requested i)
     \<and> success_retention_ms (wi_retention i) \<le> 31536000000 \<and> error_retention_ms (wi_retention i) \<le> 31536000000
     \<and> wi_completed i \<le> wi_settled i \<and> wi_settled i \<le> wi_registered i \<and> wi_registered i \<le> 1024
     \<and> wi_next_event_seq i \<ge> 1"

definition step_columns_ok :: "workflow_step \<Rightarrow> bool" where
  "step_columns_ok s \<longleftrightarrow>
     (st_tokens s \<noteq> None \<longleftrightarrow> st_state s = StepRunning)
     \<and> (st_state s = StepRunning \<longrightarrow> st_kind s = DoKind)
     \<and> (st_completed_at s \<noteq> None \<longleftrightarrow> settled_state (st_state s))
     \<and> (st_cancelled_at s \<noteq> None \<longleftrightarrow> st_state s = Cancelled)
     \<and> (st_due s \<noteq> None \<longleftrightarrow> st_state s \<in> {RetryWait, StepWaiting})
     \<and> (st_retry_delay s \<noteq> None \<longleftrightarrow> st_state s = RetryWait)
     \<and> (case st_retry_delay s of None \<Rightarrow> True
        | Some n \<Rightarrow> n \<le> 86400000 \<and> st_due s = Some (st_updated s + int n))
     \<and> (st_state s = RetryWait \<longrightarrow> st_kind s = DoKind \<and> st_error s \<noteq> None)
     \<and> (st_state s = StepWaiting \<longrightarrow> st_kind s \<noteq> DoKind)
     \<and> (st_state s = StepFailed \<longrightarrow> st_error s \<noteq> None)
     \<and> (st_state s \<in> {StepFailed, DelayPending, RetryWait} \<or> st_error s = None)
     \<and> (st_output s \<noteq> None \<longleftrightarrow> st_state s = StepComplete \<and> st_kind s \<in> {DoKind, WaitEventKind})"

definition step_kind_ok :: "workflow_step \<Rightarrow> bool" where
  "step_kind_ok s \<longleftrightarrow>
     st_attempt s \<le> 101 \<and> (st_kind s = DoKind \<or> st_attempt s = 0)
     \<and> (case st_window s of None \<Rightarrow> True | Some (b, e) \<Rightarrow> e > b)
     \<and> (case st_ceiling s of None \<Rightarrow> True | Some c \<Rightarrow> st_kind s = WaitEventKind \<and> c \<ge> 0)
     \<and> (case st_consumed s of None \<Rightarrow> True
        | Some c \<Rightarrow> st_kind s = WaitEventKind \<and> st_state s = StepComplete \<and> c \<ge> 1)
     \<and> (st_kind s = DoKind \<longrightarrow> st_attempt s = 0 \<and> st_state s \<in> {Pending, Cancelled} \<and> st_window s = None
          \<or> st_attempt s \<ge> 1 \<and> st_window s \<noteq> None)
     \<and> (st_kind s \<noteq> DoKind \<longrightarrow> st_window s = None \<and> st_state s \<in> {StepWaiting, StepComplete, StepFailed, Cancelled})
     \<and> (st_kind s = WaitEventKind \<longrightarrow> st_ceiling s \<noteq> None \<and> (st_state s = StepComplete \<longrightarrow> st_consumed s \<noteq> None))"

definition step_shape_ok :: "workflow_step \<Rightarrow> bool" where
  "step_shape_ok s \<longleftrightarrow> (let d = st_descriptor s in
     sd_ordinal d \<le> 1023 \<and> 1 \<le> length (sd_name d) \<and> length (sd_name d) \<le> 256 \<and> sd_name_count d > 0
     \<and> st_config_bytes s \<le> 4096 \<and> sd_batch_first d \<le> 1023 \<and> 1 \<le> sd_batch_size d \<and> sd_batch_size d \<le> 16
     \<and> length (sd_dependencies d) \<le> 16
     \<and> sd_ordinal d \<ge> sd_batch_first d \<and> sd_ordinal d < sd_batch_first d + sd_batch_size d
     \<and> sd_batch_first d + sd_batch_size d \<le> 1024
     \<and> (case st_output s of None \<Rightarrow> True
        | Some v \<Rightarrow> output_bytes v \<le> (if st_kind s = WaitEventKind then 1400160 else 1398112)))"

definition step_checks :: "workflow_step \<Rightarrow> bool" where
  "step_checks s \<longleftrightarrow> step_columns_ok s \<and> step_kind_ok s \<and> step_shape_ok s"

section \<open>Statements on \<open>workflow_instances\<close>\<close>

definition find_instance :: "workflow_store \<Rightarrow> nat \<Rightarrow> workflow_instance option" where
  "find_instance d i = List.find (\<lambda>w. wi_id w = i) (wf_instances d)"

text \<open>
  The guards on updates: the identity columns never change, the counters are those of the
  accounting view, a run keeps its token and never shortens its lease, a run is given up
  before its lease ends only when asked, and never finishes after it; terminal rows are
  immutable. The guards on the state and on the unsettled frontier fire only for statements
  that set \<open>state\<close>.
\<close>

definition identity_ok :: "workflow_instance \<Rightarrow> workflow_instance \<Rightarrow> bool" where
  "identity_ok old new \<longleftrightarrow> wi_identity new = wi_identity old \<and> wi_input new = wi_input old
     \<and> wi_retention new = wi_retention old"

definition run_guard :: "workflow_instance \<Rightarrow> workflow_instance \<Rightarrow> bool" where
  "run_guard old new \<longleftrightarrow>
     (wi_state old = Running \<longrightarrow> (case wi_run old of None \<Rightarrow> False | Some l \<Rightarrow>
        (wi_state new = Running \<longrightarrow> (case wi_run new of None \<Rightarrow> False | Some l' \<Rightarrow>
            rl_token l' = rl_token l \<and> rl_claimed l' = rl_claimed l \<and> rl_until l' \<ge> rl_until l
            \<and> (wi_pause_requested old \<longrightarrow> wi_pause_requested new) \<and> (wi_yield_requested old \<longrightarrow> wi_yield_requested new)))
        \<and> (wi_state new \<in> {Queued, Waiting, Paused} \<longrightarrow>
            wi_updated new \<ge> rl_until l \<or> wi_yield_requested old \<or> wi_pause_requested old \<or> wi_rollback_requested new)
        \<and> (is_terminal (wi_state new) \<longrightarrow> wi_updated new < rl_until l)))
     \<and> (wi_state new = Running \<longrightarrow> wi_has_activated new)"

definition instance_transition_guard :: "workflow_state \<Rightarrow> workflow_state \<Rightarrow> bool" where
  "instance_transition_guard old new \<longleftrightarrow> new = old
     \<or> old = Queued \<and> new \<in> {Running, Paused, Terminated}
     \<or> old = Running \<and> new \<in> {Queued, Waiting, Paused, Completed, Errored, Terminated}
     \<or> old = Waiting \<and> new \<in> {Queued, Paused, Terminated}
     \<or> old = Paused \<and> new \<in> {Queued, Waiting, Terminated}"

definition has_step :: "workflow_store \<Rightarrow> nat \<Rightarrow> step_state set \<Rightarrow> bool" where
  "has_step d i states \<longleftrightarrow> list_ex (\<lambda>s. st_state s \<in> states) (steps_of d i)"

definition frontier_guard :: "workflow_store \<Rightarrow> workflow_instance \<Rightarrow> bool" where
  "frontier_guard d new \<longleftrightarrow>
     (wi_state new \<noteq> Running \<longrightarrow> \<not> has_step d (wi_id new) {StepRunning})
     \<and> (wi_state new = Completed \<longrightarrow> wi_settled new = wi_registered new)
     \<and> (is_terminal (wi_state new) \<longrightarrow> \<not> has_step d (wi_id new) {Pending, DelayPending, StepWaiting, RetryWait})
     \<and> (wi_state new = Waiting \<longrightarrow> wi_next_wake new \<noteq> None \<and> \<not> has_step d (wi_id new) {Pending, DelayPending})"

definition event_sequence_guard :: "workflow_store \<Rightarrow> workflow_instance \<Rightarrow> workflow_instance \<Rightarrow> bool" where
  "event_sequence_guard d old new \<longleftrightarrow> wi_next_event_seq new = wi_next_event_seq old
     \<or> wi_next_event_seq new = wi_next_event_seq old + 1
       \<and> list_ex (\<lambda>e. ev_seq e = wi_next_event_seq old) (events_of d (wi_id old))"

definition replace_instance :: "workflow_instance \<Rightarrow> workflow_store \<Rightarrow> workflow_store" where
  "replace_instance new d = d\<lparr>wf_instances := map (\<lambda>w. if wi_id w = wi_id new then new else w) (wf_instances d)\<rparr>"

definition update_instance :: "bool \<Rightarrow> workflow_instance \<Rightarrow> workflow_instance \<Rightarrow> unit wtx" where
  "update_instance sets_state old new d =
     (if identity_ok old new \<and> account d new = new \<and> run_guard old new \<and> \<not> is_terminal (wi_state old)
        \<and> (sets_state \<longrightarrow> instance_transition_guard (wi_state old) (wi_state new) \<and> frontier_guard d new)
        \<and> event_sequence_guard d old new \<and> instance_checks new
      then Inr ((), replace_instance new d) else Inl WorkflowInvariantViolation)"

text \<open>An update whose \<open>WHERE\<close> selects by the key: nothing happens when no row matches.\<close>

definition update_where ::
  "bool \<Rightarrow> nat \<Rightarrow> (workflow_instance \<Rightarrow> bool) \<Rightarrow> (workflow_instance \<Rightarrow> workflow_instance) \<Rightarrow> nat wtx" where
  "update_where sets_state i p f d =
     (case find_instance d i of
        None \<Rightarrow> Inr (0, d)
      | Some w \<Rightarrow> if p w then andthen (update_instance sets_state w (f w)) (\<lambda>_. ret 1) d else Inr (0, d))"

text \<open>The accounting triggers: the counters follow every change of the history.\<close>

definition recount :: "nat \<Rightarrow> unit wtx" where
  "recount i d = (case find_instance d i of None \<Rightarrow> Inr ((), d) | Some w \<Rightarrow> update_instance False w (account d w) d)"

definition insert_instance :: "workflow_instance \<Rightarrow> unit wtx" where
  "insert_instance w d =
     (if list_ex (\<lambda>v. wi_id v = wi_id w \<or> id_operation (wi_identity v) = id_operation (wi_identity w)
          \<or> tg_definition (id_target (wi_identity v)) = tg_definition (id_target (wi_identity w))
            \<and> id_external (wi_identity v) = id_external (wi_identity w)) (wf_instances d)
        \<or> \<not> instance_checks w
        \<or> wi_state w \<noteq> Queued \<or> wi_generation w \<noteq> 1 \<or> wi_completed w \<noteq> 0 \<or> wi_registered w \<noteq> 0 \<or> wi_settled w \<noteq> 0
        \<or> wi_event_count w \<noteq> 0 \<or> wi_event_bytes w \<noteq> 0 \<or> wi_next_event_seq w \<noteq> 1 \<or> wi_has_activated w
        \<or> wi_rollback_requested w \<or> wi_next_wake w \<noteq> None
        \<or> wi_state_bytes w \<noteq> initial_state_bytes (wi_identity w) (length (wi_input w))
      then Inl WorkflowInvariantViolation
      else Inr ((), d\<lparr>wf_instances := wf_instances d @ [w]\<rparr>))"

section \<open>Statements on \<open>workflow_steps\<close> and \<open>workflow_events\<close>\<close>

definition step_key :: "workflow_step \<Rightarrow> nat \<times> int \<times> nat" where
  "step_key s = (st_instance s, st_generation s, st_ordinal s)"

definition owner_is :: "workflow_store \<Rightarrow> workflow_step \<Rightarrow> (workflow_instance \<Rightarrow> bool) \<Rightarrow> bool" where
  "owner_is d s p = (case find_instance d (st_instance s) of None \<Rightarrow> False | Some w \<Rightarrow> p w)"

definition runs_under :: "nat option \<Rightarrow> (int \<Rightarrow> bool) \<Rightarrow> workflow_instance \<Rightarrow> bool" where
  "runs_under token lease w \<longleftrightarrow> wi_state w = Running
     \<and> (case wi_run w of None \<Rightarrow> False | Some l \<Rightarrow> Some (rl_token l) = token \<and> lease (rl_until l))"

abbreviation run_token_of :: "workflow_step \<Rightarrow> nat option" where
  "run_token_of s \<equiv> map_option fst (st_tokens s)"

definition before_or_at :: "int option \<Rightarrow> int \<Rightarrow> bool" where
  "before_or_at t now \<longleftrightarrow> (case t of None \<Rightarrow> False | Some v \<Rightarrow> v \<le> now)"

definition grant_guard :: "workflow_store \<Rightarrow> workflow_step \<Rightarrow> workflow_step \<Rightarrow> bool" where
  "grant_guard d old new \<longleftrightarrow> st_state old \<in> {Pending, RetryWait} \<and> st_state new = StepRunning
     \<and> \<not> before_or_at (st_deadline new) (st_updated new)
     \<and> (st_state old = RetryWait \<longrightarrow> before_or_at (st_due old) (st_updated new) \<and> st_attempt new = st_attempt old + 1)
     \<and> length (filter (\<lambda>s. sd_batch_first (st_descriptor s) = sd_batch_first (st_descriptor old)) (steps_of d (st_instance old)))
       = sd_batch_size (st_descriptor old)
     \<and> owner_is d old (\<lambda>w. runs_under (run_token_of new) (\<lambda>t. t > st_updated new) w
         \<and> \<not> wi_pause_requested w \<and> \<not> wi_yield_requested w)"

definition step_transition_guard :: "workflow_store \<Rightarrow> workflow_step \<Rightarrow> workflow_step \<Rightarrow> bool" where
  "step_transition_guard d old new \<longleftrightarrow> (let live = owner_is d old (\<lambda>w. \<not> is_terminal (wi_state w)) in
     grant_guard d old new
     \<or> st_state old = StepRunning \<and> st_state new \<in> {StepComplete, StepFailed, RetryWait}
       \<and> (st_state new = StepComplete \<longrightarrow> \<not> before_or_at (st_deadline old) (st_updated new))
       \<and> owner_is d old (runs_under (run_token_of old) (\<lambda>t. t > st_updated new))
     \<or> st_state old = StepRunning \<and> st_state new = Pending
       \<and> owner_is d old (runs_under (run_token_of old) (\<lambda>t. t \<le> st_updated new))
     \<or> st_state old = StepRunning \<and> st_state new = DelayPending \<and> before_or_at (st_deadline old) (st_updated new)
       \<and> st_error new = Some WorkflowStepTimeout \<and> owner_is d old (runs_under (run_token_of old) (\<lambda>t. True))
     \<or> st_state old = Pending \<and> st_attempt old > 0 \<and> before_or_at (st_deadline old) (st_updated new)
       \<and> (st_state new \<in> {StepFailed, RetryWait} \<or> st_state new = DelayPending \<and> st_error new = Some WorkflowStepTimeout) \<and> live
     \<or> st_state old = DelayPending \<and> st_state new \<in> {StepFailed, RetryWait} \<and> live
     \<or> st_state old = StepWaiting \<and> st_state new \<in> {StepComplete, StepFailed} \<and> live
     \<or> st_state new = Cancelled \<and> st_state old \<in> {Pending, StepRunning, DelayPending, StepWaiting, RetryWait} \<and> live)"

definition attempt_guard :: "workflow_step \<Rightarrow> workflow_step \<Rightarrow> bool" where
  "attempt_guard old new \<longleftrightarrow> st_attempt new = st_attempt old \<and> st_window new = st_window old
     \<or> (case sd_config (st_descriptor new) of
          Do c \<Rightarrow> st_state new = StepRunning \<and> st_attempt new = st_attempt old + 1
            \<and> (st_state old = Pending \<and> st_attempt old = 0 \<or> st_state old = RetryWait \<and> before_or_at (st_due old) (st_updated new))
            \<and> st_window new = Some (st_updated new, st_updated new + int (sc_timeout c))
            \<and> st_attempt new \<le> 1 + rp_limit (sc_retries c)
        | _ \<Rightarrow> False)"

definition matching_events :: "workflow_store \<Rightarrow> workflow_step \<Rightarrow> workflow_event list" where
  "matching_events d s =
     (case sd_config (st_descriptor s) of
        WaitEvent ty timeout \<Rightarrow> filter (\<lambda>e. ev_generation e = st_generation s \<and> ev_type e = ty) (events_of d (st_instance s))
      | _ \<Rightarrow> [])"

definition in_time :: "workflow_step \<Rightarrow> workflow_event \<Rightarrow> bool" where
  "in_time s e \<longleftrightarrow> (case st_due s of None \<Rightarrow> False | Some due \<Rightarrow> ev_accepted e < due)
     \<or> (case st_ceiling s of None \<Rightarrow> False | Some c \<Rightarrow> ev_seq e \<le> c)"

definition wait_settlement_guard :: "workflow_store \<Rightarrow> workflow_step \<Rightarrow> workflow_step \<Rightarrow> bool" where
  "wait_settlement_guard d old new \<longleftrightarrow> (st_state old = StepWaiting \<longrightarrow>
     (st_state new = StepComplete \<and> st_kind old \<in> {SleepKind, SleepUntilKind} \<longrightarrow> before_or_at (st_due old) (st_updated new))
     \<and> (st_state new = StepComplete \<and> st_kind old = WaitEventKind \<longrightarrow>
          list_ex (\<lambda>e. Some (ev_seq e) = st_consumed new \<and> in_time old e
            \<and> list_all (\<lambda>p. ev_seq p \<ge> ev_seq e) (matching_events d old)
            \<and> list_all (\<lambda>s. st_consumed s \<noteq> Some (ev_seq e)) (steps_of d (st_instance old))
            \<and> (case st_output new of Some (Envelope ty payload accepted wire) \<Rightarrow>
                 ty = ev_type e \<and> payload = ev_payload e \<and> accepted = ev_accepted e | _ \<Rightarrow> False)) (matching_events d old))
     \<and> (st_state new = StepFailed \<longrightarrow> st_kind old = WaitEventKind \<and> before_or_at (st_due old) (st_updated new)
          \<and> st_error new = Some WorkflowEventTimeout \<and> \<not> list_ex (in_time old) (matching_events d old)))"

definition step_identity_ok :: "workflow_step \<Rightarrow> workflow_step \<Rightarrow> bool" where
  "step_identity_ok old new \<longleftrightarrow> step_key new = step_key old \<and> st_descriptor new = st_descriptor old
     \<and> st_config_bytes new = st_config_bytes old \<and> st_started new = st_started old \<and> st_ceiling new = st_ceiling old"

definition replace_step :: "workflow_step \<Rightarrow> workflow_store \<Rightarrow> workflow_store" where
  "replace_step new d = d\<lparr>wf_steps := map (\<lambda>s. if step_key s = step_key new then new else s) (wf_steps d)\<rparr>"

definition update_step :: "workflow_step \<Rightarrow> workflow_step \<Rightarrow> unit wtx" where
  "update_step old new d =
     (if step_identity_ok old new \<and> attempt_guard old new \<and> st_state old \<notin> {StepComplete, StepFailed, Cancelled}
        \<and> step_transition_guard d old new \<and> wait_settlement_guard d old new \<and> step_checks new
      then recount (st_instance old) (replace_step new d) else Inl WorkflowInvariantViolation)"

text \<open>An update of the row with a given key, and one of several rows: each in turn, followed by its trigger.\<close>

definition update_step_at :: "nat \<times> int \<times> nat \<Rightarrow> (workflow_step \<Rightarrow> workflow_step) \<Rightarrow> unit wtx" where
  "update_step_at key f d =
     (case List.find (\<lambda>s. step_key s = key) (wf_steps d) of None \<Rightarrow> Inr ((), d) | Some s \<Rightarrow> update_step s (f s) d)"

definition update_steps_where :: "(workflow_step \<Rightarrow> bool) \<Rightarrow> (workflow_step \<Rightarrow> workflow_step) \<Rightarrow> unit wtx" where
  "update_steps_where p f =
     andthen (reading (\<lambda>d. filter p (wf_steps d))) (for_each (\<lambda>s. update_step_at (step_key s) f))"

definition registration_guard :: "workflow_store \<Rightarrow> workflow_step \<Rightarrow> bool" where
  "registration_guard d s \<longleftrightarrow> (let c = st_descriptor s in
     owner_is d s (\<lambda>w. wi_generation w = st_generation s \<and> wi_state w = Running
       \<and> (case wi_run w of None \<Rightarrow> False | Some l \<Rightarrow> rl_until l > st_updated s)
       \<and> \<not> wi_pause_requested w \<and> \<not> wi_yield_requested w
       \<and> wi_rollback_requested w = sd_rollback_step c \<and> wi_registered w = sd_ordinal c)
     \<and> st_attempt s = 0 \<and> st_state s = (if st_kind s = DoKind then Pending else StepWaiting)
     \<and> sd_name_count c = 1 + length (filter (\<lambda>t. st_kind t = st_kind s \<and> sd_name (st_descriptor t) = sd_name c)
         (steps_of d (st_instance s)))
     \<and> (sd_ordinal c = sd_batch_first c \<or> list_ex (\<lambda>t. st_ordinal t = sd_batch_first c
          \<and> sd_batch_size (st_descriptor t) = sd_batch_size c
          \<and> length (sd_dependencies (st_descriptor t)) = length (sd_dependencies c)) (steps_of d (st_instance s))))"

definition registration_deadline_guard :: "workflow_store \<Rightarrow> workflow_step \<Rightarrow> bool" where
  "registration_deadline_guard d s =
     (case sd_config (st_descriptor s) of
        Do c \<Rightarrow> True
      | Sleep duration \<Rightarrow> st_due s = Some (st_started s + int duration)
      | SleepUntil timestamp \<Rightarrow> st_due s = Some timestamp
      | WaitEvent ty timeout \<Rightarrow> owner_is d s (\<lambda>w. st_ceiling s = Some (wi_next_event_seq w - 1))
          \<and> st_due s = Some (st_started s + int timeout))"

text \<open>
  Registration inserts the row and one dependency row for each parent, which must be
  settled, belong to the same generation and precede the batch.
\<close>

definition dependencies_guard :: "workflow_store \<Rightarrow> workflow_step \<Rightarrow> bool" where
  "dependencies_guard d s \<longleftrightarrow> distinct (sd_dependencies (st_descriptor s))
     \<and> list_all (\<lambda>p. p < sd_batch_first (st_descriptor s) \<and> list_ex (\<lambda>t. st_generation t = st_generation s \<and> st_ordinal t = p
          \<and> settled_state (st_state t)) (steps_of d (st_instance s))) (sd_dependencies (st_descriptor s))"

definition insert_step :: "workflow_step \<Rightarrow> unit wtx" where
  "insert_step s d =
     (if registration_guard d s \<and> registration_deadline_guard d s \<and> dependencies_guard d s \<and> step_checks s
        \<and> list_all (\<lambda>t. step_key t \<noteq> step_key s \<and> \<not> (st_instance t = st_instance s \<and> st_generation t = st_generation s
            \<and> st_kind t = st_kind s \<and> sd_name (st_descriptor t) = sd_name (st_descriptor s)
            \<and> sd_name_count (st_descriptor t) = sd_name_count (st_descriptor s))) (wf_steps d)
      then recount (st_instance s) (d\<lparr>wf_steps := wf_steps d @ [s]\<rparr>) else Inl WorkflowInvariantViolation)"

definition insert_event :: "workflow_event \<Rightarrow> unit wtx" where
  "insert_event e d =
     (case find_instance d (ev_instance e) of
        None \<Rightarrow> Inl WorkflowInvariantViolation
      | Some w \<Rightarrow>
          if validate_workflow_instance_id (ev_type e) = Inr () \<and> wi_generation w = ev_generation e
            \<and> \<not> is_terminal (wi_state w) \<and> wi_next_event_seq w = ev_seq e \<and> ev_seq e < i64_max
            \<and> length (ev_payload e) \<le> 1398112 \<and> ev_bytes e = length (ev_type e) + length (ev_payload e) + 32
            \<and> list_all (\<lambda>v. \<not> (ev_instance v = ev_instance e \<and> ev_generation v = ev_generation e \<and> ev_seq v = ev_seq e)) (wf_events d)
          then let d' = d\<lparr>wf_events := wf_events d @ [e]\<rparr>
               in update_instance False w ((account d' w)\<lparr>wi_next_event_seq := wi_next_event_seq w + 1\<rparr>) d'
          else Inl WorkflowInvariantViolation)"

definition delete_event :: "nat \<Rightarrow> int \<Rightarrow> unit wtx" where
  "delete_event i sq d =
     (if list_all (\<lambda>e. ev_instance e = i \<and> ev_seq e = sq \<longrightarrow>
          list_ex (\<lambda>s. st_generation s = ev_generation e \<and> st_kind s = WaitEventKind \<and> st_state s = StepComplete
            \<and> st_consumed s = Some sq) (steps_of d i)) (wf_events d)
      then recount i (d\<lparr>wf_events := filter (\<lambda>e. \<not> (ev_instance e = i \<and> ev_seq e = sq)) (wf_events d)\<rparr>)
      else Inl WorkflowInvariantViolation)"

definition insert_receipt :: "event_receipt \<Rightarrow> unit wtx" where
  "insert_receipt r d =
     (if list_ex (\<lambda>v. er_operation v = er_operation r) (wf_receipts d) \<or> length (er_digest r) \<noteq> 32 \<or> er_generation r < 1
      then Inl WorkflowInvariantViolation else Inr ((), d\<lparr>wf_receipts := wf_receipts d @ [r]\<rparr>))"

section \<open>Fences, leases and capacity\<close>

definition holds_run :: "workflow_fence \<Rightarrow> workflow_instance \<Rightarrow> bool" where
  "holds_run f w \<longleftrightarrow> wi_id w = fc_instance f \<and> wi_generation w = fc_generation f \<and> wi_state w = Running
     \<and> (case wi_run w of None \<Rightarrow> False | Some l \<Rightarrow> rl_token l = fc_token f)"

definition lease_live :: "int \<Rightarrow> workflow_instance \<Rightarrow> bool" where
  "lease_live now w = (case wi_run w of None \<Rightarrow> False | Some l \<Rightarrow> rl_until l > now)"

definition running :: "workflow_fence \<Rightarrow> int \<Rightarrow> workflow_instance wtx" where
  "running f now d =
     (case List.find (\<lambda>w. holds_run f w \<and> lease_live now w) (wf_instances d) of
        None \<Rightarrow> Inl WorkflowRunStale | Some w \<Rightarrow> Inr (w, d))"

definition heartbeat :: "workflow_fence \<Rightarrow> int \<Rightarrow> workflows_config \<Rightarrow> unit wtx" where
  "heartbeat f now limits =
     andthen (lift (lease_deadline now (wc_lease_ms limits))) (\<lambda>t.
     andthen (update_where False (fc_instance f) (\<lambda>w. holds_run f w \<and> lease_live now w)
       (\<lambda>w. w\<lparr>wi_run := map_option (\<lambda>l. l\<lparr>rl_until := max (rl_until l) t\<rparr>) (wi_run w), wi_updated := max (wi_updated w) now\<rparr>)) (\<lambda>n.
     require WorkflowRunStale (n = 1)))"

definition request_yield :: "workflow_fence \<Rightarrow> int \<Rightarrow> unit wtx" where
  "request_yield f now =
     andthen (update_where False (fc_instance f) (\<lambda>w. holds_run f w \<and> lease_live now w)
       (\<lambda>w. w\<lparr>wi_yield_requested := True, wi_updated := max (wi_updated w) now\<rparr>)) (\<lambda>n.
     require WorkflowRunStale (n = 1))"

definition reserving :: "workflow_step \<Rightarrow> bool" where
  "reserving s \<longleftrightarrow> st_kind s \<in> {DoKind, WaitEventKind} \<and> st_state s \<in> {Pending, StepRunning, DelayPending, StepWaiting}"

definition account_capacity :: "workflow_store \<Rightarrow> nat \<times> nat" where
  "account_capacity d =
     (sum_list (map wi_state_bytes (wf_instances d)),
      length (filter (\<lambda>w. \<not> is_terminal (wi_state w)) (wf_instances d)) + length (filter reserving (wf_steps d)))"

definition within_limit :: "int \<Rightarrow> int \<Rightarrow> nat \<Rightarrow> unit result" where
  "within_limit current change limit =
     (if current + change < 0 then Inl WorkflowInvariantViolation
      else if change > 0 \<and> current + change > int limit then Inl WorkflowStateQuotaExceeded else Inr ())"

definition capacity_change :: "workflow_store \<Rightarrow> nat \<Rightarrow> int \<Rightarrow> int \<Rightarrow> workflows_config \<Rightarrow> unit result" where
  "capacity_change d i extra_bytes extra_reservations limits =
     (case find_instance d i of
        None \<Rightarrow> Inl WorkflowInvariantViolation
      | Some w \<Rightarrow>
          let reserve = int (length failure_json);
              change = extra_bytes + extra_reservations * reserve;
              reservations = (if is_terminal (wi_state w) then 0 else 1) + length (filter reserving (steps_of d i));
              (account_bytes, account_reservations) = account_capacity d
          in rbind (within_limit (int (wi_state_bytes w) + int reservations * reserve) change (wc_max_state_bytes limits)) (\<lambda>_.
             within_limit (int account_bytes + int account_reservations * reserve) change (wc_max_total_state_bytes limits)))"

definition capacity :: "workflow_store \<Rightarrow> nat \<Rightarrow> nat \<Rightarrow> bool \<Rightarrow> workflows_config \<Rightarrow> unit result" where
  "capacity d retained extra terminal limits =
     (let (bytes, active) = account_capacity d;
          reserve = length failure_json;
          instance_reserve = (if terminal \<or> retained = 0 then 0 else reserve);
          active = active - (if terminal then 1 else 0)
      in if saturating_add_u64 (saturating_add_u64 retained extra) instance_reserve > wc_max_state_bytes limits
           \<or> saturating_add_u64 (saturating_add_u64 bytes extra) (saturating_mul_u64 active reserve) > wc_max_total_state_bytes limits
         then Inl WorkflowStateQuotaExceeded else Inr ())"

end
