(* ===== verification/Workflow_Steps.thy ===== *)
theory Workflow_Steps
  imports Workflow_Tables
begin

text \<open>
  The step protocol of a running workflow: settling waits against the event inbox and their
  deadlines (\<open>durable_waits.rs\<close>), settling callback attempts with their retry decision
  (\<open>durable_settlement.rs\<close>), and registering and granting a batch of steps
  (\<open>durable_steps.rs\<close>), all under \<open>crates/storage/src/scheduler/workflow\<close>. The renderings of
  \<open>serde_json\<close>, base64 and SHA-256 are the fields of a record of functions; random tokens
  are arguments.
\<close>

record codec =
  cd_b64_decode :: "bytes \<Rightarrow> bytes option"
  cd_b64_encode :: "bytes \<Rightarrow> bytes"
  cd_config_json :: "step_descriptor \<Rightarrow> bytes"
  cd_event_json :: "bytes \<Rightarrow> bytes \<Rightarrow> int \<Rightarrow> bytes"
  cd_sha256 :: "bytes \<Rightarrow> bytes"

abbreviation durable_value :: "codec \<Rightarrow> bytes \<Rightarrow> error_code \<Rightarrow> bytes result" where
  "durable_value cx \<equiv> durable_value_base64 (cd_b64_decode cx) (cd_b64_encode cx)"

datatype step_result =
    ResultComplete "step_output option"
  | ResultEvent bytes bytes int
  | ResultFailed error_code
  | ResultResolveDelay nat error_code workflow_step_config
  | ResultSuspended

datatype step_outcome =
    OutcomeSuccess bytes
  | OutcomeFailure error_code
  | OutcomeFailureWithDelay error_code nat
  | OutcomeTimeout

datatype step_grant =
    GrantRun nat nat nat workflow_step_config
  | GrantComplete "(nat \<times> workflow_step_config) option"
  | GrantFailed
  | GrantResolveDelay nat error_code workflow_step_config
  | GrantRollbackBoundary nat
  | GrantSuspended

definition read_step :: "workflow_store \<Rightarrow> nat \<Rightarrow> int \<Rightarrow> nat \<Rightarrow> workflow_step option" where
  "read_step d i g ordinal = List.find (\<lambda>s. step_key s = (i, g, ordinal)) (wf_steps d)"

section \<open>Settling an attempt\<close>

definition retries :: "workflow_step_config \<Rightarrow> nat \<Rightarrow> error_code \<Rightarrow> bool" where
  "retries c attempt code \<longleftrightarrow> code \<in> {WorkflowExecutionFailed, WorkflowStepTimeout} \<and> attempt \<le> rp_limit (sc_retries c)"

definition failure_code :: "workflow_step_config \<Rightarrow> nat \<Rightarrow> error_code \<Rightarrow> error_code" where
  "failure_code c attempt code =
     (if \<not> retries c attempt code \<and> code = WorkflowExecutionFailed then WorkflowStepRetriesExhausted else code)"

definition retry_schedule :: "workflow_step_config \<Rightarrow> nat \<Rightarrow> error_code \<Rightarrow> nat option \<Rightarrow> int \<Rightarrow> (nat \<times> int) option result" where
  "retry_schedule c attempt code dynamic now =
     (if retries c attempt code
      then rbind (delay_after_resolved (sc_retries c) attempt dynamic) (\<lambda>delay.
           rbind (durable_deadline now delay) (\<lambda>due. Inr (Some (delay, due))))
      else Inr None)"

definition fail_step :: "workflow_step \<Rightarrow> error_code \<Rightarrow> nat option \<Rightarrow> int \<Rightarrow> step_result wtx" where
  "fail_step s code dynamic now =
     andthen (lift (terminal_error_code code)) (\<lambda>_.
     case sd_config (st_descriptor s) of
       Do c \<Rightarrow>
         if st_attempt s = 0 \<or> st_state s \<notin> {StepRunning, Pending, DelayPending} then throw WorkflowStepStale
         else andthen (lift (retry_schedule c (st_attempt s) code dynamic now)) (\<lambda>schedule.
           andthen (update_step_at (step_key s) (\<lambda>r. r
             \<lparr>st_state := if schedule = None then StepFailed else RetryWait, st_tokens := None,
              st_error := Some (failure_code c (st_attempt s) code), st_due := map_option snd schedule,
              st_retry_delay := map_option fst schedule, st_updated := now,
              st_completed_at := if schedule = None then Some now else None\<rparr>)) (\<lambda>_.
           ret (if schedule = None then ResultFailed (failure_code c (st_attempt s) code) else ResultSuspended)))
     | _ \<Rightarrow> throw WorkflowInvariantViolation)"

definition defer_dynamic_failure :: "workflow_step \<Rightarrow> int \<Rightarrow> step_result wtx" where
  "defer_dynamic_failure s now =
     (case sd_config (st_descriptor s) of
        Do c \<Rightarrow>
          if rp_delay (sc_retries c) \<noteq> None \<or> st_attempt s = 0 \<or> st_state s \<notin> {StepRunning, Pending} then throw WorkflowStepStale
          else andthen (update_step_at (step_key s) (\<lambda>r. r
             \<lparr>st_state := DelayPending, st_tokens := None, st_error := Some WorkflowStepTimeout, st_due := None,
              st_retry_delay := None, st_updated := now\<rparr>)) (\<lambda>_.
           ret (ResultResolveDelay (st_attempt s) WorkflowStepTimeout c))
      | _ \<Rightarrow> throw WorkflowInvariantViolation)"

definition dynamic_delay :: "workflow_step \<Rightarrow> bool" where
  "dynamic_delay s = (case sd_config (st_descriptor s) of Do c \<Rightarrow> rp_delay (sc_retries c) = None | _ \<Rightarrow> False)"

definition timeout_step :: "workflow_step \<Rightarrow> int \<Rightarrow> step_result wtx" where
  "timeout_step s now =
     (if dynamic_delay s then defer_dynamic_failure s now else fail_step s WorkflowStepTimeout None now)"

record step_attempt =
  at_ordinal :: nat
  at_attempt :: nat
  at_token :: nat

definition commit_success :: "codec \<Rightarrow> workflow_step \<Rightarrow> bytes \<Rightarrow> int \<Rightarrow> workflows_config \<Rightarrow> step_result wtx" where
  "commit_success cx s output now limits d =
     (case rbind (durable_value cx output WorkflowResultTooLarge) (\<lambda>v.
           rbind (capacity_change d (st_instance s) (int (length v)) (-1) limits) (\<lambda>_. Inr v)) of
        Inl e \<Rightarrow> fail_step s e None now d
      | Inr v \<Rightarrow> andthen (update_step_at (step_key s) (\<lambda>r. r
           \<lparr>st_state := StepComplete, st_tokens := None, st_output := Some (Value v), st_completed_at := Some now,
            st_updated := now\<rparr>)) (\<lambda>_. ret (ResultComplete (Some (Value v)))) d)"

definition settle_outcome :: "codec \<Rightarrow> workflow_step \<Rightarrow> step_outcome \<Rightarrow> int \<Rightarrow> workflows_config \<Rightarrow> step_result wtx" where
  "settle_outcome cx s outcome now limits =
     (case outcome of
        OutcomeTimeout \<Rightarrow> throw WorkflowStepStale
      | OutcomeFailure code \<Rightarrow> fail_step s code None now
      | OutcomeFailureWithDelay code delay \<Rightarrow> fail_step s code (Some delay) now
      | OutcomeSuccess output \<Rightarrow> commit_success cx s output now limits)"

definition yield_if_suspended :: "workflow_fence \<Rightarrow> step_result \<Rightarrow> int \<Rightarrow> unit wtx" where
  "yield_if_suspended f verdict now = (if verdict = ResultSuspended then request_yield f now else ret ())"

definition settle_workflow_step ::
  "codec \<Rightarrow> workflow_fence \<Rightarrow> step_attempt \<Rightarrow> step_outcome \<Rightarrow> int \<Rightarrow> workflows_config \<Rightarrow> step_result wtx" where
  "settle_workflow_step cx f a outcome now limits =
     andthen (lift (workflows_config_validate limits)) (\<lambda>_.
     andthen (running f now) (\<lambda>_.
     andthen (reading (\<lambda>d. read_step d (fc_instance f) (fc_generation f) (at_ordinal a))) (\<lambda>found.
     andthen (lift (ok_or WorkflowStepStale found)) (\<lambda>s.
     andthen (require WorkflowStepStale (st_state s = StepRunning \<and> st_attempt s = at_attempt a
       \<and> st_tokens s = Some (fc_token f, at_token a))) (\<lambda>_.
     andthen (lift (ok_or WorkflowInvariantViolation (st_deadline s))) (\<lambda>deadline.
     andthen (if deadline \<le> now then timeout_step s now else settle_outcome cx s outcome now limits) (\<lambda>verdict.
     andthen (yield_if_suspended f verdict now) (\<lambda>_.
     andthen (heartbeat f now limits) (\<lambda>_. ret verdict)))))))))"

definition resolve_workflow_delay ::
  "workflow_fence \<Rightarrow> nat \<Rightarrow> nat \<Rightarrow> error_code \<Rightarrow> nat option \<Rightarrow> int \<Rightarrow> workflows_config \<Rightarrow> step_result wtx" where
  "resolve_workflow_delay f ordinal attempt code delay now limits =
     andthen (lift (workflows_config_validate limits)) (\<lambda>_.
     andthen (running f now) (\<lambda>_.
     andthen (reading (\<lambda>d. read_step d (fc_instance f) (fc_generation f) ordinal)) (\<lambda>found.
     andthen (lift (ok_or WorkflowStepStale found)) (\<lambda>s.
     andthen (require WorkflowStepStale (st_kind s = DoKind)) (\<lambda>_.
     andthen (require WorkflowStepStale (st_state s = DelayPending \<and> st_attempt s = attempt \<and> dynamic_delay s
       \<and> st_error s = Some WorkflowStepTimeout)) (\<lambda>_.
     andthen (if code = WorkflowStepConfigUnsupported then fail_step s code None now
              else andthen (require WorkflowStepStale (code = WorkflowStepTimeout)) (\<lambda>_. fail_step s code delay now)) (\<lambda>verdict.
     andthen (yield_if_suspended f verdict now) (\<lambda>_.
     andthen (heartbeat f now limits) (\<lambda>_. ret verdict)))))))))"

section \<open>Waits and events\<close>

definition canonical_wire :: "codec \<Rightarrow> bytes \<Rightarrow> bytes \<Rightarrow> int \<Rightarrow> bytes result" where
  "canonical_wire cx ty payload timestamp =
     rbind (validate_workflow_event_type ty) (\<lambda>_.
     if nat \<bar>timestamp\<bar> > workflow_max_safe_integer then Inl WorkflowDurationInvalid
     else rbind (durable_value cx payload WorkflowPayloadTooLarge) (\<lambda>_.
       let output = cd_event_json cx ty payload timestamp
       in if length output > workflow_value_max_bytes * 4 div 3 + 2048 then Inl WorkflowResultTooLarge else Inr output))"

text \<open>The committed result of a step; an envelope is read back into its fields.\<close>

definition step_result_of :: "codec \<Rightarrow> workflow_step \<Rightarrow> step_result result" where
  "step_result_of cx s =
     (case st_state s of
        StepComplete \<Rightarrow>
          (case sd_config (st_descriptor s) of
             Do c \<Rightarrow> (case st_output s of
                 Some (Value v) \<Rightarrow>
                   if durable_value cx v WorkflowInvariantViolation = Inr v then Inr (ResultComplete (Some (Value v)))
                   else Inl WorkflowInvariantViolation
               | _ \<Rightarrow> Inl WorkflowInvariantViolation)
           | WaitEvent ty t \<Rightarrow> (case st_output s of
                 Some (Envelope ty payload accepted wire) \<Rightarrow>
                   if canonical_wire cx ty payload accepted = Inr wire then Inr (ResultEvent ty payload accepted)
                   else Inl WorkflowInvariantViolation
               | _ \<Rightarrow> Inl WorkflowInvariantViolation)
           | _ \<Rightarrow> if st_output s \<noteq> None then Inl WorkflowInvariantViolation else Inr (ResultComplete None))
      | StepFailed \<Rightarrow> rbind (ok_or WorkflowInvariantViolation (st_error s)) (\<lambda>code. Inr (ResultFailed code))
      | DelayPending \<Rightarrow>
          (case sd_config (st_descriptor s) of
             Do c \<Rightarrow> rbind (ok_or WorkflowInvariantViolation (st_error s)) (\<lambda>code. Inr (ResultResolveDelay (st_attempt s) code c))
           | _ \<Rightarrow> Inl WorkflowInvariantViolation)
      | StepWaiting \<Rightarrow> Inr ResultSuspended
      | RetryWait \<Rightarrow> Inr ResultSuspended
      | Pending \<Rightarrow> Inr ResultSuspended
      | _ \<Rightarrow> Inl WorkflowStepStale)"

definition workflow_step_result :: "codec \<Rightarrow> workflow_fence \<Rightarrow> nat \<Rightarrow> int \<Rightarrow> step_result wtx" where
  "workflow_step_result cx f ordinal now =
     andthen (running f now) (\<lambda>_.
     andthen (reading (\<lambda>d. read_step d (fc_instance f) (fc_generation f) ordinal)) (\<lambda>found.
     andthen (lift (ok_or WorkflowStepStale found)) (\<lambda>s. lift (step_result_of cx s))))"

definition first_event :: "workflow_store \<Rightarrow> workflow_step \<Rightarrow> workflow_event option" where
  "first_event d s =
     (case order_limit ev_seq 1 (matching_events d s) of [] \<Rightarrow> None | e # _ \<Rightarrow> Some e)"

definition consume_event :: "codec \<Rightarrow> workflow_step \<Rightarrow> workflow_event \<Rightarrow> int \<Rightarrow> workflows_config \<Rightarrow> step_result wtx" where
  "consume_event cx s e now limits =
     andthen (lift (canonical_wire cx (ev_type e) (ev_payload e) (ev_accepted e))) (\<lambda>output.
     andthen (lift (ok_or WorkflowInvariantViolation (i64_of_u64 (ev_bytes e)))) (\<lambda>b.
     andthen (reading (\<lambda>d. capacity_change d (st_instance s) (int (length output) - b) (-1) limits)) (\<lambda>room.
     andthen (lift room) (\<lambda>_.
     andthen (update_step_at (step_key s) (\<lambda>r. r
       \<lparr>st_state := StepComplete, st_output := Some (Envelope (ev_type e) (ev_payload e) (ev_accepted e) output),
        st_consumed := Some (ev_seq e), st_due := None, st_updated := now, st_completed_at := Some now\<rparr>)) (\<lambda>_.
     andthen (delete_event (st_instance s) (ev_seq e)) (\<lambda>_.
     ret (ResultEvent (ev_type e) (ev_payload e) (ev_accepted e))))))))"

definition settle_wait :: "codec \<Rightarrow> workflow_step \<Rightarrow> int \<Rightarrow> workflows_config \<Rightarrow> step_result wtx" where
  "settle_wait cx s now limits =
     (if st_state s \<noteq> StepWaiting then lift (step_result_of cx s)
      else andthen (lift (ok_or WorkflowInvariantViolation (st_due s))) (\<lambda>due.
        if st_kind s = WaitEventKind
        then andthen (reading (\<lambda>d. first_event d s)) (\<lambda>found.
          andthen (case found of None \<Rightarrow> ret False
                   | Some e \<Rightarrow> andthen (lift (ok_or WorkflowInvariantViolation (st_ceiling s))) (\<lambda>ceiling.
                       ret (ev_accepted e < due \<or> ev_seq e \<le> ceiling))) (\<lambda>eligible.
          if eligible then consume_event cx s (the found) now limits
          else if due \<le> now
          then andthen (update_step_at (step_key s) (\<lambda>r. r
                 \<lparr>st_state := StepFailed, st_error := Some WorkflowEventTimeout, st_due := None, st_updated := now,
                  st_completed_at := Some now\<rparr>)) (\<lambda>_. ret (ResultFailed WorkflowEventTimeout))
          else ret ResultSuspended))
        else if due \<le> now
        then andthen (update_step_at (step_key s) (\<lambda>r. r
               \<lparr>st_state := StepComplete, st_due := None, st_updated := now, st_completed_at := Some now\<rparr>)) (\<lambda>_.
             ret (ResultComplete None))
        else ret ResultSuspended))"

definition wake :: "nat \<Rightarrow> int \<Rightarrow> unit wtx" where
  "wake i now =
     andthen (update_where True i (\<lambda>w. wi_state w = Waiting)
       (\<lambda>w. w\<lparr>wi_state := Queued, wi_next_run := Some now, wi_updated := max (wi_updated w) now\<rparr>)) (\<lambda>_. ret ())"

definition waiting_for :: "workflow_store \<Rightarrow> nat \<Rightarrow> bytes \<Rightarrow> nat option" where
  "waiting_for d i ty =
     (case order_limit st_ordinal 1 (filter (\<lambda>s. st_state s = StepWaiting
         \<and> (case sd_config (st_descriptor s) of WaitEvent t n \<Rightarrow> t = ty | _ \<Rightarrow> False)) (steps_of d i)) of
        [] \<Rightarrow> None | s # _ \<Rightarrow> Some (st_ordinal s))"

definition deliver_event :: "codec \<Rightarrow> workflow_identity \<Rightarrow> nat \<Rightarrow> int \<Rightarrow> workflows_config \<Rightarrow> unit wtx" where
  "deliver_event cx i ordinal now limits =
     andthen (reading (\<lambda>d. read_step d (id_instance i) (id_generation i) ordinal)) (\<lambda>found.
     andthen (lift (ok_or WorkflowInvariantViolation found)) (\<lambda>s.
     andthen (settle_wait cx s now limits) (\<lambda>verdict.
     if verdict \<noteq> ResultSuspended then wake (id_instance i) now else ret ())))"

definition admit_event ::
  "codec \<Rightarrow> workflow_instance \<Rightarrow> nat \<Rightarrow> bytes \<Rightarrow> bytes \<Rightarrow> int \<Rightarrow> workflows_config \<Rightarrow> unit wtx" where
  "admit_event cx w operation ty payload now limits = (let i = wi_identity w; logical = 32 + length ty + length payload in
     andthen (require WorkflowEventQueueFull (\<not> (wi_event_count w \<ge> wc_max_buffered_events limits
       \<or> saturating_add_u64 (wi_event_bytes w) logical > wc_max_event_bytes limits \<or> wi_next_event_seq w = i64_max))) (\<lambda>_.
     andthen (reading (\<lambda>d. capacity_change d (id_instance i) (int logical) 0 limits)) (\<lambda>room.
     andthen (lift room) (\<lambda>_. let now = max now (wi_updated w) in
     andthen (lift (durable_deadline now 0)) (\<lambda>_.
     andthen (insert_receipt \<lparr>er_operation = operation, er_instance = id_instance i, er_generation = id_generation i,
       er_type = ty, er_digest = cd_sha256 cx payload, er_accepted = now\<rparr>) (\<lambda>_.
     andthen (insert_event \<lparr>ev_instance = id_instance i, ev_generation = id_generation i, ev_seq = wi_next_event_seq w,
       ev_type = ty, ev_payload = payload, ev_accepted = now, ev_bytes = logical\<rparr>) (\<lambda>_.
     andthen (update_where False (id_instance i) (\<lambda>_. True) (\<lambda>v. v\<lparr>wi_updated := now\<rparr>)) (\<lambda>_.
     andthen (reading (\<lambda>d. waiting_for d (id_instance i) ty)) (\<lambda>ordinal.
     case ordinal of None \<Rightarrow> ret () | Some n \<Rightarrow> deliver_event cx i n now limits)))))))))"

definition send_workflow_event ::
  "codec \<Rightarrow> workflow_identity \<Rightarrow> nat \<Rightarrow> bytes \<Rightarrow> bytes \<Rightarrow> int \<Rightarrow> workflows_config \<Rightarrow> unit wtx" where
  "send_workflow_event cx i operation ty payload now limits =
     andthen (lift (workflows_config_validate limits)) (\<lambda>_.
     andthen (lift (validate_workflow_event_type ty)) (\<lambda>_.
     andthen (lift (durable_value cx payload WorkflowPayloadTooLarge)) (\<lambda>payload.
     andthen (reading (\<lambda>d. List.find (\<lambda>r. er_operation r = operation) (wf_receipts d))) (\<lambda>receipt.
     case receipt of
       Some r \<Rightarrow> require WorkflowInvariantViolation (er_instance r = id_instance i \<and> er_generation r = id_generation i
         \<and> er_type r = ty \<and> er_digest r = cd_sha256 cx payload)
     | None \<Rightarrow>
       andthen (reading (\<lambda>d. find_instance d (id_instance i))) (\<lambda>found.
       andthen (lift (ok_or WorkflowInstanceNotFound found)) (\<lambda>w.
       andthen (require WorkflowInstanceStateConflict (wi_identity w = i)) (\<lambda>_.
       andthen (require WorkflowInstanceStateConflict (\<not> is_terminal (wi_state w))) (\<lambda>_.
       admit_event cx w operation ty payload now limits))))))))"

section \<open>Registering and granting a batch\<close>

fun batch_shape :: "step_descriptor \<Rightarrow> nat \<Rightarrow> nat \<Rightarrow> step_descriptor list \<Rightarrow> unit result" where
  "batch_shape first width index [] = Inr ()"
| "batch_shape first width index (c # cs) =
     rbind (descriptor_validate c) (\<lambda>_.
     if sd_ordinal c \<noteq> sd_ordinal first + index \<or> sd_batch_first c \<noteq> sd_ordinal first \<or> sd_batch_size c \<noteq> width
       \<or> sd_dependencies c \<noteq> sd_dependencies first
     then Inl WorkflowNonDeterministic else batch_shape first width (index + 1) cs)"

definition registration_times :: "step_descriptor \<Rightarrow> workflow_instance \<Rightarrow> int \<Rightarrow> (int option \<times> int option) result" where
  "registration_times c w now =
     (case sd_config c of
        Do config \<Rightarrow> Inr (None, None)
      | Sleep duration \<Rightarrow> rbind (durable_deadline now duration) (\<lambda>t. Inr (Some t, None))
      | SleepUntil timestamp \<Rightarrow> Inr (Some timestamp, None)
      | WaitEvent ty timeout \<Rightarrow> rbind (durable_deadline now timeout) (\<lambda>t. Inr (Some t, Some (wi_next_event_seq w - 1))))"

definition register_step :: "codec \<Rightarrow> workflow_instance \<Rightarrow> int \<Rightarrow> step_descriptor \<Rightarrow> unit wtx" where
  "register_step cx w now c =
     andthen (lift (registration_times c w now)) (\<lambda>(due, ceiling).
     andthen (reading (\<lambda>d. length (filter (\<lambda>t. st_kind t = config_kind (sd_config c) \<and> sd_name (st_descriptor t) = sd_name c)
       (steps_of d (wi_id w))))) (\<lambda>n.
     andthen (require WorkflowNonDeterministic (n + 1 = sd_name_count c)) (\<lambda>_.
     insert_step \<lparr>st_instance = wi_id w, st_generation = wi_generation w, st_descriptor = c,
       st_config_bytes = length (cd_config_json cx c),
       st_state = (if config_kind (sd_config c) = DoKind then Pending else StepWaiting), st_attempt = 0, st_tokens = None,
       st_output = None, st_error = None, st_started = now, st_updated = now, st_completed_at = None, st_window = None,
       st_due = due, st_retry_delay = None, st_cancelled_at = None, st_ceiling = ceiling, st_consumed = None\<rparr>)))"

definition parents_settled :: "workflow_store \<Rightarrow> workflow_instance \<Rightarrow> nat list \<Rightarrow> bool" where
  "parents_settled d w parents = list_all (\<lambda>p. list_ex (\<lambda>s. st_generation s = wi_generation w \<and> st_ordinal s = p
     \<and> settled_state (st_state s)) (steps_of d (wi_id w))) parents"

fun batch_bytes :: "(step_descriptor \<Rightarrow> bytes) \<Rightarrow> step_descriptor list \<Rightarrow> nat result" where
  "batch_bytes config_json [] = Inr 0"
| "batch_bytes config_json (c # cs) =
     rbind (descriptor_state_bytes config_json c) (\<lambda>b. rbind (batch_bytes config_json cs) (\<lambda>r. Inr (b + r)))"

definition register_batch :: "codec \<Rightarrow> workflow_instance \<Rightarrow> step_descriptor list \<Rightarrow> int \<Rightarrow> workflows_config \<Rightarrow> unit wtx" where
  "register_batch cx w cs now limits =
     andthen (require WorkflowStepConfigUnsupported (list_all (\<lambda>c. case sd_config c of
       Do config \<Rightarrow> fits_activation config (wc_dispatch_timeout_ms limits) | _ \<Rightarrow> True) cs)) (\<lambda>_.
     andthen (require WorkflowStepLimitExceeded (length cs \<le> wc_max_parallel_steps limits)) (\<lambda>_.
     andthen (require WorkflowStepLimitExceeded (sd_ordinal (hd cs) + length cs \<le> wc_max_steps limits)) (\<lambda>_.
     andthen (reading (\<lambda>d. parents_settled d w (sd_dependencies (hd cs)))) (\<lambda>ready.
     andthen (require WorkflowNonDeterministic ready) (\<lambda>_.
     andthen (lift (batch_bytes (cd_config_json cx) cs)) (\<lambda>extra.
     andthen (reading (\<lambda>d. capacity_change d (wi_id w) (int extra)
       (int (length (filter (\<lambda>c. config_kind (sd_config c) \<in> {DoKind, WaitEventKind}) cs))) limits)) (\<lambda>room.
     andthen (lift room) (\<lambda>_.
     for_each (register_step cx w now) cs))))))))"

definition complete_grant :: "workflow_step \<Rightarrow> step_grant result" where
  "complete_grant s =
     (case sd_config (st_descriptor s) of
        Do c \<Rightarrow> if st_attempt s = 0 then Inl WorkflowInvariantViolation else Inr (GrantComplete (Some (st_attempt s, c)))
      | _ \<Rightarrow> Inr (GrantComplete None))"

definition remaining_time :: "workflow_step \<Rightarrow> int \<Rightarrow> nat result" where
  "remaining_time s now =
     rbind (ok_or WorkflowInvariantViolation (st_deadline s)) (\<lambda>t.
     ok_or WorkflowInvariantViolation (u64_of_i64 (saturating_sub_i64 t now)))"

definition timeout_grant :: "workflow_step \<Rightarrow> int \<Rightarrow> step_grant wtx" where
  "timeout_grant s now =
     andthen (timeout_step s now) (\<lambda>verdict. ret
       (case verdict of ResultSuspended \<Rightarrow> GrantSuspended | ResultResolveDelay a code c \<Rightarrow> GrantResolveDelay a code c | _ \<Rightarrow> GrantFailed))"

text \<open>The callback of a pending step or of a due retry is granted under a new step token.\<close>

definition admit_callback ::
  "workflow_fence \<Rightarrow> workflow_step \<Rightarrow> workflow_step_config \<Rightarrow> nat \<Rightarrow> nat \<Rightarrow> nat \<Rightarrow> int \<Rightarrow> workflows_config \<Rightarrow> (step_grant \<times> nat) wtx" where
  "admit_callback f s c token admitted remaining now limits =
     (let fresh = (st_attempt s = 0 \<or> st_state s = RetryWait) in
     andthen (lift (if st_state s = Pending \<and> st_attempt s > 0 then remaining_time s now else Inr (sc_timeout c))) (\<lambda>duration.
     andthen (require WorkflowInvariantViolation ((st_state s = RetryWait) = (st_retry_delay s \<noteq> None))) (\<lambda>_.
     andthen (require WorkflowRuntimeUnavailable (\<not> fresh \<or> fits_activation c (wc_dispatch_timeout_ms limits))) (\<lambda>_.
     if (case st_due s of None \<Rightarrow> False | Some due \<Rightarrow> due > now) \<or> admitted \<ge> wc_max_parallel_steps limits
       \<or> saturating_add_u64 duration workflow_drain_margin_ms > remaining
     then ret (GrantSuspended, admitted)
     else andthen (if fresh
         then andthen (lift (durable_deadline now (sc_timeout c))) (\<lambda>t. update_step_at (step_key s) (\<lambda>r. r
           \<lparr>st_state := StepRunning, st_attempt := st_attempt r + 1, st_window := Some (now, t),
            st_tokens := Some (fc_token f, token), st_due := None, st_retry_delay := None, st_error := None, st_updated := now\<rparr>))
         else update_step_at (step_key s) (\<lambda>r. r\<lparr>st_state := StepRunning, st_tokens := Some (fc_token f, token), st_updated := now\<rparr>)) (\<lambda>_.
       ret (GrantRun token (st_attempt s + (if fresh then 1 else 0)) duration c, admitted + 1))))))"

definition regrant :: "workflow_step \<Rightarrow> int \<Rightarrow> step_grant result" where
  "regrant s now =
     (case sd_config (st_descriptor s) of
        Do c \<Rightarrow> (case st_tokens s of
            None \<Rightarrow> Inl WorkflowInvariantViolation
          | Some (run, token) \<Rightarrow> rbind (remaining_time s now) (\<lambda>remaining. Inr (GrantRun token (st_attempt s) remaining c)))
      | _ \<Rightarrow> Inl WorkflowInvariantViolation)"

definition wait_grant :: "codec \<Rightarrow> workflow_step \<Rightarrow> int \<Rightarrow> workflows_config \<Rightarrow> step_grant wtx" where
  "wait_grant cx s now limits =
     andthen (settle_wait cx s now limits) (\<lambda>verdict.
     case verdict of
       ResultComplete v \<Rightarrow> lift (complete_grant s)
     | ResultEvent ty payload t \<Rightarrow> lift (complete_grant s)
     | ResultFailed code \<Rightarrow> ret GrantFailed
     | ResultSuspended \<Rightarrow> ret GrantSuspended
     | ResultResolveDelay a code c \<Rightarrow> throw WorkflowInvariantViolation)"

text \<open>The grant of one step of the batch, with the number of callbacks admitted so far.\<close>

definition grant_step ::
  "codec \<Rightarrow> workflow_fence \<Rightarrow> nat \<Rightarrow> workflow_step \<Rightarrow> nat \<Rightarrow> nat \<Rightarrow> int \<Rightarrow> workflows_config \<Rightarrow> (step_grant \<times> nat) wtx" where
  "grant_step cx f token s admitted remaining now limits =
     (case st_state s of
        StepComplete \<Rightarrow> andthen (lift (complete_grant s)) (\<lambda>g. ret (g, admitted))
      | StepFailed \<Rightarrow> ret (GrantFailed, admitted)
      | StepWaiting \<Rightarrow> andthen (wait_grant cx s now limits) (\<lambda>g. ret (g, admitted))
      | StepRunning \<Rightarrow>
          andthen (require WorkflowStepStale (run_token_of s = Some (fc_token f))) (\<lambda>_.
          if (case st_deadline s of None \<Rightarrow> True | Some t \<Rightarrow> t \<le> now)
          then andthen (timeout_grant s now) (\<lambda>g. ret (g, admitted))
          else andthen (lift (regrant s now)) (\<lambda>g. ret (g, admitted + 1)))
      | DelayPending \<Rightarrow>
          (case sd_config (st_descriptor s) of
             Do c \<Rightarrow> andthen (lift (ok_or WorkflowInvariantViolation (st_error s))) (\<lambda>code.
               ret (GrantResolveDelay (st_attempt s) code c, admitted))
           | _ \<Rightarrow> throw WorkflowInvariantViolation)
      | Cancelled \<Rightarrow> throw WorkflowStepStale
      | _ \<Rightarrow>
          if st_state s = Pending \<and> st_attempt s > 0 \<and> before_or_at (st_deadline s) now
          then andthen (timeout_grant s now) (\<lambda>g. ret (g, admitted))
          else (case sd_config (st_descriptor s) of
             Do c \<Rightarrow> admit_callback f s c token admitted remaining now limits
           | _ \<Rightarrow> throw WorkflowInvariantViolation))"

fun grant_batch ::
  "codec \<Rightarrow> workflow_fence \<Rightarrow> bool \<Rightarrow> nat \<Rightarrow> (nat \<Rightarrow> nat) \<Rightarrow> nat \<Rightarrow> nat \<Rightarrow> int \<Rightarrow> workflows_config \<Rightarrow> step_descriptor list
    \<Rightarrow> step_grant list wtx" where
  "grant_batch cx f rollback boundary tokens admitted remaining now limits [] = ret []"
| "grant_batch cx f rollback boundary tokens admitted remaining now limits (c # cs) =
     andthen (reading (\<lambda>d. read_step d (fc_instance f) (fc_generation f) (sd_ordinal c))) (\<lambda>found.
     andthen (lift (ok_or WorkflowInvariantViolation found)) (\<lambda>s.
     andthen (require WorkflowNonDeterministic (st_descriptor s = c)) (\<lambda>_.
     andthen (if rollback \<and> \<not> sd_rollback_step c \<and> st_state s \<noteq> StepComplete
              then ret (GrantRollbackBoundary boundary, admitted)
              else grant_step cx f (tokens (sd_ordinal c)) s admitted remaining now limits) (\<lambda>(g, admitted).
     andthen (grant_batch cx f rollback boundary tokens admitted remaining now limits cs) (\<lambda>gs. ret (g # gs))))))"

definition rollback_ordinal :: "workflow_store \<Rightarrow> workflow_instance \<Rightarrow> nat" where
  "rollback_ordinal d w =
     (case min_opt (map st_ordinal (filter (\<lambda>s. st_generation s = wi_generation w \<and> sd_rollback_step (st_descriptor s))
         (steps_of d (wi_id w)))) of None \<Rightarrow> wi_registered w | Some n \<Rightarrow> n)"

definition claim_steps ::
  "codec \<Rightarrow> workflow_fence \<Rightarrow> workflow_instance \<Rightarrow> nat \<Rightarrow> (nat \<Rightarrow> nat) \<Rightarrow> nat \<Rightarrow> int \<Rightarrow> workflows_config \<Rightarrow> step_descriptor list
    \<Rightarrow> step_grant list wtx" where
  "claim_steps cx f w boundary tokens remaining now limits cs =
     andthen (if sd_ordinal (hd cs) = wi_registered w then register_batch cx w cs now limits
              else require WorkflowNonDeterministic (sd_ordinal (hd cs) < wi_registered w)) (\<lambda>_.
     andthen (grant_batch cx f (wi_rollback_requested w) boundary tokens 0 remaining now limits cs) (\<lambda>grants.
     andthen (if list_ex (\<lambda>g. g = GrantSuspended) grants then request_yield f now else ret ()) (\<lambda>_.
     andthen (heartbeat f now limits) (\<lambda>_. ret grants))))"

definition claim_workflow_batch ::
  "codec \<Rightarrow> workflow_fence \<Rightarrow> step_descriptor list \<Rightarrow> nat \<Rightarrow> (nat \<Rightarrow> nat) \<Rightarrow> int \<Rightarrow> workflows_config \<Rightarrow> step_grant list wtx" where
  "claim_workflow_batch cx f cs remaining tokens now limits =
     andthen (lift (workflows_config_validate limits)) (\<lambda>_.
     andthen (require WorkflowStepLimitExceeded (cs \<noteq> [])) (\<lambda>_.
     andthen (require WorkflowStepLimitExceeded (length cs \<le> 16 \<and> remaining \<le> wc_dispatch_timeout_ms limits)) (\<lambda>_.
     andthen (lift (batch_shape (hd cs) (length cs) 0 cs)) (\<lambda>_.
     andthen (running f now) (\<lambda>w.
     if wi_pause_requested w \<or> wi_yield_requested w then ret (map (\<lambda>_. GrantSuspended) cs)
     else andthen (require WorkflowNonDeterministic (list_all (\<lambda>c. sd_rollback_step c = sd_rollback_step (hd cs)) cs
         \<and> (wi_rollback_requested w \<or> \<not> sd_rollback_step (hd cs)))) (\<lambda>_.
       andthen (reading (\<lambda>d. if wi_rollback_requested w then rollback_ordinal d w else wi_registered w)) (\<lambda>boundary.
       if wi_rollback_requested w \<and> \<not> sd_rollback_step (hd cs) \<and> sd_ordinal (hd cs) \<ge> boundary
       then ret (map (\<lambda>_. GrantRollbackBoundary boundary) cs)
       else claim_steps cx f w boundary tokens remaining now limits cs)))))))"

end
