(* ===== verification/Workflow_Runs.thy ===== *)
theory Workflow_Runs
  imports Workflow_Steps "HOL-Library.Option_ord"
begin

text \<open>
  The life of a workflow instance: creation (\<open>crates/storage/src/scheduler/workflow.rs\<close>),
  activation under a lease, recovery of expired leases, release and completion
  (\<open>durable_runs.rs\<close>), pause, resume, termination and rollback (\<open>durable_lifecycle.rs\<close>), and
  the maintenance of due steps (\<open>durable_due.rs\<close>). Every public operation is one transaction;
  waking the scheduler is not modelled.
\<close>

section \<open>Creation\<close>

record workflow_creation =
  cr_identity :: workflow_identity
  cr_input :: bytes
  cr_retention :: "workflow_retention option"

text \<open>\<open>version_digest\<close> recomputes the digest of the target; it is an argument.\<close>

definition prepare_creation ::
  "codec \<Rightarrow> (workflow_target \<Rightarrow> bytes) \<Rightarrow> workflow_creation \<Rightarrow> (workflow_identity \<times> bytes \<times> workflow_retention) result" where
  "prepare_creation cx version_digest c =
     rbind (ok_or WorkflowInvariantViolation (cr_retention c)) (\<lambda>retention.
     rbind (retention_validate retention) (\<lambda>_.
     if nat \<bar>id_created (cr_identity c)\<bar> > workflow_max_safe_integer then Inl WorkflowDurationInvalid
     else rbind (validate_workflow_instance_id (id_external (cr_identity c))) (\<lambda>_.
     rbind (durable_value cx (cr_input c) WorkflowPayloadTooLarge) (\<lambda>input.
     if id_generation (cr_identity c) \<noteq> 1
       \<or> version_digest (id_target (cr_identity c)) \<noteq> tg_descriptor (id_target (cr_identity c))
     then Inl WorkflowInvariantViolation
     else Inr (cr_identity c, input, retention)))))"

fun prepare_creations ::
  "codec \<Rightarrow> (workflow_target \<Rightarrow> bytes) \<Rightarrow> workflow_creation list \<Rightarrow> (workflow_identity \<times> bytes \<times> workflow_retention) list result" where
  "prepare_creations cx version_digest [] = Inr []"
| "prepare_creations cx version_digest (c # cs) =
     rbind (prepare_creation cx version_digest c) (\<lambda>p.
     rbind (prepare_creations cx version_digest cs) (\<lambda>ps. Inr (p # ps)))"

definition find_operation :: "workflow_store \<Rightarrow> nat \<Rightarrow> workflow_instance option" where
  "find_operation d operation = List.find (\<lambda>w. id_operation (wi_identity w) = operation) (wf_instances d)"

definition same_creation :: "workflow_instance option \<Rightarrow> workflow_identity \<times> bytes \<times> workflow_retention \<Rightarrow> bool" where
  "same_creation found p = (case (found, p) of
     (Some w, (i, input, retention)) \<Rightarrow> wi_identity w = i \<and> wi_input w = input \<and> wi_retention w = retention
   | _ \<Rightarrow> False)"

definition new_instance :: "workflow_identity \<times> bytes \<times> workflow_retention \<Rightarrow> workflow_instance" where
  "new_instance p = (case p of (i, input, retention) \<Rightarrow>
     \<lparr>wi_identity = i, wi_input = input, wi_retention = retention, wi_state = Queued, wi_output = None, wi_error = None,
      wi_next_run = Some (id_created i), wi_run = None, wi_updated = id_created i, wi_terminal_at = None, wi_expires_at = None,
      wi_pause_requested = False, wi_yield_requested = False, wi_rollback_requested = False, wi_has_activated = False,
      wi_registered = 0, wi_settled = 0, wi_completed = 0, wi_next_wake = None, wi_event_count = 0, wi_event_bytes = 0,
      wi_next_event_seq = 1, wi_state_bytes = initial_state_bytes i (length input)\<rparr>)"

definition creation_quota :: "workflow_store \<Rightarrow> (workflow_identity \<times> bytes \<times> workflow_retention) list \<Rightarrow> workflows_config \<Rightarrow> bool" where
  "creation_quota d ps limits \<longleftrightarrow> (let definition_of = (\<lambda>i. tg_definition (id_target i)); first = definition_of (fst (hd ps)) in
     list_all (\<lambda>p. definition_of (fst p) = first) ps
     \<and> length (wf_instances d) + length ps \<le> wc_max_instances limits
     \<and> length (filter (\<lambda>w. \<not> is_terminal (wi_state w)) (wf_instances d)) + length ps \<le> wc_max_active limits
     \<and> length (filter (\<lambda>w. definition_of (wi_identity w) = first) (wf_instances d)) + length ps
       \<le> wc_max_instances_per_definition limits)"

fun creation_bytes :: "workflows_config \<Rightarrow> (workflow_identity \<times> bytes \<times> workflow_retention) list \<Rightarrow> nat result" where
  "creation_bytes limits [] = Inr 0"
| "creation_bytes limits ((i, input, retention) # ps) =
     (let initial = initial_state_bytes i (length input) + length failure_json in
      if initial > wc_max_state_bytes limits then Inl WorkflowStateQuotaExceeded
      else rbind (creation_bytes limits ps) (\<lambda>rest. ok_or WorkflowStateQuotaExceeded (checked_add_u64 initial rest)))"

definition insert_prepared :: "(workflow_identity \<times> bytes \<times> workflow_retention) list \<Rightarrow> workflows_config \<Rightarrow> unit wtx" where
  "insert_prepared ps limits =
     andthen (reading (\<lambda>d. tg_instance (id_target (fst (hd ps))) = wf_owner d)) (\<lambda>own.
     andthen (require WorkflowInvariantViolation own) (\<lambda>_.
     andthen (require WorkflowInvariantViolation
       (list_all (\<lambda>p. tg_instance (id_target (fst p)) = tg_instance (id_target (fst (hd ps)))) ps)) (\<lambda>_.
     andthen (reading (\<lambda>d. creation_quota d ps limits)) (\<lambda>fits.
     andthen (require WorkflowStateQuotaExceeded fits) (\<lambda>_.
     andthen (lift (creation_bytes limits ps)) (\<lambda>b.
     andthen (reading (\<lambda>d. capacity d 0 b False limits)) (\<lambda>room.
     andthen (lift room) (\<lambda>_.
     for_each (\<lambda>p. insert_instance (new_instance p)) ps))))))))"

definition insert_workflows ::
  "codec \<Rightarrow> (workflow_target \<Rightarrow> bytes) \<Rightarrow> workflow_creation list \<Rightarrow> workflows_config \<Rightarrow> unit wtx" where
  "insert_workflows cx version_digest cs limits =
     andthen (require WorkflowMethodUnsupported (cs \<noteq> [] \<and> length cs \<le> 100)) (\<lambda>_.
     andthen (lift (workflows_config_validate limits)) (\<lambda>_.
     andthen (lift (prepare_creations cx version_digest cs)) (\<lambda>ps. let batch = id_batch (fst (hd ps)) in
     andthen (require WorkflowInvariantViolation (list_all (\<lambda>p. id_batch (fst p) = batch) ps)) (\<lambda>_.
     andthen (reading (\<lambda>d. map (\<lambda>p. find_operation d (id_operation (fst p))) ps)) (\<lambda>existing.
     andthen (reading (\<lambda>d. length (filter (\<lambda>w. id_batch (wi_identity w) = batch) (wf_instances d)))) (\<lambda>batch_count.
     if list_ex (\<lambda>e. e \<noteq> None) existing
     then require WorkflowInvariantViolation (list_all (\<lambda>e. e \<noteq> None) existing \<and> batch_count = length ps
       \<and> list_all (\<lambda>(e, p). same_creation e p) (zip existing ps))
     else andthen (require WorkflowInvariantViolation (batch_count = 0)) (\<lambda>_. insert_prepared ps limits)))))))"

definition workflow_instance_ids :: "nat option \<Rightarrow> nat \<Rightarrow> workflow_store \<Rightarrow> nat list result" where
  "workflow_instance_ids after limit d =
     rbind (bounded_page limit) (\<lambda>_. Inr (order_limit id limit
       (filter (\<lambda>i. case after of None \<Rightarrow> True | Some a \<Rightarrow> i > a) (map wi_id (wf_instances d)))))"

fun preflight_bytes :: "nat list \<Rightarrow> nat \<Rightarrow> nat result" where
  "preflight_bytes [] extra = Inr extra"
| "preflight_bytes (b # bs) extra =
     rbind (ok_or WorkflowStateQuotaExceeded (checked_add_u64 extra b)) (\<lambda>v.
     rbind (ok_or WorkflowStateQuotaExceeded (checked_add_u64 v (length failure_json))) (preflight_bytes bs))"

definition check_workflow_create_batch_capacity :: "nat \<Rightarrow> nat list \<Rightarrow> workflows_config \<Rightarrow> workflow_store \<Rightarrow> unit result" where
  "check_workflow_create_batch_capacity owner input_bytes limits d =
     (if input_bytes = [] \<or> length input_bytes > 100 then Inl WorkflowMethodUnsupported
      else if owner \<noteq> wf_owner d then Inl WorkflowInvariantViolation
      else rbind (workflows_config_validate limits) (\<lambda>_.
        rbind (preflight_bytes input_bytes 0) (\<lambda>extra. capacity d 0 extra False limits)))"

section \<open>Activation\<close>

definition defer_workflow :: "nat \<Rightarrow> int \<Rightarrow> workflows_config \<Rightarrow> unit wtx" where
  "defer_workflow i now limits =
     andthen (lift (workflows_config_validate limits)) (\<lambda>_.
     andthen (lift (lease_deadline now (wc_recovery_backoff_ms limits))) (\<lambda>t.
     andthen (update_where False i (\<lambda>w. wi_state w = Queued \<and> before_or_at (wi_next_run w) now)
       (\<lambda>w. w\<lparr>wi_next_run := Some t, wi_updated := now\<rparr>)) (\<lambda>_. ret ())))"

definition due_instances :: "workflow_store \<Rightarrow> bool \<Rightarrow> int \<Rightarrow> nat \<Rightarrow> nat list" where
  "due_instances d recovered now limit = map wi_id
     (order_limit (\<lambda>w. (wi_next_run w, id_created (wi_identity w), wi_id w)) limit
       (filter (\<lambda>w. wi_state w = Queued \<and> wi_has_activated w = recovered \<and> before_or_at (wi_next_run w) now) (wf_instances d)))"

text \<open>The cursor of the caller is its streak of recovered pages.\<close>

definition due_workflows :: "int \<Rightarrow> nat \<Rightarrow> nat \<Rightarrow> workflow_store \<Rightarrow> (nat list \<times> nat) result" where
  "due_workflows now limit streak d =
     rbind (bounded_page limit) (\<lambda>_.
     let preferred = streak < 3;
         page = (\<lambda>recovered. (due_instances d recovered now limit, if recovered then min (streak + 1) 3 else 0))
     in if fst (page preferred) \<noteq> [] then Inr (page preferred)
        else if fst (page (\<not> preferred)) \<noteq> [] then Inr (page (\<not> preferred))
        else Inr ([], streak))"

record claimed_workflow =
  cw_fence :: workflow_fence
  cw_identity :: workflow_identity
  cw_input :: bytes
  cw_recovered :: bool
  cw_rollback :: bool

definition activated :: "nat \<Rightarrow> int \<Rightarrow> int \<Rightarrow> workflow_instance \<Rightarrow> workflow_instance" where
  "activated token now t w = w
     \<lparr>wi_state := Running, wi_run := Some \<lparr>rl_token = token, rl_claimed = now, rl_until = t\<rparr>, wi_next_run := None,
      wi_updated := now, wi_has_activated := True\<rparr>"

definition claim_workflow :: "workflow_identity \<Rightarrow> nat \<Rightarrow> int \<Rightarrow> workflows_config \<Rightarrow> claimed_workflow option wtx" where
  "claim_workflow i token now limits =
     andthen (lift (workflows_config_validate limits)) (\<lambda>_.
     andthen (reading (\<lambda>d. find_instance d (id_instance i))) (\<lambda>found.
     case found of
       None \<Rightarrow> ret None
     | Some w \<Rightarrow>
       if wi_state w \<noteq> Queued \<or> \<not> before_or_at (wi_next_run w) now then ret None
       else andthen (require WorkflowInvariantViolation (wi_identity w = i)) (\<lambda>_.
         andthen (lift (lease_deadline now (wc_lease_ms limits))) (\<lambda>t.
         andthen (update_where True (id_instance i) (\<lambda>w. wi_state w = Queued) (activated token now t)) (\<lambda>_.
         ret (Some \<lparr>cw_fence = \<lparr>fc_instance = id_instance i, fc_generation = id_generation i, fc_token = token\<rparr>,
           cw_identity = i, cw_input = wi_input w, cw_recovered = wi_has_activated w, cw_rollback = wi_rollback_requested w\<rparr>))))))"

definition heartbeat_workflow :: "workflow_fence \<Rightarrow> int \<Rightarrow> workflows_config \<Rightarrow> unit wtx" where
  "heartbeat_workflow f now limits =
     andthen (lift (workflows_config_validate limits)) (\<lambda>_. heartbeat f now limits)"

section \<open>Release and recovery\<close>

definition release_target :: "workflow_store \<Rightarrow> workflow_instance \<Rightarrow> int \<Rightarrow> (workflow_state \<times> int option) result" where
  "release_target d w queued_at =
     (if has_step d (wi_id w) {StepRunning} then Inl WorkflowInstanceBusy
      else if wi_pause_requested w then Inr (Paused, None)
      else if has_step d (wi_id w) {Pending, DelayPending} \<or> wi_registered w = wi_settled w then Inr (Queued, Some queued_at)
      else if wi_next_wake w \<noteq> None then Inr (Waiting, None)
      else Inl WorkflowInvariantViolation)"

definition release_run :: "workflow_instance \<Rightarrow> int \<Rightarrow> int \<Rightarrow> workflow_state wtx" where
  "release_run w queued_at now =
     andthen (reading (\<lambda>d. release_target d w queued_at)) (\<lambda>target.
     andthen (lift target) (\<lambda>(state, next_run).
     andthen (lift (ok_or WorkflowRunStale (wi_run w))) (\<lambda>l.
     andthen (update_where True (wi_id w)
       (holds_run \<lparr>fc_instance = wi_id w, fc_generation = wi_generation w, fc_token = rl_token l\<rparr>)
       (\<lambda>v. v\<lparr>wi_state := state, wi_run := None, wi_pause_requested := False, wi_yield_requested := False,
         wi_next_run := next_run, wi_updated := now\<rparr>)) (\<lambda>n.
     andthen (require WorkflowRunStale (n = 1)) (\<lambda>_. ret state)))))"

definition expired_runs :: "workflow_store \<Rightarrow> int \<Rightarrow> nat \<Rightarrow> workflow_instance list" where
  "expired_runs d now limit =
     order_limit (\<lambda>w. (map_option rl_until (wi_run w), wi_id w)) limit
       (filter (\<lambda>w. wi_state w = Running \<and> before_or_at (map_option rl_until (wi_run w)) now) (wf_instances d))"

definition recover_run :: "int \<Rightarrow> workflows_config \<Rightarrow> workflow_instance \<Rightarrow> unit wtx" where
  "recover_run now limits w =
     andthen (update_steps_where (\<lambda>s. st_instance s = wi_id w \<and> st_generation s = wi_generation w \<and> st_state s = StepRunning
         \<and> run_token_of s = map_option rl_token (wi_run w))
       (\<lambda>s. s\<lparr>st_state := Pending, st_tokens := None, st_updated := now\<rparr>)) (\<lambda>_.
     andthen (reading (\<lambda>d. find_instance d (wi_id w))) (\<lambda>found.
     andthen (lift (ok_or WorkflowInvariantViolation found)) (\<lambda>v.
     andthen (lift (lease_deadline now (wc_recovery_backoff_ms limits))) (\<lambda>t.
     andthen (release_run v t now) (\<lambda>_. ret ())))))"

definition recover_workflows :: "int \<Rightarrow> workflows_config \<Rightarrow> nat \<Rightarrow> nat wtx" where
  "recover_workflows now limits limit =
     andthen (lift (workflows_config_validate limits)) (\<lambda>_.
     andthen (lift (bounded_page limit)) (\<lambda>_.
     andthen (reading (\<lambda>d. expired_runs d now limit)) (\<lambda>expired.
     andthen (for_each (recover_run now limits) expired) (\<lambda>_. ret (length expired)))))"

definition yield_workflow :: "workflow_fence \<Rightarrow> int \<Rightarrow> workflow_state wtx" where
  "yield_workflow f now =
     andthen (running f now) (\<lambda>w.
     andthen (require WorkflowInstanceStateConflict (wi_yield_requested w \<or> wi_pause_requested w)) (\<lambda>_.
     release_run w now now))"

section \<open>Completion\<close>

definition unfinished_states :: "step_state set" where
  "unfinished_states = {Pending, StepRunning, DelayPending, StepWaiting, RetryWait}"

definition cancel_unfinished :: "nat \<Rightarrow> int \<Rightarrow> unit wtx" where
  "cancel_unfinished i now =
     update_steps_where (\<lambda>s. st_instance s = i \<and> st_state s \<in> unfinished_states)
       (\<lambda>s. s\<lparr>st_state := Cancelled, st_tokens := None, st_due := None, st_retry_delay := None, st_error := None,
         st_cancelled_at := Some now, st_updated := now\<rparr>)"

datatype workflow_completion =
    CompletionComplete bytes nat
  | CompletionErrored error_code
  | CompletionTerminated nat

text \<open>The first step that failed for a reason the callbacks cannot catch.\<close>

definition platform_failure :: "workflow_store \<Rightarrow> nat \<Rightarrow> error_code option" where
  "platform_failure d i =
     (case order_limit st_ordinal 1 (filter (\<lambda>s. st_state s = StepFailed
         \<and> st_error s \<notin> {Some WorkflowStepTimeout, Some WorkflowStepRetriesExhausted, Some WorkflowNonRetryable,
            Some WorkflowEventTimeout}) (steps_of d i)) of
        [] \<Rightarrow> None | s # _ \<Rightarrow> st_error s)"

definition completion_result ::
  "codec \<Rightarrow> workflow_store \<Rightarrow> workflow_instance \<Rightarrow> workflow_completion \<Rightarrow> workflows_config \<Rightarrow> (error_code + bytes) result" where
  "completion_result cx d w completion limits =
     (case platform_failure d (wi_id w) of
        Some code \<Rightarrow> rbind (terminal_error_code code) (\<lambda>c. Inr (Inl c))
      | None \<Rightarrow>
          (case completion of
             CompletionErrored code \<Rightarrow> rbind (terminal_error_code code) (\<lambda>c. Inr (Inl c))
           | CompletionComplete output ordinal \<Rightarrow>
               if ordinal \<noteq> wi_registered w \<or> wi_registered w \<noteq> wi_settled w then Inr (Inl WorkflowNonDeterministic)
               else Inr (rbind (durable_value cx output WorkflowResultTooLarge) (\<lambda>v.
                 rbind (capacity_change d (wi_id w) (int (length v)) (-1) limits) (\<lambda>_. Inr v)))
           | CompletionTerminated ordinal \<Rightarrow> Inl WorkflowInvariantViolation))"

definition finish_terminated :: "workflow_fence \<Rightarrow> workflow_instance \<Rightarrow> nat \<Rightarrow> int \<Rightarrow> workflow_state wtx" where
  "finish_terminated f w ordinal now =
     andthen (require WorkflowNonDeterministic (wi_rollback_requested w \<and> ordinal = wi_registered w)) (\<lambda>_.
     andthen (reading (\<lambda>d. has_step d (wi_id w) unfinished_states)) (\<lambda>unfinished.
     andthen (require WorkflowNonDeterministic (\<not> unfinished)) (\<lambda>_.
     andthen (lift (retention_expires_at (wi_retention w) now False)) (\<lambda>expiry.
     andthen (update_where True (wi_id w) (holds_run f) (\<lambda>v. v
       \<lparr>wi_state := Terminated, wi_output := None, wi_error := None, wi_rollback_requested := False, wi_terminal_at := Some now,
        wi_updated := now, wi_expires_at := Some expiry, wi_run := None\<rparr>)) (\<lambda>_.
     ret Terminated)))))"

definition finish_result :: "workflow_fence \<Rightarrow> workflow_instance \<Rightarrow> error_code + bytes \<Rightarrow> int \<Rightarrow> workflow_state wtx" where
  "finish_result f w result now =
     andthen (case result of Inl code \<Rightarrow> cancel_unfinished (wi_id w) now | Inr v \<Rightarrow> ret ()) (\<lambda>_.
     andthen (lift (retention_expires_at (wi_retention w) now (\<not> isl result))) (\<lambda>expiry.
     let state = (if isl result then Errored else Completed);
         output = (case result of Inl code \<Rightarrow> None | Inr v \<Rightarrow> Some v);
         code = (case result of Inl code \<Rightarrow> Some code | Inr v \<Rightarrow> None);
         added = (case result of Inl code \<Rightarrow> length failure_json | Inr v \<Rightarrow> length v)
     in andthen (update_where True (wi_id w) (holds_run f) (\<lambda>v. v
          \<lparr>wi_state := state, wi_output := output, wi_error := code, wi_state_bytes := wi_state_bytes v + added,
           wi_rollback_requested := False, wi_terminal_at := Some now, wi_updated := now, wi_expires_at := Some expiry,
           wi_run := None\<rparr>)) (\<lambda>_. ret state)))"

definition finish_workflow ::
  "codec \<Rightarrow> workflow_fence \<Rightarrow> workflow_completion \<Rightarrow> int \<Rightarrow> workflows_config \<Rightarrow> workflow_state wtx" where
  "finish_workflow cx f completion now limits =
     andthen (lift (workflows_config_validate limits)) (\<lambda>_.
     andthen (running f now) (\<lambda>w.
     if wi_pause_requested w \<or> wi_yield_requested w then release_run w now now
     else case completion of
       CompletionTerminated ordinal \<Rightarrow> finish_terminated f w ordinal now
     | _ \<Rightarrow>
       andthen (require WorkflowNonDeterministic (\<not> wi_rollback_requested w)) (\<lambda>_.
       andthen (reading (\<lambda>d. completion_result cx d w completion limits)) (\<lambda>r.
       andthen (lift r) (\<lambda>result. finish_result f w result now)))))"

section \<open>Lifecycle\<close>

datatype workflow_action = Pause | Resume | Terminate

definition request_workflow_rollback :: "workflow_identity \<Rightarrow> int \<Rightarrow> workflows_config \<Rightarrow> unit wtx" where
  "request_workflow_rollback i now limits =
     andthen (lift (workflows_config_validate limits)) (\<lambda>_.
     andthen (lift (durable_deadline now 0)) (\<lambda>_.
     andthen (reading (\<lambda>d. find_instance d (id_instance i))) (\<lambda>found.
     andthen (lift (ok_or WorkflowInstanceNotFound found)) (\<lambda>w.
     andthen (require WorkflowRunStale (wi_identity w = i)) (\<lambda>_.
     andthen (require WorkflowInstanceStateConflict (\<not> is_terminal (wi_state w))) (\<lambda>_.
     if wi_rollback_requested w then ret ()
     else andthen (cancel_unfinished (id_instance i) now) (\<lambda>_.
       andthen (update_where True (id_instance i) (\<lambda>_. True) (\<lambda>v. v
         \<lparr>wi_state := Queued, wi_next_run := Some now, wi_run := None, wi_pause_requested := False, wi_yield_requested := False,
          wi_rollback_requested := True, wi_updated := now\<rparr>)) (\<lambda>_. ret ()))))))))"

definition pause_workflow :: "workflow_instance \<Rightarrow> int \<Rightarrow> unit wtx" where
  "pause_workflow w now =
     (case wi_state w of
        Paused \<Rightarrow> ret ()
      | Running \<Rightarrow>
          if wi_pause_requested w then ret ()
          else andthen (update_where False (wi_id w) (\<lambda>_. True) (\<lambda>v. v\<lparr>wi_pause_requested := True, wi_updated := now\<rparr>)) (\<lambda>_. ret ())
      | Queued \<Rightarrow> andthen (update_where True (wi_id w) (\<lambda>_. True)
          (\<lambda>v. v\<lparr>wi_state := Paused, wi_next_run := None, wi_updated := now\<rparr>)) (\<lambda>_. ret ())
      | Waiting \<Rightarrow> andthen (update_where True (wi_id w) (\<lambda>_. True)
          (\<lambda>v. v\<lparr>wi_state := Paused, wi_next_run := None, wi_updated := now\<rparr>)) (\<lambda>_. ret ())
      | _ \<Rightarrow> throw WorkflowInstanceStateConflict)"

definition resumable_due :: "workflow_store \<Rightarrow> nat \<Rightarrow> int \<Rightarrow> nat list" where
  "resumable_due d i now = sort (map st_ordinal (filter (\<lambda>s. st_state s = DelayPending
     \<or> st_state s = StepWaiting \<and> before_or_at (st_due s) now
     \<or> st_state s = Pending \<and> st_attempt s > 0 \<and> before_or_at (st_deadline s) now) (steps_of d i)))"

definition resume_step :: "codec \<Rightarrow> workflow_instance \<Rightarrow> int \<Rightarrow> workflows_config \<Rightarrow> nat \<Rightarrow> unit wtx" where
  "resume_step cx w now limits ordinal =
     andthen (reading (\<lambda>d. read_step d (wi_id w) (wi_generation w) ordinal)) (\<lambda>found.
     andthen (lift (ok_or WorkflowInvariantViolation found)) (\<lambda>s.
     if st_state s = StepWaiting then andthen (settle_wait cx s now limits) (\<lambda>_. ret ())
     else if st_state s = DelayPending then ret ()
     else andthen (timeout_step s now) (\<lambda>_. ret ())))"

definition resume_workflow :: "codec \<Rightarrow> workflow_instance \<Rightarrow> int \<Rightarrow> workflows_config \<Rightarrow> unit wtx" where
  "resume_workflow cx w now limits =
     andthen (require WorkflowInstanceStateConflict (wi_state w = Paused)) (\<lambda>_.
     andthen (reading (\<lambda>d. resumable_due d (wi_id w) now)) (\<lambda>ordinals.
     andthen (for_each (resume_step cx w now limits) ordinals) (\<lambda>_.
     andthen (reading (\<lambda>d. case find_instance d (wi_id w) of None \<Rightarrow> False | Some v \<Rightarrow> wi_registered v = wi_settled v
         \<or> list_ex (\<lambda>s. st_state s \<in> {Pending, DelayPending} \<or> st_state s = RetryWait \<and> before_or_at (st_due s) now)
             (steps_of d (wi_id w)))) (\<lambda>ready.
     andthen (update_where True (wi_id w) (\<lambda>_. True) (\<lambda>v. v
       \<lparr>wi_state := if ready then Queued else Waiting, wi_next_run := if ready then Some now else None, wi_updated := now\<rparr>)) (\<lambda>_.
     ret ())))))"

definition terminate_workflow :: "workflow_instance \<Rightarrow> int \<Rightarrow> unit wtx" where
  "terminate_workflow w now =
     andthen (cancel_unfinished (wi_id w) now) (\<lambda>_.
     andthen (lift (retention_expires_at (wi_retention w) now False)) (\<lambda>expiry.
     andthen (update_where True (wi_id w) (\<lambda>_. True) (\<lambda>v. v
       \<lparr>wi_state := Terminated, wi_next_run := None, wi_run := None, wi_pause_requested := False, wi_yield_requested := False,
        wi_rollback_requested := False, wi_terminal_at := Some now, wi_expires_at := Some expiry, wi_updated := now\<rparr>)) (\<lambda>_. ret ())))"

definition modify_workflow :: "codec \<Rightarrow> workflow_identity \<Rightarrow> workflow_action \<Rightarrow> int \<Rightarrow> workflows_config \<Rightarrow> unit wtx" where
  "modify_workflow cx i action now limits =
     andthen (lift (workflows_config_validate limits)) (\<lambda>_.
     andthen (lift (durable_deadline now 0)) (\<lambda>_.
     andthen (reading (\<lambda>d. find_instance d (id_instance i))) (\<lambda>found.
     andthen (lift (ok_or WorkflowInstanceNotFound found)) (\<lambda>w.
     andthen (require WorkflowRunStale (wi_identity w = i)) (\<lambda>_.
     andthen (require WorkflowInstanceNotFound (\<not> before_or_at (wi_expires_at w) now)) (\<lambda>_.
     andthen (require WorkflowInstanceStateConflict (\<not> is_terminal (wi_state w))) (\<lambda>_.
     case action of
       Pause \<Rightarrow> pause_workflow w now
     | Resume \<Rightarrow> resume_workflow cx w now limits
     | Terminate \<Rightarrow> terminate_workflow w now)))))))"

section \<open>Due steps\<close>

definition due_in :: "workflow_store \<Rightarrow> (workflow_step \<Rightarrow> bool) \<Rightarrow> workflow_state set \<Rightarrow> (workflow_step \<Rightarrow> int option) \<Rightarrow> int \<Rightarrow> nat
    \<Rightarrow> (int option \<times> nat \<times> nat) list" where
  "due_in d p states deadline now limit = order_limit (\<lambda>k. k) limit
     (map (\<lambda>s. (deadline s, st_instance s, st_ordinal s)) (filter (\<lambda>s. p s \<and> before_or_at (deadline s) now
       \<and> owner_is d s (\<lambda>w. wi_state w \<in> states)) (wf_steps d)))"

definition due_steps :: "workflow_store \<Rightarrow> int \<Rightarrow> nat \<Rightarrow> (nat \<times> nat) list" where
  "due_steps d now limit = (let live = {Queued, Running, Waiting, Paused} in map snd (order_limit (\<lambda>k. k) limit
     (due_in d (\<lambda>s. st_state s = StepWaiting) live st_due now limit
      @ due_in d (\<lambda>s. st_state s = Pending \<and> st_attempt s > 0) live st_deadline now limit
      @ due_in d (\<lambda>s. st_state s = DelayPending) live (\<lambda>s. Some (st_updated s)) now limit
      @ due_in d (\<lambda>s. st_state s = RetryWait) {Waiting} st_due now limit)))"

definition maintain_step :: "codec \<Rightarrow> int \<Rightarrow> workflows_config \<Rightarrow> nat \<times> nat \<Rightarrow> unit wtx" where
  "maintain_step cx now limits due = (case due of (i, ordinal) \<Rightarrow>
     andthen (reading (\<lambda>d. find_instance d i)) (\<lambda>owner.
     andthen (lift (ok_or WorkflowInvariantViolation owner)) (\<lambda>w.
     andthen (reading (\<lambda>d. read_step d i (wi_generation w) ordinal)) (\<lambda>found.
     andthen (lift (ok_or WorkflowInvariantViolation found)) (\<lambda>s.
     andthen (case st_state s of
         StepWaiting \<Rightarrow> andthen (settle_wait cx s now limits) (\<lambda>r. ret (r \<noteq> ResultSuspended))
       | Pending \<Rightarrow> andthen (timeout_step s now) (\<lambda>r. ret (r \<noteq> ResultSuspended))
       | DelayPending \<Rightarrow> ret True
       | RetryWait \<Rightarrow> ret True
       | _ \<Rightarrow> throw WorkflowInvariantViolation) (\<lambda>ready.
     if ready then wake i now else ret ()))))))"

definition maintain_workflow_due :: "codec \<Rightarrow> int \<Rightarrow> workflows_config \<Rightarrow> nat \<Rightarrow> nat wtx" where
  "maintain_workflow_due cx now limits limit =
     andthen (lift (workflows_config_validate limits)) (\<lambda>_.
     andthen (lift (bounded_page limit)) (\<lambda>_.
     andthen (reading (\<lambda>d. due_steps d now limit)) (\<lambda>due.
     andthen (for_each (maintain_step cx now limits) due) (\<lambda>_. ret (length due)))))"

end
