(* ===== verification/Workflow_Inv.thy ===== *)
theory Workflow_Inv
  imports Workflow_Runs
begin

text \<open>
  The invariant of the workflow tables and that every statement keeps it. \<open>rows_ok\<close> relates
  the rows to each other: a running step belongs to the run that holds its instance, the
  steps of a finished instance are settled or cancelled, ordinals are contiguous, no event is
  consumed twice, no step is attempted more often than its policy allows. \<open>accounted\<close> says
  that the counters of every instance are those of its history. Inside a statement the
  counters lag behind by one row until the accounting trigger has run.
\<close>

section \<open>Invariant\<close>

definition attempts_ok :: "workflow_step \<Rightarrow> bool" where
  "attempts_ok s = (case sd_config (st_descriptor s) of Do c \<Rightarrow> st_attempt s \<le> 1 + rp_limit (sc_retries c) | _ \<Rightarrow> True)"

definition owned_by :: "workflow_instance \<Rightarrow> workflow_step \<Rightarrow> bool" where
  "owned_by w s \<longleftrightarrow> wi_id w = st_instance s \<and> wi_generation w = st_generation s
     \<and> (st_state s = StepRunning \<longrightarrow> runs_under (run_token_of s) (\<lambda>_. True) w)
     \<and> (is_terminal (wi_state w) \<longrightarrow> st_state s \<in> {StepComplete, StepFailed, Cancelled})
     \<and> (case st_consumed s of None \<Rightarrow> True | Some c \<Rightarrow> c < wi_next_event_seq w)"

definition event_of :: "workflow_instance \<Rightarrow> workflow_event \<Rightarrow> bool" where
  "event_of w e \<longleftrightarrow> wi_id w = ev_instance e \<and> wi_generation w = ev_generation e \<and> ev_seq e < wi_next_event_seq w"

definition instance_ok :: "workflow_instance \<Rightarrow> bool" where
  "instance_ok w \<longleftrightarrow> instance_checks w \<and> (wi_state w = Running \<longrightarrow> wi_has_activated w)"

definition consumed_once :: "workflow_step list \<Rightarrow> bool" where
  "consumed_once ss \<longleftrightarrow> (\<forall>s \<in> set ss. \<forall>t \<in> set ss. st_instance s = st_instance t \<longrightarrow> st_consumed s \<noteq> None
     \<longrightarrow> st_consumed s = st_consumed t \<longrightarrow> step_key s = step_key t)"

definition rows_ok :: "workflow_store \<Rightarrow> bool" where
  "rows_ok d \<longleftrightarrow> distinct (map wi_id (wf_instances d)) \<and> distinct (map step_key (wf_steps d))
     \<and> (\<forall>w \<in> set (wf_instances d). instance_ok w)
     \<and> (\<forall>s \<in> set (wf_steps d). step_checks s \<and> attempts_ok s \<and> (\<exists>w \<in> set (wf_instances d). owned_by w s))
     \<and> (\<forall>i. map st_ordinal (steps_of d i) = [0..<length (steps_of d i)])
     \<and> (\<forall>e \<in> set (wf_events d). \<exists>w \<in> set (wf_instances d). event_of w e)
     \<and> consumed_once (wf_steps d)"

definition accounted :: "workflow_store \<Rightarrow> bool" where
  "accounted d \<longleftrightarrow> (\<forall>w \<in> set (wf_instances d). account d w = w)"

definition workflow_inv :: "workflow_store \<Rightarrow> bool" where
  "workflow_inv d \<longleftrightarrow> rows_ok d \<and> accounted d"

lemma rows_okD:
  assumes "rows_ok d"
  shows "distinct (map wi_id (wf_instances d))" "distinct (map step_key (wf_steps d))"
    "w \<in> set (wf_instances d) \<Longrightarrow> instance_ok w"
    "s \<in> set (wf_steps d) \<Longrightarrow> step_checks s" "s \<in> set (wf_steps d) \<Longrightarrow> attempts_ok s"
    "s \<in> set (wf_steps d) \<Longrightarrow> \<exists>w \<in> set (wf_instances d). owned_by w s"
    "map st_ordinal (steps_of d i) = [0..<length (steps_of d i)]"
    "e \<in> set (wf_events d) \<Longrightarrow> \<exists>w \<in> set (wf_instances d). event_of w e"
    "consumed_once (wf_steps d)"
  using assms by (auto simp: rows_ok_def)

lemma empty_workflows_inv: "workflow_inv (empty_workflows owner)"
  by (simp add: workflow_inv_def rows_ok_def accounted_def empty_workflows_def steps_of_def consumed_once_def)

section \<open>Rows by key\<close>

lemma find_instance_Some: "find_instance d i = Some w \<Longrightarrow> w \<in> set (wf_instances d) \<and> wi_id w = i"
  by (auto simp: find_instance_def find_Some_iff)

lemma instance_unique:
  "rows_ok d \<Longrightarrow> v \<in> set (wf_instances d) \<Longrightarrow> w \<in> set (wf_instances d) \<Longrightarrow> wi_id v = wi_id w \<Longrightarrow> v = w"
  using rows_okD(1) [of d] by (auto simp: distinct_map inj_on_def)

lemma find_instance_iff:
  assumes "rows_ok d"
  shows "find_instance d i = Some w \<longleftrightarrow> w \<in> set (wf_instances d) \<and> wi_id w = i"
proof
  assume "w \<in> set (wf_instances d) \<and> wi_id w = i"
  then show "find_instance d i = Some w"
    unfolding find_instance_def using instance_unique [OF assms] by (intro find_unique) auto
qed (rule find_instance_Some)

lemma step_unique:
  "rows_ok d \<Longrightarrow> s \<in> set (wf_steps d) \<Longrightarrow> t \<in> set (wf_steps d) \<Longrightarrow> step_key s = step_key t \<Longrightarrow> s = t"
  using rows_okD(2) [of d] by (auto simp: distinct_map inj_on_def)

lemma find_step_iff:
  assumes "rows_ok d"
  shows "List.find (\<lambda>s. step_key s = k) (wf_steps d) = Some s \<longleftrightarrow> s \<in> set (wf_steps d) \<and> step_key s = k"
proof
  assume "s \<in> set (wf_steps d) \<and> step_key s = k"
  then show "List.find (\<lambda>s. step_key s = k) (wf_steps d) = Some s"
    using step_unique [OF assms] by (intro find_unique) auto
qed (auto simp: find_Some_iff)

lemma in_steps_of: "s \<in> set (steps_of d i) \<longleftrightarrow> s \<in> set (wf_steps d) \<and> st_instance s = i"
  by (simp add: steps_of_def)

lemma has_step_iff: "has_step d i S \<longleftrightarrow> (\<exists>s \<in> set (wf_steps d). st_instance s = i \<and> st_state s \<in> S)"
  by (auto simp: has_step_def steps_of_def list_ex_iff)

section \<open>Accounting\<close>

lemma account_fields [simp]:
  "wi_identity (account d w) = wi_identity w" "wi_input (account d w) = wi_input w"
  "wi_retention (account d w) = wi_retention w" "wi_state (account d w) = wi_state w"
  "wi_output (account d w) = wi_output w" "wi_error (account d w) = wi_error w"
  "wi_next_run (account d w) = wi_next_run w" "wi_run (account d w) = wi_run w"
  "wi_updated (account d w) = wi_updated w" "wi_terminal_at (account d w) = wi_terminal_at w"
  "wi_expires_at (account d w) = wi_expires_at w" "wi_pause_requested (account d w) = wi_pause_requested w"
  "wi_yield_requested (account d w) = wi_yield_requested w"
  "wi_rollback_requested (account d w) = wi_rollback_requested w"
  "wi_has_activated (account d w) = wi_has_activated w"
  "wi_next_event_seq (account d w) = wi_next_event_seq w"
  by (simp_all add: account_def)

lemma account_counts:
  "wi_registered (account d w) = length (steps_of d (wi_id w))"
  "wi_settled (account d w) = length (filter (\<lambda>s. settled_state (st_state s)) (steps_of d (wi_id w)))"
  "wi_completed (account d w) = length (filter (\<lambda>s. st_state s = StepComplete) (steps_of d (wi_id w)))"
  "wi_next_wake (account d w) = min_opt (List.map_filter step_wake (steps_of d (wi_id w)))"
  by (simp_all add: account_def)

lemma account_account [simp]: "account d (account d w) = account d w"
  by (simp add: account_def result_bytes_def)

lemma account_cong:
  "steps_of d (wi_id w) = steps_of d' (wi_id w) \<Longrightarrow> events_of d (wi_id w) = events_of d' (wi_id w)
     \<Longrightarrow> account d w = account d' w"
  by (simp add: account_def)

lemma replace_instance_simps [simp]:
  "wf_steps (replace_instance w d) = wf_steps d" "wf_events (replace_instance w d) = wf_events d"
  "wf_receipts (replace_instance w d) = wf_receipts d" "wf_owner (replace_instance w d) = wf_owner d"
  "steps_of (replace_instance w d) = steps_of d" "events_of (replace_instance w d) = events_of d"
  "account (replace_instance w d) = account d"
  by (auto simp: replace_instance_def steps_of_def [abs_def] events_of_def [abs_def] account_def [abs_def])

lemma wf_instances_replace:
  "wf_instances (replace_instance new d) = map (\<lambda>w. if wi_id w = wi_id new then new else w) (wf_instances d)"
  by (simp add: replace_instance_def)

lemma in_replace_instance:
  "w \<in> set (wf_instances d) \<Longrightarrow> wi_id w = wi_id new \<Longrightarrow>
     v \<in> set (wf_instances (replace_instance new d)) \<longleftrightarrow> v = new \<or> v \<in> set (wf_instances d) \<and> wi_id v \<noteq> wi_id new"
  by (auto simp: wf_instances_replace)

lemma map_id_replace [simp]: "map wi_id (wf_instances (replace_instance new d)) = map wi_id (wf_instances d)"
  by (simp add: wf_instances_replace cong: if_cong)

section \<open>Updates of instances\<close>

lemma update_instance_Inr:
  "update_instance sets old new d = Inr (u, d') \<longleftrightarrow>
     d' = replace_instance new d \<and> identity_ok old new \<and> account d new = new \<and> run_guard old new \<and> \<not> is_terminal (wi_state old)
     \<and> (sets \<longrightarrow> instance_transition_guard (wi_state old) (wi_state new) \<and> frontier_guard d new)
     \<and> event_sequence_guard d old new \<and> instance_checks new"
  by (auto simp: update_instance_def)

text \<open>A guarded update leaves the steps of the instance to a run that still holds them.\<close>

lemma owned_by_update:
  assumes own: "owned_by old s" and id: "identity_ok old new" and run: "run_guard old new" "\<not> is_terminal (wi_state old)"
    and front: "wi_state new = wi_state old \<or> frontier_guard d new" and seqs: "wi_next_event_seq old \<le> wi_next_event_seq new"
    and s: "s \<in> set (wf_steps d)"
  shows "owned_by new s"
proof -
  have same: "wi_id new = st_instance s" "wi_generation new = st_generation s"
    using own id by (simp_all add: owned_by_def identity_ok_def)
  have "runs_under (run_token_of s) (\<lambda>_. True) new" if r: "st_state s = StepRunning"
  proof -
    from own r have old: "wi_state old = Running" "\<exists>l. wi_run old = Some l \<and> Some (rl_token l) = run_token_of s"
      by (auto simp: owned_by_def runs_under_def split: option.splits)
    from front old(1) s r same have "wi_state new = Running"
      by (auto simp: frontier_guard_def has_step_iff)
    with run(1) old show ?thesis by (auto simp: run_guard_def runs_under_def split: option.splits)
  qed
  moreover have "st_state s \<in> {StepComplete, StepFailed, Cancelled}" if "is_terminal (wi_state new)"
  proof -
    from that run(2) front have "frontier_guard d new" by metis
    with that s same have "st_state s \<notin> {StepRunning, Pending, DelayPending, StepWaiting, RetryWait}"
      by (auto simp: frontier_guard_def has_step_iff is_terminal_def)
    then show ?thesis by (cases "st_state s") auto
  qed
  ultimately show ?thesis
    using own same seqs by (auto simp: owned_by_def split: option.splits)
qed

lemma event_sequence_mono: "event_sequence_guard d old new \<Longrightarrow> wi_next_event_seq old \<le> wi_next_event_seq new"
  by (auto simp: event_sequence_guard_def)

lemma rows_replace_instance:
  assumes ok: "rows_ok d" and old: "old \<in> set (wf_instances d)"
    and new: "wi_id new = wi_id old" "wi_generation new = wi_generation old" "instance_ok new"
      "wi_next_event_seq old \<le> wi_next_event_seq new"
    and own: "\<And>s. s \<in> set (wf_steps d) \<Longrightarrow> owned_by old s \<Longrightarrow> owned_by new s"
  shows "rows_ok (replace_instance new d)"
proof -
  have member: "v \<in> set (wf_instances (replace_instance new d)) \<longleftrightarrow> v = new \<or> v \<in> set (wf_instances d) \<and> wi_id v \<noteq> wi_id new" for v
    by (rule in_replace_instance [OF old new(1) [symmetric]])
  have carry: "\<exists>w \<in> set (wf_instances (replace_instance new d)). P w"
    if ex: "\<exists>w \<in> set (wf_instances d). P w" and step: "P old \<Longrightarrow> P new" for P
  proof -
    obtain w where w: "w \<in> set (wf_instances d)" "P w" using ex by blast
    show ?thesis
    proof (cases "wi_id w = wi_id new")
      case True
      then have "w = old" using instance_unique [OF ok w(1) old] new(1) by simp
      then show ?thesis using step w(2) member by blast
    qed (use w member in blast)
  qed
  have "\<exists>w \<in> set (wf_instances (replace_instance new d)). owned_by w s" if "s \<in> set (wf_steps d)" for s
    using carry [OF rows_okD(6) [OF ok that]] own [OF that] by blast
  moreover have "\<exists>w \<in> set (wf_instances (replace_instance new d)). event_of w e" if "e \<in> set (wf_events d)" for e
    using carry [OF rows_okD(8) [OF ok that]] new by (auto simp: event_of_def)
  moreover have "instance_ok w" if "w \<in> set (wf_instances (replace_instance new d))" for w
    using that member [of w] rows_okD(3) [OF ok] new(3) by auto
  ultimately show ?thesis
    using ok unfolding rows_ok_def by simp
qed

lemma update_instance_rows:
  assumes ok: "rows_ok d" and old: "old \<in> set (wf_instances d)"
    and run: "update_instance sets old new d = Inr (u, d')" and state: "sets \<or> wi_state new = wi_state old"
  shows "rows_ok d'"
proof -
  note u = run [unfolded update_instance_Inr]
  have id: "identity_ok old new" and seqs: "wi_next_event_seq old \<le> wi_next_event_seq new"
    using u event_sequence_mono by blast+
  have front: "wi_state new = wi_state old \<or> frontier_guard d new" using state u by blast
  have "rows_ok (replace_instance new d)"
  proof (rule rows_replace_instance [OF ok old _ _ _ seqs])
    show "wi_id new = wi_id old" "wi_generation new = wi_generation old" using id by (simp_all add: identity_ok_def)
    show "instance_ok new" using u by (simp add: instance_ok_def run_guard_def)
    show "owned_by new s" if "s \<in> set (wf_steps d)" "owned_by old s" for s
      using owned_by_update [OF that(2) id _ _ front seqs that(1)] u by blast
  qed
  then show ?thesis using u by simp
qed

text \<open>After the update the counters of that instance are exact; those of the others do not move.\<close>

lemma update_instance_accounted:
  assumes ok: "rows_ok d" and old: "old \<in> set (wf_instances d)"
    and run: "update_instance sets old new d = Inr (u, d')"
    and rest: "\<forall>w \<in> set (wf_instances d). wi_id w \<noteq> wi_id old \<longrightarrow> account d w = w"
  shows "accounted d'"
proof -
  note u = run [unfolded update_instance_Inr]
  have same: "wi_id old = wi_id new" using u by (simp add: identity_ok_def)
  show ?thesis
    unfolding accounted_def using u rest in_replace_instance [OF old same] same by auto
qed

lemma update_where_Inr:
  "update_where sets i p f d = Inr (n, d') \<longleftrightarrow>
     (\<exists>w. find_instance d i = Some w \<and> p w \<and> update_instance sets w (f w) d = Inr ((), d') \<and> n = 1)
     \<or> n = 0 \<and> d' = d \<and> (case find_instance d i of None \<Rightarrow> True | Some w \<Rightarrow> \<not> p w)"
proof (cases "find_instance d i")
  case (Some w)
  show ?thesis
  proof (cases "p w")
    case True
    then show ?thesis by (cases "update_instance sets w (f w) d") (auto simp: update_where_def Some andthen_def ret_def)
  qed (auto simp: update_where_def Some)
qed (auto simp: update_where_def)

lemma keeps_update_where:
  assumes "\<And>w. sets \<or> wi_state (f w) = wi_state w"
  shows "keeps workflow_inv (update_where sets i p f)"
proof (rule keepsI)
  fix d n d'
  assume inv: "workflow_inv d" and run: "update_where sets i p f d = Inr (n, d')"
  consider "d' = d" | w where "find_instance d i = Some w" "update_instance sets w (f w) d = Inr ((), d')"
    using run [unfolded update_where_Inr] by blast
  then show "workflow_inv d'"
  proof cases
    case 2
    have w: "w \<in> set (wf_instances d)" using 2(1) by (simp add: find_instance_Some)
    have "rows_ok d" "accounted d" using inv by (simp_all add: workflow_inv_def)
    with update_instance_rows [OF _ w 2(2) assms] update_instance_accounted [OF _ w 2(2)]
    show ?thesis unfolding workflow_inv_def accounted_def by blast
  qed (use inv in simp)
qed

text \<open>The accounting trigger restores the invariant after a change of the history of one instance.\<close>

definition lagging :: "nat \<Rightarrow> workflow_store \<Rightarrow> bool" where
  "lagging i d \<longleftrightarrow> rows_ok d \<and> (\<forall>w \<in> set (wf_instances d). wi_id w \<noteq> i \<longrightarrow> account d w = w)"

lemma recount_inv:
  assumes "lagging i d" "recount i d = Inr (u, d')"
  shows "workflow_inv d'"
proof (cases "find_instance d i")
  case None
  then have "\<forall>w \<in> set (wf_instances d). wi_id w \<noteq> i" by (auto simp: find_instance_def find_None_iff)
  moreover have "d' = d" using assms(2) None by (simp add: recount_def)
  ultimately show ?thesis using assms(1) by (simp add: lagging_def workflow_inv_def accounted_def)
next
  case (Some w)
  with assms have w: "w \<in> set (wf_instances d)" "wi_id w = i" "update_instance False w (account d w) d = Inr (u, d')"
    by (auto simp: recount_def dest: find_instance_Some)
  with assms(1) show ?thesis
    using update_instance_rows [OF _ w(1, 3)] update_instance_accounted [OF _ w(1, 3)]
    by (simp add: lagging_def workflow_inv_def)
qed

section \<open>Updates of steps\<close>

lemma replace_step_simps [simp]:
  "wf_instances (replace_step s d) = wf_instances d" "wf_events (replace_step s d) = wf_events d"
  "wf_receipts (replace_step s d) = wf_receipts d" "wf_owner (replace_step s d) = wf_owner d"
  "find_instance (replace_step s d) = find_instance d" "events_of (replace_step s d) = events_of d"
  by (simp_all add: replace_step_def find_instance_def [abs_def] events_of_def [abs_def])

lemma wf_steps_replace: "wf_steps (replace_step new d) = map (\<lambda>s. if step_key s = step_key new then new else s) (wf_steps d)"
  by (simp add: replace_step_def)

lemma map_step_key_replace: "map step_key (wf_steps (replace_step new d)) = map step_key (wf_steps d)"
  by (simp add: wf_steps_replace)

lemma in_replace_step:
  "s \<in> set (wf_steps d) \<Longrightarrow> step_key s = step_key new \<Longrightarrow>
     t \<in> set (wf_steps (replace_step new d)) \<longleftrightarrow> t = new \<or> t \<in> set (wf_steps d) \<and> step_key t \<noteq> step_key new"
  by (auto simp: wf_steps_replace)

lemma steps_of_replace:
  "steps_of (replace_step new d) i = map (\<lambda>s. if step_key s = step_key new then new else s) (steps_of d i)"
proof -
  have "st_instance (if step_key s = step_key new then new else s) = st_instance s" for s
    by (simp add: step_key_def)
  then show ?thesis by (simp add: steps_of_def wf_steps_replace filter_map comp_def)
qed

lemma steps_of_replace_other: "i \<noteq> st_instance new \<Longrightarrow> steps_of (replace_step new d) i = steps_of d i"
  unfolding steps_of_replace by (rule map_idI) (auto simp: in_steps_of step_key_def)

lemma ordinals_replace: "map st_ordinal (steps_of (replace_step new d) i) = map st_ordinal (steps_of d i)"
  by (simp add: steps_of_replace step_key_def)

lemma update_step_Inr:
  "update_step old new d = Inr (u, d') \<longleftrightarrow> step_identity_ok old new \<and> attempt_guard old new
     \<and> st_state old \<notin> {StepComplete, StepFailed, Cancelled} \<and> step_transition_guard d old new
     \<and> wait_settlement_guard d old new \<and> step_checks new \<and> recount (st_instance old) (replace_step new d) = Inr (u, d')"
  by (auto simp: update_step_def)

text \<open>Only a run that holds the instance moves its callbacks; nothing moves once the instance is finished.\<close>

lemma transition_owner:
  assumes guard: "step_transition_guard d old new" and inst: "find_instance d (st_instance old) = Some w"
  shows "\<not> is_terminal (wi_state w)" "st_state new = StepRunning \<Longrightarrow> runs_under (run_token_of new) (\<lambda>_. True) w"
proof -
  have run: "runs_under t p w \<Longrightarrow> \<not> is_terminal (wi_state w)" for t p
    by (simp add: runs_under_def is_terminal_def)
  show "\<not> is_terminal (wi_state w)"
    using guard run by (auto simp: step_transition_guard_def grant_guard_def owner_is_def inst Let_def)
  show "runs_under (run_token_of new) (\<lambda>_. True) w" if "st_state new = StepRunning"
    using guard that
    by (auto simp: step_transition_guard_def grant_guard_def owner_is_def inst Let_def runs_under_def split: option.splits)
qed

lemma attempts_update: "attempt_guard old new \<Longrightarrow> step_identity_ok old new \<Longrightarrow> attempts_ok old \<Longrightarrow> attempts_ok new"
  by (auto simp: attempt_guard_def step_identity_ok_def attempts_ok_def split: durable_config.splits)

text \<open>A consumed event is pending, so its number is below the next one, and no step has consumed it before.\<close>

lemma consumed_update:
  assumes guards: "step_identity_ok old new" "step_transition_guard d old new" "wait_settlement_guard d old new" "step_checks new"
    and old: "step_checks old" "st_state old \<notin> {StepComplete, StepFailed, Cancelled}" and c: "st_consumed new = Some c"
  shows "\<exists>e \<in> set (events_of d (st_instance old)). ev_seq e = c" "\<forall>s \<in> set (steps_of d (st_instance old)). st_consumed s \<noteq> Some c"
proof -
  have new: "st_kind new = WaitEventKind" "st_state new = StepComplete"
    using guards(4) c by (auto simp: step_checks_def step_kind_ok_def)
  have kind: "st_kind old = WaitEventKind" using new(1) guards(1) by (simp add: step_identity_ok_def)
  then have "st_state old = StepWaiting" using old by (auto simp: step_checks_def step_kind_ok_def)
  with guards(3) kind new(2) obtain e where e: "e \<in> set (matching_events d old)" "Some (ev_seq e) = st_consumed new"
    "list_all (\<lambda>s. st_consumed s \<noteq> Some (ev_seq e)) (steps_of d (st_instance old))"
    by (auto simp: wait_settlement_guard_def list_ex_iff)
  have "e \<in> set (events_of d (st_instance old))"
    using e(1) by (auto simp: matching_events_def split: durable_config.splits)
  with e c show "\<exists>e \<in> set (events_of d (st_instance old)). ev_seq e = c"
    "\<forall>s \<in> set (steps_of d (st_instance old)). st_consumed s \<noteq> Some c" by (auto simp: list_all_iff)
qed

lemma consumed_once_replace:
  assumes "consumed_once (wf_steps d)" "old \<in> set (wf_steps d)" "step_key old = step_key new"
    and fresh: "\<And>c. st_consumed new = Some c \<Longrightarrow> \<forall>s \<in> set (steps_of d (st_instance old)). st_consumed s \<noteq> Some c"
  shows "consumed_once (wf_steps (replace_step new d))"
proof -
  have inst: "st_instance new = st_instance old" using assms(3) by (simp add: step_key_def)
  have other: "st_consumed new \<noteq> st_consumed s"
    if "s \<in> set (wf_steps d)" "st_instance s = st_instance new" "st_consumed new \<noteq> None" for s
    using that fresh inst by (auto simp: in_steps_of)
  show ?thesis
    unfolding consumed_once_def
  proof (intro ballI impI)
    fix s t
    assume st: "s \<in> set (wf_steps (replace_step new d))" "t \<in> set (wf_steps (replace_step new d))"
      and same: "st_instance s = st_instance t" "st_consumed s \<noteq> None" "st_consumed s = st_consumed t"
    consider "s = new" "t = new" | "s = new" "t \<in> set (wf_steps d)" | "s \<in> set (wf_steps d)" "t = new"
      | "s \<in> set (wf_steps d)" "t \<in> set (wf_steps d)"
      using st in_replace_step [OF assms(2,3)] by blast
    then show "step_key s = step_key t"
    proof cases
      case 2
      with other [of t] same show ?thesis by simp
    next
      case 3
      with other [of s] same show ?thesis by simp
    next
      case 4
      with assms(1) same show ?thesis unfolding consumed_once_def by blast
    qed simp
  qed
qed

lemma update_step_lagging:
  assumes inv: "workflow_inv d" and old: "old \<in> set (wf_steps d)"
    and g: "step_identity_ok old new" "attempt_guard old new" "st_state old \<notin> {StepComplete, StepFailed, Cancelled}"
      "step_transition_guard d old new" "wait_settlement_guard d old new" "step_checks new"
  shows "lagging (st_instance old) (replace_step new d)"
proof -
  have ok: "rows_ok d" using inv by (simp add: workflow_inv_def)
  have key: "step_key old = step_key new" and inst: "st_instance new = st_instance old"
    using g(1) by (simp_all add: step_identity_ok_def step_key_def)
  obtain w where w: "w \<in> set (wf_instances d)" "owned_by w old" using rows_okD(6) [OF ok old] by blast
  then have find: "find_instance d (st_instance old) = Some w" by (simp add: find_instance_iff [OF ok] owned_by_def)
  note consumed = consumed_update [OF g(1,4,5,6) rows_okD(4) [OF ok old] g(3)]
  have "c < wi_next_event_seq w" if c: "st_consumed new = Some c" for c
  proof -
    from consumed(1) [OF c] obtain e where e: "e \<in> set (wf_events d)" "ev_instance e = st_instance old" "ev_seq e = c"
      by (auto simp: events_of_def)
    then obtain v where v: "v \<in> set (wf_instances d)" "event_of v e" using rows_okD(8) [OF ok] by blast
    then have "v = w" using e(2) w instance_unique [OF ok v(1) w(1)] by (simp add: event_of_def owned_by_def)
    with v e(3) show ?thesis by (simp add: event_of_def)
  qed
  then have own: "owned_by w new"
    using w(2) transition_owner [OF g(4) find] key by (auto simp: owned_by_def step_key_def split: option.splits)
  have "consumed_once (wf_steps (replace_step new d))"
    using consumed_once_replace [OF rows_okD(9) [OF ok] old key] consumed(2) by blast
  then have "rows_ok (replace_step new d)"
    using ok own w(1) g(6) attempts_update [OF g(2,1) rows_okD(5) [OF ok old]]
    unfolding rows_ok_def map_step_key_replace ordinals_replace
    by (auto simp: in_replace_step [OF old key] steps_of_replace)
  moreover have "account (replace_step new d) v = v" if "v \<in> set (wf_instances d)" "wi_id v \<noteq> st_instance old" for v
  proof -
    have "account (replace_step new d) v = account d v"
      using that(2) inst by (intro account_cong) (simp_all add: steps_of_replace_other)
    then show ?thesis using inv that(1) by (simp add: workflow_inv_def accounted_def)
  qed
  ultimately show ?thesis by (simp add: lagging_def)
qed

lemma keeps_update_step_at: "keeps workflow_inv (update_step_at k f)"
proof (rule keepsI)
  fix d u d'
  assume inv: "workflow_inv d" and run: "update_step_at k f d = Inr (u, d')"
  show "workflow_inv d'"
  proof (cases "List.find (\<lambda>s. step_key s = k) (wf_steps d)")
    case (Some s)
    then have s: "s \<in> set (wf_steps d)" by (auto simp: find_Some_iff)
    from run Some have "update_step s (f s) d = Inr (u, d')" by (simp add: update_step_at_def)
    then show ?thesis
      using recount_inv update_step_lagging [OF inv s] unfolding update_step_Inr by blast
  qed (use run inv in \<open>simp add: update_step_at_def\<close>)
qed

lemma keeps_update_steps_where: "keeps workflow_inv (update_steps_where p f)"
  unfolding update_steps_where_def by (intro keeps_intros keeps_update_step_at)

section \<open>Registration and events\<close>

lemma insert_step_Inr:
  "insert_step s d = Inr (u, d') \<longleftrightarrow> registration_guard d s \<and> registration_deadline_guard d s \<and> dependencies_guard d s
     \<and> step_checks s \<and> (\<forall>t \<in> set (wf_steps d). step_key t \<noteq> step_key s \<and> \<not> (st_instance t = st_instance s
        \<and> st_generation t = st_generation s \<and> st_kind t = st_kind s \<and> sd_name (st_descriptor t) = sd_name (st_descriptor s)
        \<and> sd_name_count (st_descriptor t) = sd_name_count (st_descriptor s)))
     \<and> recount (st_instance s) (d\<lparr>wf_steps := wf_steps d @ [s]\<rparr>) = Inr (u, d')"
  by (auto simp: insert_step_def list_all_iff)

lemma consumed_once_append:
  assumes "consumed_once ss" "st_consumed s = None"
  shows "consumed_once (ss @ [s])"
  unfolding consumed_once_def
proof (intro ballI impI)
  fix a b
  assume m: "a \<in> set (ss @ [s])" "b \<in> set (ss @ [s])" and c: "st_instance a = st_instance b" "st_consumed a \<noteq> None" "st_consumed a = st_consumed b"
  have "a \<noteq> s" "b \<noteq> s" using assms(2) c by metis+
  with m have "a \<in> set ss" "b \<in> set ss" by simp_all
  with assms(1) c show "step_key a = step_key b" unfolding consumed_once_def by blast
qed

lemma insert_step_lagging:
  assumes inv: "workflow_inv d" and run: "insert_step s d = Inr (u, d')"
  shows "lagging (st_instance s) (d\<lparr>wf_steps := wf_steps d @ [s]\<rparr>)"
proof -
  let ?d = "d\<lparr>wf_steps := wf_steps d @ [s]\<rparr>"
  note g = run [unfolded insert_step_Inr]
  have ok: "rows_ok d" using inv by (simp add: workflow_inv_def)
  have new: "st_attempt s = 0" "st_state s \<in> {Pending, StepWaiting}"
    using g by (auto simp: registration_guard_def Let_def)
  obtain w where w: "find_instance d (st_instance s) = Some w" "wi_generation w = st_generation s" "wi_state w = Running"
    "wi_registered w = st_ordinal s"
    using g by (auto simp: registration_guard_def Let_def owner_is_def split: option.splits)
  have wi: "w \<in> set (wf_instances d)" "wi_id w = st_instance s" using w(1) by (auto dest: find_instance_Some)
  have "account d w = w" using inv wi(1) by (simp add: workflow_inv_def accounted_def)
  then have ord: "st_ordinal s = length (steps_of d (st_instance s))"
    using w(4) account_counts(1) [of d w] wi(2) by simp
  have steps: "steps_of ?d i = steps_of d i @ (if i = st_instance s then [s] else [])" for i
    by (simp add: steps_of_def)
  have none: "st_consumed s = None"
    using g new by (auto simp: step_checks_def step_kind_ok_def split: option.splits)
  then have own: "owned_by w s" using w wi new by (auto simp: owned_by_def is_terminal_def)
  have "distinct (map step_key (wf_steps ?d))" using g rows_okD(2) [OF ok] by auto
  moreover have "attempts_ok s" using new(1) by (simp add: attempts_ok_def split: durable_config.splits)
  moreover have "map st_ordinal (steps_of ?d i) = [0..<length (steps_of ?d i)]" for i
    using rows_okD(7) [OF ok, of i] ord by (simp add: steps)
  moreover have "consumed_once (wf_steps ?d)"
    using consumed_once_append [OF rows_okD(9) [OF ok] none] by simp
  ultimately have "rows_ok ?d"
    using ok own wi(1) g unfolding rows_ok_def by auto
  moreover have "account ?d v = v" if "v \<in> set (wf_instances d)" "wi_id v \<noteq> st_instance s" for v
  proof -
    have "account ?d v = account d v" using that(2) by (intro account_cong) (simp_all add: steps events_of_def)
    then show ?thesis using inv that(1) by (simp add: workflow_inv_def accounted_def)
  qed
  ultimately show ?thesis by (simp add: lagging_def)
qed

lemma insert_step_inv: "workflow_inv d \<Longrightarrow> insert_step s d = Inr (u, d') \<Longrightarrow> workflow_inv d'"
  using insert_step_lagging recount_inv unfolding insert_step_Inr by blast

lemma rows_add_event:
  "rows_ok d \<Longrightarrow> \<exists>w \<in> set (wf_instances d). event_of w e \<Longrightarrow> rows_ok (d\<lparr>wf_events := wf_events d @ [e]\<rparr>)"
  by (simp add: rows_ok_def steps_of_def)

lemma insert_event_inv:
  assumes inv: "workflow_inv d" and run: "insert_event e d = Inr (u, d')"
  shows "workflow_inv d'"
proof -
  let ?d = "d\<lparr>wf_events := wf_events d @ [e]\<rparr>"
  from run obtain w where w: "find_instance d (ev_instance e) = Some w" "wi_generation w = ev_generation e"
    "wi_next_event_seq w = ev_seq e"
    "update_instance False w ((account ?d w)\<lparr>wi_next_event_seq := wi_next_event_seq w + 1\<rparr>) ?d = Inr (u, d')"
    by (auto simp: insert_event_def Let_def split: option.splits if_splits)
  define new where "new = (account ?d w)\<lparr>wi_next_event_seq := wi_next_event_seq w + 1\<rparr>"
  have ok: "rows_ok d" using inv by (simp add: workflow_inv_def)
  have wi: "w \<in> set (wf_instances d)" "wi_id w = ev_instance e" using w(1) by (auto dest: find_instance_Some)
  note u = w(4) [folded new_def, unfolded update_instance_Inr]
  have d': "d' = (replace_instance new d)\<lparr>wf_events := wf_events d @ [e]\<rparr>" using u by (simp add: replace_instance_def)
  have "rows_ok (replace_instance new d)"
  proof (rule rows_replace_instance [OF ok wi(1)])
    show "instance_ok new" using u by (simp add: instance_ok_def run_guard_def)
    show "owned_by new s" if "owned_by w s" for s
      using that by (auto simp: new_def owned_by_def runs_under_def split: option.splits)
  qed (simp_all add: new_def)
  moreover have "event_of new e" using w(2,3) wi(2) by (simp add: event_of_def new_def)
  moreover have "new \<in> set (wf_instances (replace_instance new d))"
    using in_replace_instance [of w d new] wi(1) by (simp add: new_def)
  ultimately have "rows_ok d'" using rows_add_event [of "replace_instance new d" e] by (auto simp: d')
  moreover have "accounted d'"
    unfolding accounted_def
  proof
    fix v
    assume v: "v \<in> set (wf_instances d')"
    show "account d' v = v"
    proof (cases "v = new")
      case False
      then have o: "v \<in> set (wf_instances d)" "wi_id v \<noteq> ev_instance e"
        using v in_replace_instance [of w d new v] wi by (auto simp: d' new_def)
      have "account d' v = account d v"
        using o(2) by (intro account_cong) (simp_all add: d' steps_of_def events_of_def)
      then show ?thesis using inv o(1) by (simp add: workflow_inv_def accounted_def)
    qed (use u in simp)
  qed
  ultimately show ?thesis by (simp add: workflow_inv_def)
qed

definition drop_event :: "nat \<Rightarrow> int \<Rightarrow> workflow_store \<Rightarrow> workflow_store" where
  "drop_event i n d = d\<lparr>wf_events := filter (\<lambda>e. \<not> (ev_instance e = i \<and> ev_seq e = n)) (wf_events d)\<rparr>"

lemma delete_event_recount: "delete_event i n d = Inr (u, d') \<Longrightarrow> recount i (drop_event i n d) = Inr (u, d')"
  by (simp add: delete_event_def drop_event_def split: if_splits)

lemma delete_event_lagging:
  assumes inv: "workflow_inv d"
  shows "lagging i (drop_event i n d)"
proof -
  have "rows_ok (drop_event i n d)" using inv by (simp add: drop_event_def workflow_inv_def rows_ok_def steps_of_def)
  moreover have "account (drop_event i n d) w = w" if "w \<in> set (wf_instances d)" "wi_id w \<noteq> i" for w
  proof -
    have "events_of (drop_event i n d) (wi_id w) = events_of d (wi_id w)"
      using that(2) by (simp add: drop_event_def events_of_def) (rule filter_cong, auto)
    then have "account (drop_event i n d) w = account d w"
      by (intro account_cong) (simp_all add: drop_event_def steps_of_def)
    then show ?thesis using inv that(1) by (simp add: workflow_inv_def accounted_def)
  qed
  ultimately show ?thesis by (simp add: lagging_def drop_event_def)
qed

lemma delete_event_inv: "workflow_inv d \<Longrightarrow> delete_event i n d = Inr (u, d') \<Longrightarrow> workflow_inv d'"
  using delete_event_lagging delete_event_recount recount_inv by blast

lemma insert_receipt_inv:
  assumes inv: "workflow_inv d" and run: "insert_receipt r d = Inr (u, d')"
  shows "workflow_inv d'"
proof -
  have d': "d' = d\<lparr>wf_receipts := wf_receipts d @ [r]\<rparr>" using run by (simp add: insert_receipt_def split: if_splits)
  have "account d' w = account d w" for w by (rule account_cong) (simp_all add: d' steps_of_def events_of_def)
  then show ?thesis using inv by (simp add: workflow_inv_def accounted_def rows_ok_def d' steps_of_def)
qed

lemma keeps_workflow_statements:
  "keeps workflow_inv (insert_step s)" "keeps workflow_inv (insert_event e)" "keeps workflow_inv (delete_event i n)"
  "keeps workflow_inv (insert_receipt r)"
  using insert_step_inv insert_event_inv delete_event_inv insert_receipt_inv unfolding keeps_def by blast+

end
