(* ===== verification/Workflow_Reach.thy ===== *)
theory Workflow_Reach
  imports Workflow_Inv
begin

text \<open>
  Every operation of the workflow store keeps the invariant of the tables, and the stores
  that can be reached from an empty one by any interleaving of operations.
\<close>

section \<open>Case distinctions\<close>

lemma keeps_case_config:
  "(\<And>c. keeps I (f c)) \<Longrightarrow> (\<And>n. keeps I (g n)) \<Longrightarrow> (\<And>t. keeps I (h t)) \<Longrightarrow> (\<And>ty n. keeps I (k ty n))
     \<Longrightarrow> keeps I (case x of Do c \<Rightarrow> f c | Sleep n \<Rightarrow> g n | SleepUntil t \<Rightarrow> h t | WaitEvent ty n \<Rightarrow> k ty n)"
  by (cases x) simp_all

lemma keeps_case_step_state:
  "keeps I a \<Longrightarrow> keeps I b \<Longrightarrow> keeps I c \<Longrightarrow> keeps I e \<Longrightarrow> keeps I f \<Longrightarrow> keeps I g \<Longrightarrow> keeps I h \<Longrightarrow> keeps I k
     \<Longrightarrow> keeps I (case x of Pending \<Rightarrow> a | StepRunning \<Rightarrow> b | DelayPending \<Rightarrow> c | RetryWait \<Rightarrow> e | StepWaiting \<Rightarrow> f
          | StepComplete \<Rightarrow> g | StepFailed \<Rightarrow> h | Cancelled \<Rightarrow> k)"
  by (cases x) simp_all

lemma keeps_case_state:
  "keeps I a \<Longrightarrow> keeps I b \<Longrightarrow> keeps I c \<Longrightarrow> keeps I e \<Longrightarrow> keeps I f \<Longrightarrow> keeps I g \<Longrightarrow> keeps I h
     \<Longrightarrow> keeps I (case x of Queued \<Rightarrow> a | Running \<Rightarrow> b | Waiting \<Rightarrow> c | Paused \<Rightarrow> e | Completed \<Rightarrow> f | Errored \<Rightarrow> g
          | Terminated \<Rightarrow> h)"
  by (cases x) simp_all

lemma keeps_case_outcome:
  "(\<And>v. keeps I (f v)) \<Longrightarrow> (\<And>c. keeps I (g c)) \<Longrightarrow> (\<And>c n. keeps I (h c n)) \<Longrightarrow> keeps I k
     \<Longrightarrow> keeps I (case x of OutcomeSuccess v \<Rightarrow> f v | OutcomeFailure c \<Rightarrow> g c | OutcomeFailureWithDelay c n \<Rightarrow> h c n
          | OutcomeTimeout \<Rightarrow> k)"
  by (cases x) simp_all

lemma keeps_case_result:
  "(\<And>v. keeps I (f v)) \<Longrightarrow> (\<And>ty p t. keeps I (g ty p t)) \<Longrightarrow> (\<And>c. keeps I (h c)) \<Longrightarrow> (\<And>a c s. keeps I (k a c s)) \<Longrightarrow> keeps I m
     \<Longrightarrow> keeps I (case x of ResultComplete v \<Rightarrow> f v | ResultEvent ty p t \<Rightarrow> g ty p t | ResultFailed c \<Rightarrow> h c
          | ResultResolveDelay a c s \<Rightarrow> k a c s | ResultSuspended \<Rightarrow> m)"
  by (cases x) simp_all

lemma keeps_case_completion:
  "(\<And>v n. keeps I (f v n)) \<Longrightarrow> (\<And>c. keeps I (g c)) \<Longrightarrow> (\<And>n. keeps I (h n))
     \<Longrightarrow> keeps I (case x of CompletionComplete v n \<Rightarrow> f v n | CompletionErrored c \<Rightarrow> g c | CompletionTerminated n \<Rightarrow> h n)"
  by (cases x) simp_all

lemma keeps_case_action:
  "keeps I a \<Longrightarrow> keeps I b \<Longrightarrow> keeps I c \<Longrightarrow> keeps I (case x of Pause \<Rightarrow> a | Resume \<Rightarrow> b | Terminate \<Rightarrow> c)"
  by (cases x) simp_all

lemma keeps_case_sum:
  "(\<And>a. keeps I (f a)) \<Longrightarrow> (\<And>b. keeps I (g b)) \<Longrightarrow> keeps I (case x of Inl a \<Rightarrow> f a | Inr b \<Rightarrow> g b)"
  by (cases x) simp_all

lemma keeps_running: "keeps I (running f now)"
  by (simp add: keeps_def running_def split: option.splits)

lemmas keeps_cases = keeps_case_config keeps_case_step_state keeps_case_state keeps_case_outcome keeps_case_result
  keeps_case_completion keeps_case_action keeps_case_sum keeps_running

section \<open>Operations\<close>

lemma keeps_insert_instance: "keeps workflow_inv (insert_instance w)"
proof (rule keepsI)
  fix d u d'
  assume inv: "workflow_inv d" and run: "insert_instance w d = Inr (u, d')"
  have ok: "rows_ok d" using inv by (simp add: workflow_inv_def)
  have w: "d' = d\<lparr>wf_instances := wf_instances d @ [w]\<rparr>" "instance_checks w" "wi_state w = Queued" "wi_completed w = 0"
    "wi_registered w = 0" "wi_settled w = 0" "wi_event_count w = 0" "wi_event_bytes w = 0" "wi_next_wake w = None"
    "wi_state_bytes w = initial_state_bytes (wi_identity w) (length (wi_input w))"
    "\<forall>v \<in> set (wf_instances d). wi_id v \<noteq> wi_id w"
    using run by (auto simp: insert_instance_def list_ex_iff split: if_splits)
  have none: "steps_of d (wi_id w) = []" "events_of d (wi_id w) = []"
    using rows_okD(6,8) [OF ok] w(11) by (fastforce simp: steps_of_def events_of_def filter_empty_conv owned_by_def event_of_def)+
  have same: "account d' v = account d v" for v
    by (rule account_cong) (simp_all add: w(1) steps_of_def events_of_def)
  have "wi_output w = None" "wi_error w = None" using w(2,3) by (auto simp: instance_checks_def)
  then have "account d w = w"
    using w(4-10) none by (simp add: account_def result_bytes_def List.map_filter_simps min_opt_def)
  then have "accounted d'" using inv by (auto simp: accounted_def workflow_inv_def same) (simp add: w(1), metis)
  moreover have "rows_ok d'"
    using ok w(2,3,11) unfolding rows_ok_def w(1) by (auto simp: instance_ok_def steps_of_def)
  ultimately show "workflow_inv d'" by (simp add: workflow_inv_def)
qed

section \<open>Calls\<close>

text \<open>
  The public operations of the store that change it, each as one transaction; a failed one
  changes nothing. A call carries the clock of its caller and the limits in force. The
  digest of a target and the codecs are arguments.
\<close>

datatype workflow_call =
    CallInsert "workflow_creation list"
  | CallDefer nat
  | CallClaim workflow_identity nat
  | CallHeartbeat workflow_fence
  | CallRecover nat
  | CallFinish workflow_fence workflow_completion
  | CallYield workflow_fence
  | CallRollback workflow_identity
  | CallModify workflow_identity workflow_action
  | CallMaintain nat
  | CallBatch workflow_fence "step_descriptor list" nat "nat \<Rightarrow> nat"
  | CallSettle workflow_fence step_attempt step_outcome
  | CallResolve workflow_fence nat nat error_code "nat option"
  | CallSend workflow_identity nat bytes bytes

fun perform ::
  "codec \<Rightarrow> (workflow_target \<Rightarrow> bytes) \<Rightarrow> workflow_store \<Rightarrow> workflow_call \<times> int \<times> workflows_config \<Rightarrow> workflow_store" where
  "perform cx vd d (CallInsert cs, now, limits) = snd (transaction (insert_workflows cx vd cs limits) d)"
| "perform cx vd d (CallDefer i, now, limits) = snd (transaction (defer_workflow i now limits) d)"
| "perform cx vd d (CallClaim i token, now, limits) = snd (transaction (claim_workflow i token now limits) d)"
| "perform cx vd d (CallHeartbeat f, now, limits) = snd (transaction (heartbeat_workflow f now limits) d)"
| "perform cx vd d (CallRecover limit, now, limits) = snd (transaction (recover_workflows now limits limit) d)"
| "perform cx vd d (CallFinish f completion, now, limits) = snd (transaction (finish_workflow cx f completion now limits) d)"
| "perform cx vd d (CallYield f, now, limits) = snd (transaction (yield_workflow f now) d)"
| "perform cx vd d (CallRollback i, now, limits) = snd (transaction (request_workflow_rollback i now limits) d)"
| "perform cx vd d (CallModify i action, now, limits) = snd (transaction (modify_workflow cx i action now limits) d)"
| "perform cx vd d (CallMaintain limit, now, limits) = snd (transaction (maintain_workflow_due cx now limits limit) d)"
| "perform cx vd d (CallBatch f cs remaining tokens, now, limits) =
     snd (transaction (claim_workflow_batch cx f cs remaining tokens now limits) d)"
| "perform cx vd d (CallSettle f a outcome, now, limits) = snd (transaction (settle_workflow_step cx f a outcome now limits) d)"
| "perform cx vd d (CallResolve f ordinal attempt code delay, now, limits) =
     snd (transaction (resolve_workflow_delay f ordinal attempt code delay now limits) d)"
| "perform cx vd d (CallSend i operation ty payload, now, limits) =
     snd (transaction (send_workflow_event cx i operation ty payload now limits) d)"

definition draws :: "workflow_call \<Rightarrow> nat \<Rightarrow> bool" where
  "draws c token \<longleftrightarrow> (case c of CallClaim i t \<Rightarrow> t = token | _ \<Rightarrow> False)"

section \<open>The contract\<close>

text \<open>
  The contract of the statements towards the operations: what every single statement keeps,
  every operation keeps.
\<close>

text \<open>
  The part of the contract that settling a step needs: updates of steps, the consumption of
  an event and the wake-up of a waiting instance.
\<close>

locale settle_contract =
  fixes I :: "workflow_store \<Rightarrow> bool"
  assumes settle_step: "keeps I (update_step_at k g)"
    and settle_consume: "keeps I (delete_event i n)"
    and settle_wake: "keeps I (wake i now)"
begin

lemmas settle_keeps = keeps_intros keeps_cases settle_step settle_consume settle_wake

lemma keeps_settlement:
  "keeps I (fail_step s code dynamic now)" "keeps I (defer_dynamic_failure s now)"
  unfolding fail_step_def defer_dynamic_failure_def by (intro settle_keeps)+

lemma keeps_timeout: "keeps I (timeout_step s now)"
  unfolding timeout_step_def by (intro settle_keeps keeps_settlement)

lemma keeps_settle_wait: "keeps I (settle_wait cx s now limits)"
  unfolding settle_wait_def consume_event_def by (intro settle_keeps)

lemma keeps_maintenance: "keeps I (maintain_workflow_due cx now limits limit)"
  unfolding maintain_workflow_due_def maintain_step_def by (intro settle_keeps keeps_timeout keeps_settle_wait)

end

text \<open>
  The whole contract. An activation is the only statement that starts a run, under a token
  drawn for it.
\<close>

locale workflow_contract =
  fixes I :: "workflow_store \<Rightarrow> bool" and fresh :: "nat \<Rightarrow> bool"
  assumes instance_stmt: "(\<And>w. sets \<or> wi_state (f w) = wi_state w) \<Longrightarrow>
      (\<And>w. wi_state (f w) = Running \<Longrightarrow> wi_run (f w) = None \<or> wi_state w = Running) \<Longrightarrow> keeps I (update_where sets i p f)"
    and claim_stmt: "fresh token \<Longrightarrow> keeps I (update_where True i p (activated token now t))"
    and step_stmt: "keeps I (update_step_at k g)"
    and register_stmt: "keeps I (insert_step s)"
    and event_stmt: "keeps I (insert_event e)"
    and consume_stmt: "keeps I (delete_event i n)"
    and receipt_stmt: "keeps I (insert_receipt r)"
    and create_stmt: "keeps I (insert_instance w)"
begin

lemma keeps_steps: "keeps I (update_steps_where p f)"
  unfolding update_steps_where_def by (intro keeps_intros step_stmt)

lemmas workflow_keeps = keeps_intros keeps_cases instance_stmt step_stmt keeps_steps register_stmt event_stmt consume_stmt receipt_stmt

lemma keeps_leases:
  "keeps I (heartbeat f now limits)" "keeps I (request_yield f now)"
  unfolding heartbeat_def request_yield_def by (intro workflow_keeps; simp)+

lemma keeps_wake: "keeps I (wake i now)"
  unfolding wake_def by (intro workflow_keeps; simp)

end

sublocale workflow_contract \<subseteq> settle_contract I
  by unfold_locales (rule step_stmt consume_stmt keeps_wake)+

context workflow_contract begin

lemma keeps_commit_success: "keeps I (commit_success cx s output now limits)"
proof (rule keepsI)
  fix d r d'
  assume inv: "I d" and run: "commit_success cx s output now limits d = Inr (r, d')"
  show "I d'"
  proof (cases "rbind (durable_value cx output WorkflowResultTooLarge) (\<lambda>v.
      rbind (capacity_change d (st_instance s) (int (length v)) (-1) limits) (\<lambda>_. Inr v))")
    case (Inl e)
    with run have "fail_step s e None now d = Inr (r, d')" by (simp add: commit_success_def)
    then show ?thesis by (rule keepsD [OF keeps_settlement(1) inv])
  next
    case (Inr v)
    with run show ?thesis
      by (auto simp: commit_success_def tx_simps intro: keepsD [OF step_stmt inv])
  qed
qed

lemmas keeps_step_parts = workflow_keeps keeps_leases keeps_settlement keeps_timeout keeps_commit_success

lemma keeps_settle:
  "keeps I (settle_workflow_step cx f a outcome now limits)"
  "keeps I (resolve_workflow_delay f ordinal attempt code delay now limits)"
  unfolding settle_workflow_step_def settle_outcome_def resolve_workflow_delay_def yield_if_suspended_def
  by (intro keeps_step_parts)+

lemmas keeps_wait = keeps_settle_wait keeps_wake

lemma keeps_result: "keeps I (workflow_step_result cx f ordinal now)"
  unfolding workflow_step_result_def by (intro keeps_step_parts)

lemma keeps_event: "keeps I (send_workflow_event cx i operation ty payload now limits)"
  unfolding send_workflow_event_def admit_event_def deliver_event_def by (intro keeps_step_parts keeps_wait; simp)

lemma keeps_register: "keeps I (register_batch cx w cs now limits)"
  unfolding register_batch_def register_step_def by (intro keeps_step_parts)

lemma keeps_grant: "keeps I (grant_step cx f token s admitted remaining now limits)"
  unfolding grant_step_def wait_grant_def timeout_grant_def admit_callback_def by (intro keeps_step_parts keeps_wait)

lemma keeps_grant_batch: "keeps I (grant_batch cx f rollback boundary tokens admitted remaining now limits cs)"
proof (induction cs arbitrary: admitted)
  case (Cons c cs)
  show ?case unfolding grant_batch.simps by (intro workflow_keeps keeps_grant Cons.IH)
qed (simp add: keeps_basic)

lemma keeps_batch: "keeps I (claim_workflow_batch cx f cs remaining tokens now limits)"
  unfolding claim_workflow_batch_def claim_steps_def
  by (intro keeps_step_parts keeps_register keeps_grant_batch)

lemma keeps_insert_workflows: "keeps I (insert_workflows cx version_digest cs limits)"
  unfolding insert_workflows_def insert_prepared_def by (intro workflow_keeps create_stmt)

lemma keeps_activation:
  "keeps I (defer_workflow i now limits)" "fresh token \<Longrightarrow> keeps I (claim_workflow identity token now limits)"
  "keeps I (heartbeat_workflow f now limits)"
  unfolding defer_workflow_def claim_workflow_def heartbeat_workflow_def by (intro keeps_step_parts claim_stmt; simp)+

lemma keeps_release: "keeps I (release_run w queued_at now)"
  unfolding release_run_def by (intro keeps_step_parts; simp)

lemma keeps_recovery_of_runs:
  "keeps I (recover_workflows now limits limit)" "keeps I (yield_workflow f now)"
  unfolding recover_workflows_def recover_run_def yield_workflow_def by (intro keeps_step_parts keeps_release)+

lemma keeps_cancel: "keeps I (cancel_unfinished i now)"
  unfolding cancel_unfinished_def by (intro workflow_keeps)

lemma keeps_finish: "keeps I (finish_workflow cx f completion now limits)"
  unfolding finish_workflow_def finish_terminated_def finish_result_def
  by (intro keeps_step_parts keeps_release keeps_cancel; simp)

lemma keeps_lifecycle:
  "keeps I (request_workflow_rollback i now limits)" "keeps I (modify_workflow cx i action now limits)"
  unfolding request_workflow_rollback_def modify_workflow_def pause_workflow_def resume_workflow_def resume_step_def terminate_workflow_def
  by (intro keeps_step_parts keeps_cancel keeps_wait; simp split: if_splits)+

lemmas keeps_operations = keeps_insert_workflows keeps_activation keeps_recovery_of_runs keeps_finish keeps_lifecycle
  keeps_maintenance keeps_batch keeps_settle keeps_event keeps_result

lemma perform_keeps:
  assumes "I d" "\<And>token. draws c token \<Longrightarrow> fresh token"
  shows "I (perform cx vd d (c, now, limits))"
  using assms by (cases c) (auto simp: draws_def intro: transaction_inv keeps_operations)

end

end
