(* ===== verification/Workflow_History.thy ===== *)
theory Workflow_History
  imports Workflow_Reach
begin

text \<open>
  What any interleaving of workflow operations leaves behind: the tables stay consistent, the
  durable history only grows, and a run that lost its lease never comes back. Each is the
  contract of the statements, discharged once and carried to the operations by
  \<open>workflow_contract\<close>.
\<close>

section \<open>The history only grows\<close>

definition closed_step :: "workflow_step \<Rightarrow> bool" where
  "closed_step s \<longleftrightarrow> st_state s \<in> {StepComplete, StepFailed, Cancelled}"

text \<open>
  A later version of a row: the identity, input and retention of an instance and the
  descriptor of a step are fixed at creation, event numbers and attempts only grow, and a
  finished instance or a closed step does not change at all.
\<close>

definition later_instance :: "workflow_instance \<Rightarrow> workflow_instance \<Rightarrow> bool" where
  "later_instance w v \<longleftrightarrow> identity_ok w v \<and> wi_next_event_seq w \<le> wi_next_event_seq v
     \<and> (is_terminal (wi_state w) \<longrightarrow> v = w)"

definition later_step :: "workflow_step \<Rightarrow> workflow_step \<Rightarrow> bool" where
  "later_step s t \<longleftrightarrow> step_identity_ok s t \<and> st_attempt s \<le> st_attempt t \<and> (closed_step s \<longrightarrow> t = s)"

definition extends :: "workflow_store \<Rightarrow> workflow_store \<Rightarrow> bool" where
  "extends d d' \<longleftrightarrow> (\<forall>w \<in> set (wf_instances d). \<exists>v \<in> set (wf_instances d'). later_instance w v)
     \<and> (\<forall>s \<in> set (wf_steps d). \<exists>t \<in> set (wf_steps d'). later_step s t)"

lemma later_refl [simp]: "later_instance w w" "later_step s s"
  by (simp_all add: later_instance_def later_step_def identity_ok_def step_identity_ok_def)

lemma later_trans:
  "later_instance w v \<Longrightarrow> later_instance v u \<Longrightarrow> later_instance w u"
  "later_step s t \<Longrightarrow> later_step t r \<Longrightarrow> later_step s r"
  by (auto simp: later_instance_def later_step_def identity_ok_def step_identity_ok_def)

lemma extends_refl: "extends d d"
  unfolding extends_def using later_refl by blast

lemma extends_trans: "extends d e \<Longrightarrow> extends e f \<Longrightarrow> extends d f"
  unfolding extends_def using later_trans by meson

lemma update_instance_extends:
  assumes ids: "distinct (map wi_id (wf_instances d))" and old: "old \<in> set (wf_instances d)"
    and run: "update_instance sets old new d = Inr (u, d')"
  shows "extends d d'"
proof -
  note u = run [unfolded update_instance_Inr]
  have same: "wi_id old = wi_id new" using u by (simp add: identity_ok_def)
  have "later_instance old new" using u event_sequence_mono by (auto simp: later_instance_def)
  then have "\<exists>v \<in> set (wf_instances d'). later_instance w v" if "w \<in> set (wf_instances d)" for w
    using that u in_replace_instance [OF old same] inj_onD [OF conjunct2 [OF ids [unfolded distinct_map]], of w old] old same later_refl
    by metis
  then show ?thesis using u by (auto simp: extends_def intro: later_refl)
qed

lemma recount_extends: "lagging i d \<Longrightarrow> recount i d = Inr (u, d') \<Longrightarrow> extends d d'"
  by (auto simp: recount_def lagging_def extends_refl split: option.splits
      dest: find_instance_Some rows_okD(1) intro: update_instance_extends)

lemma update_where_extends:
  "rows_ok d \<Longrightarrow> update_where sets i p f d = Inr (n, d') \<Longrightarrow> extends d d'"
  unfolding update_where_Inr using update_instance_extends rows_okD(1) find_instance_Some extends_refl by metis

lemma replace_step_extends:
  assumes ok: "rows_ok d" and old: "old \<in> set (wf_steps d)" and g: "step_identity_ok old new" "attempt_guard old new"
    "st_state old \<notin> {StepComplete, StepFailed, Cancelled}"
  shows "extends d (replace_step new d)"
proof -
  have key: "step_key old = step_key new" using g(1) by (simp add: step_identity_ok_def)
  have "later_step old new"
    using g by (auto simp: later_step_def closed_step_def attempt_guard_def split: durable_config.splits)
  then have "\<exists>t \<in> set (wf_steps (replace_step new d)). later_step s t" if "s \<in> set (wf_steps d)" for s
    using that in_replace_step [OF old key] step_unique [OF ok that old] key later_refl by metis
  then show ?thesis by (auto simp: extends_def intro: later_refl)
qed

lemma update_step_at_extends:
  assumes inv: "workflow_inv d" and run: "update_step_at k f d = Inr (u, d')"
  shows "extends d d'"
proof (cases "List.find (\<lambda>s. step_key s = k) (wf_steps d)")
  case (Some s)
  then have s: "s \<in> set (wf_steps d)" by (auto simp: find_Some_iff)
  from run Some have "update_step s (f s) d = Inr (u, d')" by (simp add: update_step_at_def)
  note g = this [unfolded update_step_Inr]
  have "extends d (replace_step (f s) d)" using g inv by (intro replace_step_extends [OF _ s]) (simp_all add: workflow_inv_def)
  moreover have "extends (replace_step (f s) d) d'"
    using g by (intro recount_extends [of "st_instance s"] update_step_lagging [OF inv s]) simp_all
  ultimately show ?thesis by (rule extends_trans)
qed (use run in \<open>simp add: update_step_at_def extends_refl\<close>)

lemma insert_step_extends:
  assumes "workflow_inv d" "insert_step s d = Inr (u, d')"
  shows "extends d d'"
proof -
  have "extends d (d\<lparr>wf_steps := wf_steps d @ [s]\<rparr>)" by (auto simp: extends_def intro: later_refl)
  moreover have "extends (d\<lparr>wf_steps := wf_steps d @ [s]\<rparr>) d'"
    using recount_extends [OF insert_step_lagging [OF assms]] assms(2) unfolding insert_step_Inr by blast
  ultimately show ?thesis by (rule extends_trans)
qed

lemma insert_event_extends:
  assumes inv: "workflow_inv d" and run: "insert_event e d = Inr (u, d')"
  shows "extends d d'"
proof -
  let ?d = "d\<lparr>wf_events := wf_events d @ [e]\<rparr>"
  obtain w where w: "find_instance d (ev_instance e) = Some w"
    "update_instance False w ((account ?d w)\<lparr>wi_next_event_seq := wi_next_event_seq w + 1\<rparr>) ?d = Inr (u, d')"
    using run by (auto simp: insert_event_def Let_def split: option.splits if_splits)
  have "w \<in> set (wf_instances ?d)" using w(1) by (auto dest: find_instance_Some)
  moreover have "distinct (map wi_id (wf_instances ?d))" using inv rows_okD(1) by (simp add: workflow_inv_def)
  ultimately have "extends ?d d'" using w(2) update_instance_extends by blast
  moreover have "extends d ?d" by (auto simp: extends_def intro: later_refl)
  ultimately show ?thesis using extends_trans by blast
qed

lemma delete_event_extends:
  assumes "workflow_inv d" "delete_event i n d = Inr (u, d')"
  shows "extends d d'"
proof -
  have "extends d (drop_event i n d)" by (auto simp: extends_def drop_event_def intro: later_refl)
  moreover have "extends (drop_event i n d) d'"
    by (rule recount_extends [OF delete_event_lagging [OF assms(1)] delete_event_recount [OF assms(2)]])
  ultimately show ?thesis by (rule extends_trans)
qed

lemma insert_rows_extend:
  "workflow_inv d \<Longrightarrow> insert_receipt r d = Inr (u, d') \<Longrightarrow> extends d d'"
  "workflow_inv d \<Longrightarrow> insert_instance w d = Inr (u, d') \<Longrightarrow> extends d d'"
  by (auto simp: insert_receipt_def insert_instance_def extends_def split: if_splits intro: later_refl)

section \<open>A lost run stays lost\<close>

definition stale :: "workflow_fence \<Rightarrow> workflow_store \<Rightarrow> bool" where
  "stale f d \<longleftrightarrow> (\<forall>w \<in> set (wf_instances d). \<not> holds_run f w)"

lemma stale_running:
  assumes "stale f d"
  shows "running f now d = Inl WorkflowRunStale"
proof -
  have "List.find (\<lambda>w. holds_run f w \<and> lease_live now w) (wf_instances d) = None"
    using assms by (auto simp: find_None_iff stale_def)
  then show ?thesis by (simp add: running_def)
qed

text \<open>A guarded update gives a run to a fence only where the row already belonged to it.\<close>

lemma update_instance_stale:
  assumes run: "update_instance sets old new d = Inr (u, d')" and old: "\<not> holds_run f old" and st: "stale f d"
    and start: "wi_state new = Running \<Longrightarrow> wi_run new = None \<or> wi_state old = Running \<or> map_option rl_token (wi_run new) \<noteq> Some (fc_token f)"
  shows "stale f d'"
proof -
  note u = run [unfolded update_instance_Inr]
  have "\<not> holds_run f new"
  proof
    assume h: "holds_run f new"
    then have n: "wi_state new = Running" "wi_run new \<noteq> None" "map_option rl_token (wi_run new) = Some (fc_token f)"
      by (auto simp: holds_run_def split: option.splits)
    with start have r: "wi_state old = Running" by blast
    obtain l where l: "wi_run new = Some l" "rl_token l = fc_token f" using n by auto
    from u have g: "run_guard old new" and id: "wi_identity new = wi_identity old" by (simp_all add: identity_ok_def)
    from g r n(1) l obtain k where "wi_run old = Some k" "rl_token k = fc_token f"
      by (auto simp: run_guard_def split: option.splits)
    with h r id have "holds_run f old" by (simp add: holds_run_def)
    with old show False ..
  qed
  then show ?thesis using u st by (auto simp: stale_def wf_instances_replace)
qed

lemma update_where_stale:
  assumes run: "update_where sets i p g d = Inr (n, d')" and st: "stale f d"
    and start: "\<And>w. wi_state (g w) = Running \<Longrightarrow> wi_run (g w) = None \<or> wi_state w = Running
      \<or> map_option rl_token (wi_run (g w)) \<noteq> Some (fc_token f)"
  shows "stale f d'"
  using run [unfolded update_where_Inr]
proof
  assume "\<exists>w. find_instance d i = Some w \<and> p w \<and> update_instance sets w (g w) d = Inr ((), d') \<and> n = 1"
  then obtain w where w: "w \<in> set (wf_instances d)" "update_instance sets w (g w) d = Inr ((), d')"
    by (auto dest: find_instance_Some)
  then have "\<not> holds_run f w" using st by (simp add: stale_def)
  then show ?thesis using update_instance_stale [OF w(2) _ st start] by blast
qed (use st in simp)

lemma recount_stale:
  assumes "recount i d = Inr (u, d')" "stale f d"
  shows "stale f d'"
proof (cases "find_instance d i")
  case (Some w)
  then have w: "w \<in> set (wf_instances d)" "update_instance False w (account d w) d = Inr (u, d')"
    using assms(1) by (auto simp: recount_def dest: find_instance_Some)
  then have "\<not> holds_run f w" using assms(2) by (simp add: stale_def)
  then show ?thesis using update_instance_stale [OF w(2) _ assms(2)] by simp
qed (use assms in \<open>simp add: recount_def\<close>)

lemma recount_after_stale: "recount i e = Inr (u, d') \<Longrightarrow> wf_instances e = wf_instances d \<Longrightarrow> stale f d \<Longrightarrow> stale f d'"
  using recount_stale [of i e u d' f] by (simp add: stale_def)

lemma update_step_at_stale:
  assumes run: "update_step_at k g d = Inr (u, d')" and st: "stale f d"
  shows "stale f d'"
proof (cases "List.find (\<lambda>s. step_key s = k) (wf_steps d)")
  case (Some s)
  then have "recount (st_instance s) (replace_step (g s) d) = Inr (u, d')"
    using run by (simp add: update_step_at_def update_step_Inr)
  then show ?thesis using recount_after_stale [OF _ _ st] by simp
qed (use run st in \<open>simp add: update_step_at_def\<close>)

lemma history_stale:
  "insert_step s d = Inr (u, d') \<Longrightarrow> stale f d \<Longrightarrow> stale f d'"
  "delete_event i n d = Inr (u, d') \<Longrightarrow> stale f d \<Longrightarrow> stale f d'"
proof -
  show "stale f d'" if "insert_step s d = Inr (u, d')" "stale f d"
  proof -
    have "recount (st_instance s) (d\<lparr>wf_steps := wf_steps d @ [s]\<rparr>) = Inr (u, d')" using that(1) unfolding insert_step_Inr by blast
    then show ?thesis using recount_after_stale [OF _ _ that(2)] by simp
  qed
  show "stale f d'" if "delete_event i n d = Inr (u, d')" "stale f d"
    using recount_after_stale [OF delete_event_recount [OF that(1)] _ that(2)] by (simp add: drop_event_def)
qed

lemma rows_stale:
  "insert_receipt r d = Inr (u, d') \<Longrightarrow> stale f d \<Longrightarrow> stale f d'"
  "insert_instance w d = Inr (u, d') \<Longrightarrow> stale f d \<Longrightarrow> stale f d'"
  by (auto simp: insert_receipt_def insert_instance_def stale_def holds_run_def split: if_splits)

lemma insert_event_stale: "insert_event e d = Inr (u, d') \<Longrightarrow> stale f d \<Longrightarrow> stale f d'"
proof -
  let ?d = "d\<lparr>wf_events := wf_events d @ [e]\<rparr>"
  assume run: "insert_event e d = Inr (u, d')" and st: "stale f d"
  then obtain w where w: "w \<in> set (wf_instances d)"
    "update_instance False w ((account ?d w)\<lparr>wi_next_event_seq := wi_next_event_seq w + 1\<rparr>) ?d = Inr (u, d')"
    by (auto simp: insert_event_def Let_def split: option.splits if_splits dest: find_instance_Some)
  then show ?thesis using st update_instance_stale [OF w(2), of f] by (simp add: stale_def)
qed

section \<open>Contracts\<close>

interpretation consistent: workflow_contract workflow_inv "\<lambda>_. True"
  by unfold_locales (simp_all add: keeps_update_where keeps_update_step_at keeps_workflow_statements keeps_insert_instance)

lemma keeps_conj:
  "keeps J m \<Longrightarrow> (\<And>d x d'. J d \<Longrightarrow> P d \<Longrightarrow> m d = Inr (x, d') \<Longrightarrow> P d') \<Longrightarrow> keeps (\<lambda>d. J d \<and> P d) m"
  unfolding keeps_def by blast

lemma keeps_extending:
  "keeps workflow_inv m \<Longrightarrow> (\<And>d x d'. workflow_inv d \<Longrightarrow> m d = Inr (x, d') \<Longrightarrow> extends d d')
     \<Longrightarrow> keeps (\<lambda>d. workflow_inv d \<and> extends d0 d) m"
  using extends_trans by (intro keeps_conj) blast+

interpretation history: workflow_contract "\<lambda>d. workflow_inv d \<and> extends d0 d" "\<lambda>_. True" for d0
proof
  show "keeps (\<lambda>d. workflow_inv d \<and> extends d0 d) (update_where sets i p f)"
    if "\<And>w. sets \<or> wi_state (f w) = wi_state w" for sets f i p
    using update_where_extends that by (intro keeps_extending keeps_update_where) (auto simp: workflow_inv_def)
  then show "keeps (\<lambda>d. workflow_inv d \<and> extends d0 d) (update_where True i p (activated token now t))" for i p token now t
    by simp
qed (rule keeps_extending [OF keeps_update_step_at update_step_at_extends]
      keeps_extending [OF keeps_workflow_statements(1) insert_step_extends]
      keeps_extending [OF keeps_workflow_statements(2) insert_event_extends]
      keeps_extending [OF keeps_workflow_statements(3) delete_event_extends]
      keeps_extending [OF keeps_workflow_statements(4) insert_rows_extend(1)]
      keeps_extending [OF keeps_insert_instance insert_rows_extend(2)], assumption+)+

interpretation fenced: workflow_contract "\<lambda>d. workflow_inv d \<and> stale f d" "\<lambda>token. token \<noteq> fc_token f" for f
proof
  show "keeps (\<lambda>d. workflow_inv d \<and> stale f d) (update_where sets i p g)"
    if "\<And>w. sets \<or> wi_state (g w) = wi_state w" "\<And>w. wi_state (g w) = Running \<Longrightarrow> wi_run (g w) = None \<or> wi_state w = Running"
    for sets g i p
    using update_where_stale [where f = f and g = g] that by (intro keeps_conj keeps_update_where) blast+
  show "keeps (\<lambda>d. workflow_inv d \<and> stale f d) (update_where True i p (activated token now t))"
    if "token \<noteq> fc_token f" for i p token now t
    by (intro keeps_conj keeps_update_where, simp, erule (1) update_where_stale, simp add: activated_def that)
  show "keeps (\<lambda>d. workflow_inv d \<and> stale f d) (update_step_at k g)" for k g
    by (rule keeps_conj [OF keeps_update_step_at]) (erule (1) update_step_at_stale)
  show "keeps (\<lambda>d. workflow_inv d \<and> stale f d) (insert_step s)" for s
    by (rule keeps_conj [OF keeps_workflow_statements(1)]) (erule (1) history_stale)
  show "keeps (\<lambda>d. workflow_inv d \<and> stale f d) (insert_event e)" for e
    by (rule keeps_conj [OF keeps_workflow_statements(2)]) (erule (1) insert_event_stale)
  show "keeps (\<lambda>d. workflow_inv d \<and> stale f d) (delete_event i n)" for i n
    by (rule keeps_conj [OF keeps_workflow_statements(3)]) (erule (1) history_stale)
  show "keeps (\<lambda>d. workflow_inv d \<and> stale f d) (insert_receipt r)" for r
    by (rule keeps_conj [OF keeps_workflow_statements(4)]) (erule (1) rows_stale)
  show "keeps (\<lambda>d. workflow_inv d \<and> stale f d) (insert_instance w)" for w
    by (rule keeps_conj [OF keeps_insert_instance]) (erule (1) rows_stale)
qed

section \<open>Runs of the store\<close>

lemma history_step: "workflow_inv d \<Longrightarrow> workflow_inv (perform cx vd d call) \<and> extends d (perform cx vd d call)"
  using history.perform_keeps [of d d] extends_refl by (cases call) simp

interpretation workflow_calls: monotone_system "perform cx vd" "\<lambda>_. True" workflow_inv extends for cx vd
  by unfold_locales (use history_step extends_refl extends_trans in blast)+

definition workflow_run ::
  "codec \<Rightarrow> (workflow_target \<Rightarrow> bytes) \<Rightarrow> nat \<Rightarrow> (workflow_call \<times> int \<times> workflows_config) list \<Rightarrow> workflow_store" where
  "workflow_run cx vd owner calls = run_events (perform cx vd) (empty_workflows owner) calls"

lemma workflow_run_inv: "workflow_inv (workflow_run cx vd owner calls)"
  unfolding workflow_run_def by (rule workflow_calls.run_inv [OF empty_workflows_inv]) (simp add: list_all_iff)

lemma workflow_run_append: "workflow_run cx vd owner (cs @ cs') = run_events (perform cx vd) (workflow_run cx vd owner cs) cs'"
  by (simp add: workflow_run_def)

text \<open>
  C4. After any sequence of workflow operations, whatever their arguments, clocks and limits
  and whichever of them failed, the tables are consistent: every running step belongs to the
  run that holds its instance, a finished instance has only settled or cancelled steps, the
  ordinals of an instance are 0, 1, 2, ..., no step was attempted more often than its retry
  limit allows, no event was consumed twice, and the counters of every instance are those of
  its history.
\<close>

theorem workflow_store_consistent: "workflow_inv (workflow_run cx vd owner calls)"
  unfolding workflow_run_def by (rule workflow_calls.run_inv [OF empty_workflows_inv]) (simp add: list_all_iff)


text \<open>The calls a run makes under its fence.\<close>

fun call_fence :: "workflow_call \<Rightarrow> workflow_fence option" where
  "call_fence (CallHeartbeat f) = Some f"
| "call_fence (CallFinish f completion) = Some f"
| "call_fence (CallYield f) = Some f"
| "call_fence (CallBatch f cs remaining tokens) = Some f"
| "call_fence (CallSettle f a outcome) = Some f"
| "call_fence (CallResolve f ordinal attempt code delay) = Some f"
| "call_fence _ = None"

lemma running_blocks:
  "stale f d \<Longrightarrow> andthen (running f now) h d = Inl WorkflowRunStale"
  by (simp add: andthen_def stale_running)

lemma transaction_blocked: "isl (m d) \<Longrightarrow> snd (transaction m d) = d"
  by (cases "m d") (simp_all add: transaction_def)

lemma lift_blocks: "(\<And>x. isl (h x d)) \<Longrightarrow> isl (andthen (lift r) h d)"
  by (cases r) (simp_all add: andthen_def lift_def)

lemma require_blocks: "isl (h () d) \<Longrightarrow> isl (andthen (require e b) h d)"
  by (simp add: andthen_def require_def ret_def throw_def)

lemma heartbeat_blocked: "stale f d \<Longrightarrow> isl (heartbeat f now limits d)"
proof -
  assume st: "stale f d"
  have none: "update_where False (fc_instance f) (\<lambda>w. holds_run f w \<and> lease_live now w) g d = Inr (0, d)" for g
    using st by (auto simp: update_where_def stale_def split: option.splits dest: find_instance_Some)
  show ?thesis
    unfolding heartbeat_def by (rule lift_blocks) (simp add: andthen_def none require_def throw_def)
qed

lemma fenced_call_blocked:
  assumes "stale f d" "call_fence c = Some f"
  shows "perform cx vd d (c, now, limits) = d"
  using assms
  by (cases c) (auto simp: heartbeat_workflow_def finish_workflow_def yield_workflow_def claim_workflow_batch_def
      settle_workflow_step_def resolve_workflow_delay_def running_blocks
      intro!: transaction_blocked lift_blocks require_blocks heartbeat_blocked)

text \<open>
  C6. A run that lost its lease never comes back: once no row is held under a fence, and as
  long as the token is not drawn again, no later call under that fence (heartbeat, batch,
  settlement, delay, yield, completion) changes the store, whatever happened in between.
\<close>

theorem lost_run_stays_lost:
  assumes "stale f (workflow_run cx vd owner calls)"
    and "\<forall>c \<in> set later. \<not> draws (fst c) (fc_token f)" and "call_fence c = Some f"
  shows "perform cx vd (workflow_run cx vd owner (calls @ later)) (c, now, limits) = workflow_run cx vd owner (calls @ later)"
proof -
  have "workflow_inv (run_events (perform cx vd) d later) \<and> stale f (run_events (perform cx vd) d later)"
    if "workflow_inv d" "stale f d" for d
    using assms(2) that
  proof (induction later arbitrary: d)
    case (Cons call later)
    obtain k now limits where call: "call = (k, now, limits)" by (cases call)
    have "workflow_inv (perform cx vd d call) \<and> stale f (perform cx vd d call)"
      unfolding call by (rule fenced.perform_keeps) (use Cons.prems call in auto)
    then show ?case using Cons by simp
  qed simp
  then have "stale f (workflow_run cx vd owner (calls @ later))"
    using assms(1) workflow_run_inv unfolding workflow_run_append by blast
  then show ?thesis using assms(3) by (rule fenced_call_blocked)
qed

end
