(* ===== verification/Workflow_Recovery.thy ===== *)
theory Workflow_Recovery
  imports Workflow_History "HOL-Library.Code_Target_Numeral"
begin

text \<open>
  Recovery of expired runs: exactly when a page of expired runs can be released, what the
  release leaves behind, and the run that makes every later recovery fail.
\<close>

section \<open>Accounting of an unchanged number of steps\<close>

lemma length_filter_mono: "(\<And>x. P x \<Longrightarrow> Q x) \<Longrightarrow> length (filter P xs) \<le> length (filter Q xs)"
  by (induction xs) (auto simp: le_Suc_eq)

lemma account_checks:
  assumes "instance_checks w" "account d w = w" "\<not> is_terminal (wi_state w)"
    "length (steps_of d' (wi_id w)) = length (steps_of d (wi_id w))"
  shows "instance_checks (account d' w)"
proof -
  have "wi_completed (account d' w) \<le> wi_settled (account d' w)"
    unfolding account_counts by (rule length_filter_mono) (simp add: settled_state_def)
  moreover have "wi_settled (account d' w) \<le> wi_registered (account d' w)" by (simp add: account_counts)
  moreover have "wi_registered (account d' w) = wi_registered w" using assms(2,4) account_counts(1) by metis
  moreover have "run_columns_ok (account d' w) = run_columns_ok w"
    using assms(3) by (simp add: run_columns_ok_def is_terminal_def split: workflow_state.splits)
  moreover have "expiry_ok (account d' w) = expiry_ok w"
    by (cases "wi_terminal_at w"; cases "wi_expires_at w") (simp_all add: expiry_ok_def)
  ultimately show ?thesis using assms(1) by (simp add: instance_checks_def)
qed

section \<open>Giving back the steps of a run\<close>

definition given_back :: "int \<Rightarrow> workflow_step \<Rightarrow> workflow_step" where
  "given_back now s = s\<lparr>st_state := Pending, st_tokens := None, st_updated := now\<rparr>"

lemma given_back_simps [simp]:
  "step_key (given_back now s) = step_key s" "st_instance (given_back now s) = st_instance s"
  "st_generation (given_back now s) = st_generation s" "st_descriptor (given_back now s) = st_descriptor s"
  "st_state (given_back now s) = Pending" "st_attempt (given_back now s) = st_attempt s"
  "st_window (given_back now s) = st_window s" "st_updated (given_back now s) = now" "st_tokens (given_back now s) = None"
  "st_config_bytes (given_back now s) = st_config_bytes s" "st_started (given_back now s) = st_started s"
  "st_ceiling (given_back now s) = st_ceiling s" "st_output (given_back now s) = st_output s"
  "st_due (given_back now s) = st_due s"
  by (simp_all add: given_back_def step_key_def)

lemma given_back_checks: "step_checks s \<Longrightarrow> st_state s = StepRunning \<Longrightarrow> step_checks (given_back now s)"
  by (auto simp: step_checks_def step_columns_ok_def step_kind_ok_def step_shape_ok_def given_back_def settled_state_def Let_def
      split: option.splits)

definition held_steps :: "workflow_store \<Rightarrow> workflow_instance \<Rightarrow> workflow_step list" where
  "held_steps d w = filter (\<lambda>s. st_instance s = wi_id w \<and> st_generation s = wi_generation w \<and> st_state s = StepRunning
     \<and> run_token_of s = map_option rl_token (wi_run w)) (wf_steps d)"

lemmas tx_runs = andthen_def reading_def lift_def ret_def require_def throw_def

text \<open>One statement: the step becomes pending and its instance is recounted.\<close>

definition recounted :: "nat \<Rightarrow> workflow_store \<Rightarrow> workflow_store" where
  "recounted i d = d\<lparr>wf_instances := map (\<lambda>v. if wi_id v = i then account d v else v) (wf_instances d)\<rparr>"

lemma give_back_step:
  assumes inv: "workflow_inv d" and s: "s \<in> set (wf_steps d)" "st_state s = StepRunning" "st_instance s = wi_id w"
    and w: "w \<in> set (wf_instances d)" "wi_state w = Running" "wi_run w = Some l" "rl_until l \<le> now"
  shows "update_step_at (step_key s) (given_back now) d = Inr ((), recounted (wi_id w) (replace_step (given_back now s) d))"
proof -
  have ok: "rows_ok d" and acc: "account d w = w" using inv w(1) by (simp_all add: workflow_inv_def accounted_def)
  have find: "find_instance d (st_instance s) = Some w" using w(1) s(3) by (simp add: find_instance_iff [OF ok])
  obtain v where "v \<in> set (wf_instances d)" "owned_by v s" using rows_okD(6) [OF ok s(1)] by blast
  then have own: "owned_by w s" using instance_unique [OF ok _ w(1)] s(3) by (auto simp: owned_by_def)
  let ?d = "replace_step (given_back now s) d"
  have len: "length (steps_of ?d (wi_id w)) = length (steps_of d (wi_id w))" by (simp add: steps_of_replace)
  have iw: "instance_checks w" "wi_has_activated w" using rows_okD(3) [OF ok w(1)] w(2) by (simp_all add: instance_ok_def)
  have "update_instance False w (account ?d w) ?d = Inr ((), replace_instance (account ?d w) ?d)"
    using account_checks [OF iw(1) acc _ len] w iw(2)
    by (simp add: update_instance_def identity_ok_def run_guard_def event_sequence_guard_def is_terminal_def)
  moreover have "map (\<lambda>v. if wi_id v = wi_id w then account ?d w else v) (wf_instances d)
      = map (\<lambda>v. if wi_id v = wi_id w then account ?d v else v) (wf_instances d)"
    by (intro map_cong) (auto dest: instance_unique [OF ok _ w(1)])
  then have "replace_instance (account ?d w) ?d = recounted (wi_id w) ?d"
    by (simp add: replace_instance_def recounted_def)
  moreover have "step_transition_guard d s (given_back now s)"
    using s(2) own w by (auto simp: step_transition_guard_def owner_is_def find runs_under_def owned_by_def Let_def)
  ultimately have "update_step s (given_back now s) d = Inr ((), recounted (wi_id w) ?d)"
    using s find given_back_checks [OF rows_okD(4) [OF ok s(1)] s(2)]
    by (simp add: update_step_def step_identity_ok_def attempt_guard_def wait_settlement_guard_def recount_def)
  moreover have "List.find (\<lambda>t. step_key t = step_key s) (wf_steps d) = Some s" using s(1) by (simp add: find_step_iff [OF ok])
  ultimately show ?thesis by (simp add: update_step_at_def)
qed

lemma account_twice [simp]: "account d (account e w) = account d w"
  by (simp add: account_def result_bytes_def)

lemma recounted_simps [simp]:
  "wf_steps (recounted i d) = wf_steps d" "wf_events (recounted i d) = wf_events d" "wf_receipts (recounted i d) = wf_receipts d"
  "wf_owner (recounted i d) = wf_owner d" "account (recounted i d) = account d"
  by (auto simp: recounted_def account_def [abs_def] steps_of_def [abs_def] events_of_def [abs_def])

lemma recounted_twice: "recounted i (d\<lparr>wf_instances := wf_instances (recounted i e)\<rparr>) = recounted i (d\<lparr>wf_instances := wf_instances e\<rparr>)"
proof -
  have "account (d\<lparr>wf_instances := x\<rparr>) = account d" for x
    by (auto simp: account_def [abs_def] steps_of_def [abs_def] events_of_def [abs_def])
  then show ?thesis by (simp add: recounted_def comp_def)
qed

definition back_all :: "int \<Rightarrow> workflow_step list \<Rightarrow> workflow_store \<Rightarrow> workflow_store" where
  "back_all now ss d = d\<lparr>wf_steps := map (\<lambda>s. if step_key s \<in> step_key ` set ss then given_back now s else s) (wf_steps d)\<rparr>"

lemma back_all_Cons:
  assumes "distinct (map step_key (wf_steps d))" "s \<in> set (wf_steps d)" "step_key s \<notin> step_key ` set ss"
  shows "wf_steps (back_all now ss (replace_step (given_back now s) d)) = wf_steps (back_all now (s # ss) d)"
proof -
  have "t = s" if "t \<in> set (wf_steps d)" "step_key t = step_key s" for t
    using that assms(1,2) by (auto simp: distinct_map inj_on_def)
  then show ?thesis using assms(3) by (auto simp: back_all_def wf_steps_replace)
qed

lemma back_all_single:
  assumes "distinct (map step_key (wf_steps d))" "s \<in> set (wf_steps d)"
  shows "back_all now [s] d = replace_step (given_back now s) d"
proof -
  have "t = s" if "t \<in> set (wf_steps d)" "step_key t = step_key s" for t
    using that assms by (auto simp: distinct_map inj_on_def)
  then have "map (\<lambda>t. if step_key t \<in> step_key ` set [s] then given_back now t else t) (wf_steps d)
      = map (\<lambda>t. if step_key t = step_key s then given_back now s else t) (wf_steps d)" by auto
  then show ?thesis by (simp only: back_all_def replace_step_def given_back_simps)
qed

lemma give_back_steps:
  assumes "workflow_inv d" "set ss \<subseteq> set (wf_steps d)" "\<forall>s \<in> set ss. st_state s = StepRunning \<and> st_instance s = wi_id w"
    "distinct (map step_key ss)" "w \<in> set (wf_instances d)" "wi_state w = Running" "wi_run w = Some l" "rl_until l \<le> now"
  shows "for_each (\<lambda>s. update_step_at (step_key s) (given_back now)) ss d
    = Inr ((), if ss = [] then d else recounted (wi_id w) (back_all now ss d))"
  using assms
proof (induction ss arbitrary: d w)
  case Nil
  then show ?case by (simp add: ret_def)
next
  case (Cons s ss)
  let ?e = "replace_step (given_back now s) d"
  let ?d = "recounted (wi_id w) ?e"
  have ok: "rows_ok d" using Cons.prems(1) by (simp add: workflow_inv_def)
  have s: "s \<in> set (wf_steps d)" "st_state s = StepRunning" "st_instance s = wi_id w" using Cons.prems(2,3) by auto
  have step: "update_step_at (step_key s) (given_back now) d = Inr ((), ?d)"
    by (rule give_back_step [OF Cons.prems(1) s Cons.prems(5-8)])
  have inv: "workflow_inv ?d" by (rule keepsD [OF keeps_update_step_at Cons.prems(1) step])
  have fresh: "step_key s \<notin> step_key ` set ss" using Cons.prems(4) by auto
  have "for_each (\<lambda>s. update_step_at (step_key s) (given_back now)) ss ?d
      = Inr ((), if ss = [] then ?d else recounted (wi_id (account ?e w)) (back_all now ss ?d))"
  proof (rule Cons.IH [OF inv])
    show "set ss \<subseteq> set (wf_steps ?d)"
      using Cons.prems(2) fresh by (auto simp: wf_steps_replace image_iff)
    show "account ?e w \<in> set (wf_instances ?d)" using Cons.prems(5) by (auto simp: recounted_def)
  qed (use Cons.prems in auto)
  moreover have "recounted (wi_id w) (back_all now ss ?d) = recounted (wi_id w) (back_all now (s # ss) d)"
  proof -
    have "back_all now ss ?d = (back_all now (s # ss) d)\<lparr>wf_instances := wf_instances (recounted (wi_id w) ?e)\<rparr>"
      using back_all_Cons [OF rows_okD(2) [OF ok] s(1) fresh, of now] by (simp add: back_all_def recounted_def replace_step_def)
    moreover have "(back_all now (s # ss) d)\<lparr>wf_instances := wf_instances ?e\<rparr> = back_all now (s # ss) d"
      by (simp add: back_all_def replace_step_def)
    ultimately show ?thesis by (simp only: recounted_twice)
  qed
  moreover have "?d = recounted (wi_id w) (back_all now [s] d)"
    by (simp add: back_all_single [OF rows_okD(2) [OF ok] s(1)])
  ultimately show ?case by (simp add: andthen_def step)
qed

section \<open>Releasing an expired run\<close>

text \<open>
  A run can be given up unless it leaves nothing to continue with: no pause was requested, all
  of its steps are settled or cancelled, and at least one was cancelled.
\<close>

definition run_recoverable :: "workflow_store \<Rightarrow> workflow_instance \<Rightarrow> bool" where
  "run_recoverable d w \<longleftrightarrow> wi_pause_requested w \<or> has_step d (wi_id w) unfinished_states \<or> \<not> has_step d (wi_id w) {Cancelled}"

definition run_released :: "workflow_state \<Rightarrow> int option \<Rightarrow> int \<Rightarrow> workflow_instance \<Rightarrow> workflow_instance" where
  "run_released state next_run now v = v\<lparr>wi_state := state, wi_run := None, wi_pause_requested := False,
     wi_yield_requested := False, wi_next_run := next_run, wi_updated := now\<rparr>"

lemma run_released_simps [simp]:
  "wi_identity (run_released st n now v) = wi_identity v" "wi_input (run_released st n now v) = wi_input v"
  "wi_retention (run_released st n now v) = wi_retention v" "wi_next_event_seq (run_released st n now v) = wi_next_event_seq v"
  "wi_state (run_released st n now v) = st" "wi_run (run_released st n now v) = None"
  "account d (run_released st n now v) = run_released st n now (account d v)"
  by (simp_all add: run_released_def account_def result_bytes_def)

lemma settled_all: "length (filter P xs) = length xs \<longleftrightarrow> (\<forall>x \<in> set xs. P x)"
  by (induction xs) (auto simp: le_imp_less_Suc [THEN less_imp_neq] Suc_le_eq)

lemma wake_exists:
  assumes "workflow_inv d" "\<not> has_step d i {Pending, DelayPending, StepRunning}"
  shows "min_opt (List.map_filter step_wake (steps_of d i)) \<noteq> None \<longleftrightarrow> has_step d i {StepWaiting, RetryWait}"
proof -
  have "step_wake s \<noteq> None \<longleftrightarrow> st_state s \<in> {StepWaiting, RetryWait}" if "s \<in> set (steps_of d i)" for s
  proof -
    have "step_checks s" using that rows_okD(4) [of d s] assms(1) by (simp add: workflow_inv_def steps_of_def)
    then have "st_due s \<noteq> None \<longleftrightarrow> st_state s \<in> {RetryWait, StepWaiting}" unfolding step_checks_def step_columns_ok_def by blast
    moreover have "st_state s \<notin> {Pending, DelayPending, StepRunning}" using that assms(2) by (auto simp: has_step_def list_ex_iff)
    ultimately show ?thesis by (auto simp: step_wake_def)
  qed
  then show ?thesis by (auto simp: map_filter_def filter_empty_conv has_step_def list_ex_iff)
qed

lemma registered_settled:
  assumes "workflow_inv d" "v \<in> set (wf_instances d)"
  shows "wi_registered v = wi_settled v \<longleftrightarrow> (\<forall>s \<in> set (steps_of d (wi_id v)). settled_state (st_state s))"
proof -
  have acc: "account d v = v" using assms by (simp add: workflow_inv_def accounted_def)
  show ?thesis using account_counts(1,2) [of d v] unfolding acc by (metis settled_all)
qed

lemma release_target_expired:
  assumes inv: "workflow_inv d" and v: "v \<in> set (wf_instances d)" and idle: "\<not> has_step d (wi_id v) {StepRunning}"
  shows "release_target d v t =
    (if \<not> run_recoverable d v then Inl WorkflowInvariantViolation
     else if wi_pause_requested v then Inr (Paused, None)
     else if has_step d (wi_id v) {Pending, DelayPending} \<or> \<not> has_step d (wi_id v) {StepWaiting, RetryWait} then Inr (Queued, Some t)
     else Inr (Waiting, None))"
proof -
  have acc: "account d v = v" using inv v by (simp add: workflow_inv_def accounted_def)
  note reg = registered_settled [OF inv v]
  have states: "st_state s \<in> {StepComplete, StepFailed, Cancelled, Pending, DelayPending, StepWaiting, RetryWait}"
    if "s \<in> set (steps_of d (wi_id v))" for s
    using that idle by (cases "st_state s") (auto simp: has_step_def list_ex_iff)
  have split: "has_step d (wi_id v) unfinished_states \<longleftrightarrow> has_step d (wi_id v) {Pending, DelayPending} \<or> has_step d (wi_id v) {StepWaiting, RetryWait}"
    using idle by (auto simp: has_step_def list_ex_iff unfinished_states_def)
  have settled: "(\<forall>s \<in> set (steps_of d (wi_id v)). settled_state (st_state s)) \<longleftrightarrow>
      \<not> has_step d (wi_id v) unfinished_states \<and> \<not> has_step d (wi_id v) {Cancelled}"
    using states unfolding has_step_def list_ex_iff unfinished_states_def settled_state_def by fastforce
  show ?thesis
  proof (cases "has_step d (wi_id v) {Pending, DelayPending}")
    case True
    then show ?thesis using idle by (simp add: release_target_def run_recoverable_def split)
  next
    case False
    then have "\<not> has_step d (wi_id v) {Pending, DelayPending, StepRunning}" using idle by (auto simp: has_step_def list_ex_iff)
    from wake_exists [OF inv this] have "wi_next_wake v \<noteq> None \<longleftrightarrow> has_step d (wi_id v) {StepWaiting, RetryWait}"
      using account_counts(4) [of d v] acc by simp
    then show ?thesis using False idle by (auto simp: release_target_def run_recoverable_def split settled reg)
  qed
qed

lemma release_update:
  assumes inv: "workflow_inv d" and v: "v \<in> set (wf_instances d)" and idle: "\<not> has_step d (wi_id v) {StepRunning}"
    and run: "wi_state v = Running" "wi_run v = Some l" "rl_until l \<le> now" and target: "release_target d v t = Inr (st, n)"
  shows "update_instance True v (run_released st n now v) d = Inr ((), replace_instance (run_released st n now v) d)"
proof -
  have ok: "rows_ok d" and acc: "account d v = v" using inv v by (simp_all add: workflow_inv_def accounted_def)
  have iv: "instance_checks v" using rows_okD(3) [OF ok v] by (simp add: instance_ok_def)
  have st: "st = Queued \<and> n \<noteq> None \<or> st = Waiting \<and> n = None \<and> wi_next_wake v \<noteq> None \<and> \<not> has_step d (wi_id v) {Pending, DelayPending}
      \<or> st = Paused \<and> n = None"
    using target by (auto simp: release_target_def split: if_splits)
  have "run_guard v (run_released st n now v)" using run st by (auto simp: run_guard_def run_released_def is_terminal_def)
  moreover have "instance_transition_guard (wi_state v) st" using run st by (auto simp: instance_transition_guard_def)
  moreover have "frontier_guard d (run_released st n now v)"
    using idle st by (auto simp: frontier_guard_def run_released_def is_terminal_def)
  moreover have "instance_checks (run_released st n now v)"
    using iv run(1) st by (auto simp: instance_checks_def run_columns_ok_def expiry_ok_def run_released_def is_terminal_def split: option.splits)
  ultimately show ?thesis using acc run(1)
    by (simp add: update_instance_def identity_ok_def event_sequence_guard_def is_terminal_def)
qed

lemma release_expired:
  assumes inv: "workflow_inv d" and v: "v \<in> set (wf_instances d)" and idle: "\<not> has_step d (wi_id v) {StepRunning}"
    and run: "wi_state v = Running" "wi_run v = Some l" "rl_until l \<le> now"
  shows "release_run v t now d = (case release_target d v t of Inl e \<Rightarrow> Inl e
    | Inr (st, n) \<Rightarrow> Inr (st, replace_instance (run_released st n now v) d))"
proof (cases "release_target d v t")
  case (Inr target)
  obtain st n where sn: "target = (st, n)" by fastforce
  have "find_instance d (wi_id v) = Some v" using inv v by (simp add: find_instance_iff workflow_inv_def)
  then have "update_where True (wi_id v) (holds_run \<lparr>fc_instance = wi_id v, fc_generation = wi_generation v, fc_token = rl_token l\<rparr>)
      (run_released st n now) d = Inr (1, replace_instance (run_released st n now v) d)"
    using release_update [OF assms] Inr sn run by (simp add: update_where_def holds_run_def andthen_def ret_def)
  then show ?thesis using Inr sn run(2)
    by (simp add: release_run_def tx_runs run_released_def [abs_def] ok_or_def)
qed (simp add: release_run_def tx_runs)

lemma recounted_accounted: "accounted d \<Longrightarrow> recounted i d = d"
proof -
  assume "accounted d"
  then have "map (\<lambda>v. if wi_id v = i then account d v else v) (wf_instances d) = wf_instances d"
    by (intro map_idI) (auto simp: accounted_def)
  then show ?thesis by (simp add: recounted_def)
qed

text \<open>The store after the steps of an expired run are pending again.\<close>

definition gave_back :: "int \<Rightarrow> workflow_instance \<Rightarrow> workflow_store \<Rightarrow> workflow_store" where
  "gave_back now w d = recounted (wi_id w) (back_all now (held_steps d w) d)"

lemma give_back_run:
  assumes inv: "workflow_inv d" and w: "w \<in> set (wf_instances d)" "wi_state w = Running" "wi_run w = Some l" "rl_until l \<le> now"
  shows "update_steps_where (\<lambda>s. st_instance s = wi_id w \<and> st_generation s = wi_generation w \<and> st_state s = StepRunning
      \<and> run_token_of s = map_option rl_token (wi_run w)) (given_back now) d = Inr ((), gave_back now w d)"
    "workflow_inv (gave_back now w d)"
proof -
  have held: "set (held_steps d w) \<subseteq> set (wf_steps d)" "\<forall>s \<in> set (held_steps d w). st_state s = StepRunning \<and> st_instance s = wi_id w"
    by (auto simp: held_steps_def)
  have "distinct (map step_key (held_steps d w))"
    using rows_okD(2) [of d] inv by (simp add: held_steps_def workflow_inv_def distinct_map_filter)
  from give_back_steps [OF inv held this w] have "for_each (\<lambda>s. update_step_at (step_key s) (given_back now)) (held_steps d w) d
      = Inr ((), if held_steps d w = [] then d else gave_back now w d)"
    unfolding gave_back_def .
  moreover have "gave_back now w d = d" if "held_steps d w = []"
    using that inv by (simp add: gave_back_def back_all_def recounted_accounted workflow_inv_def)
  ultimately have run: "for_each (\<lambda>s. update_step_at (step_key s) (given_back now)) (held_steps d w) d = Inr ((), gave_back now w d)"
    by (simp split: if_splits)
  then show "update_steps_where (\<lambda>s. st_instance s = wi_id w \<and> st_generation s = wi_generation w \<and> st_state s = StepRunning
      \<and> run_token_of s = map_option rl_token (wi_run w)) (given_back now) d = Inr ((), gave_back now w d)"
    by (simp add: update_steps_where_def tx_runs held_steps_def)
  show "workflow_inv (gave_back now w d)"
    by (rule keepsD [where I = workflow_inv, OF keeps_for_each inv run]) (rule keeps_update_step_at)
qed

lemma steps_of_gave_back:
  "steps_of (gave_back now w d) i = map (\<lambda>s. if step_key s \<in> step_key ` set (held_steps d w) then given_back now s else s) (steps_of d i)"
  by (simp add: steps_of_def gave_back_def back_all_def filter_map comp_def if_distrib [of st_instance] cong: if_cong)

lemma held_iff:
  assumes inv: "workflow_inv d" and w: "w \<in> set (wf_instances d)" and s: "s \<in> set (steps_of d (wi_id w))"
  shows "step_key s \<in> step_key ` set (held_steps d w) \<longleftrightarrow> st_state s = StepRunning"
proof -
  have ok: "rows_ok d" using inv by (simp add: workflow_inv_def)
  have s': "s \<in> set (wf_steps d)" "st_instance s = wi_id w" using s by (auto simp: steps_of_def)
  have same: "t = s" if "t \<in> set (wf_steps d)" "step_key t = step_key s" for t
    using that s'(1) rows_okD(2) [OF ok] by (auto simp: distinct_map inj_on_def)
  obtain v where "v \<in> set (wf_instances d)" "owned_by v s" using rows_okD(6) [OF ok s'(1)] by blast
  then have own: "owned_by w s" using instance_unique [OF ok _ w] s'(2) by (auto simp: owned_by_def)
  have "run_token_of s = map_option rl_token (wi_run w)" if "st_state s = StepRunning"
    using own that by (cases "wi_run w") (simp_all add: owned_by_def runs_under_def del: map_option_eq_Some)
  then have "s \<in> set (held_steps d w) \<longleftrightarrow> st_state s = StepRunning"
    using own s' unfolding held_steps_def owned_by_def by (simp del: map_option_eq_Some) blast
  then show ?thesis using same by (auto simp: held_steps_def)
qed

lemma has_step_gave_back:
  assumes "workflow_inv d" "w \<in> set (wf_instances d)"
  shows "has_step (gave_back now w d) (wi_id w) states \<longleftrightarrow> has_step d (wi_id w) (states - {StepRunning} \<union> (if Pending \<in> states then {StepRunning} else {}))"
proof -
  have "st_state (if step_key s \<in> step_key ` set (held_steps d w) then given_back now s else s)
      = (if st_state s = StepRunning then Pending else st_state s)" if "s \<in> set (steps_of d (wi_id w))" for s
    using held_iff [OF assms that] by simp
  then have "has_step (gave_back now w d) (wi_id w) states
      \<longleftrightarrow> (\<exists>s \<in> set (steps_of d (wi_id w)). (if st_state s = StepRunning then Pending else st_state s) \<in> states)"
    by (simp only: has_step_def list_ex_iff steps_of_gave_back set_map bex_simps(7) cong: bex_cong)
  then show ?thesis by (auto simp: has_step_def list_ex_iff split: if_splits)
qed

text \<open>What a recovered run leaves: its row and the time it may run again.\<close>

definition recovered_to :: "workflow_store \<Rightarrow> workflow_instance \<Rightarrow> int \<Rightarrow> workflow_state \<times> int option" where
  "recovered_to d w t =
     (if wi_pause_requested w then (Paused, None)
      else if has_step d (wi_id w) {Pending, DelayPending, StepRunning} \<or> \<not> has_step d (wi_id w) {StepWaiting, RetryWait} then (Queued, Some t)
      else (Waiting, None))"

definition recovered :: "int \<Rightarrow> int \<Rightarrow> workflow_instance \<Rightarrow> workflow_store \<Rightarrow> workflow_store" where
  "recovered t now w d =
     replace_instance (run_released (fst (recovered_to d w t)) (snd (recovered_to d w t)) now (account (gave_back now w d) w)) (gave_back now w d)"

lemma recover_run_exact:
  assumes inv: "workflow_inv d" and w: "w \<in> set (wf_instances d)" "wi_state w = Running" "wi_run w = Some l" "rl_until l \<le> now"
    and t: "lease_deadline now (wc_recovery_backoff_ms limits) = Inr t"
  shows "recover_run now limits w d = (if run_recoverable d w then Inr ((), recovered t now w d) else Inl WorkflowInvariantViolation)"
proof -
  let ?d = "gave_back now w d" and ?v = "account (gave_back now w d) w"
  have "account ?d = account (back_all now (held_steps d w) d)" by (simp add: gave_back_def)
  then have v: "?v \<in> set (wf_instances ?d)"
    using w(1) by (simp only: gave_back_def recounted_def) (force simp: back_all_def)
  have inv': "workflow_inv ?d" by (rule give_back_run(2) [OF inv w])
  have find: "find_instance ?d (wi_id w) = Some ?v" using find_instance_iff [of ?d] inv' v by (simp add: workflow_inv_def)
  have idle: "\<not> has_step ?d (wi_id ?v) {StepRunning}"
    using has_step_gave_back [OF inv w(1), of now "{StepRunning}"] by (simp add: has_step_def list_ex_iff)
  have same: "run_recoverable ?d ?v \<longleftrightarrow> run_recoverable d w"
    using has_step_gave_back [OF inv w(1), of now] by (simp add: run_recoverable_def unfinished_states_def insert_commute insert_Diff_if)
  have "release_target ?d ?v t = (if run_recoverable d w then Inr (recovered_to d w t) else Inl WorkflowInvariantViolation)"
    unfolding release_target_expired [OF inv' v idle] same
    using has_step_gave_back [OF inv w(1), of now] by (simp add: recovered_to_def insert_commute insert_Diff_if)
  then have "release_run ?v t now ?d = (if run_recoverable d w then Inr (fst (recovered_to d w t), recovered t now w d) else Inl WorkflowInvariantViolation)"
    using release_expired [OF inv' v idle, of l now t] w by (simp add: recovered_def split: prod.splits)
  then show ?thesis
    using give_back_run(1) [OF inv w] find t
    by (simp add: recover_run_def tx_runs given_back_def [abs_def] ok_or_def)
qed

text \<open>Recovery of one run leaves the others alone.\<close>

lemma recovered_frame:
  assumes "wi_id v \<noteq> wi_id w"
  shows "v \<in> set (wf_instances (recovered t now w d)) \<longleftrightarrow> v \<in> set (wf_instances d)"
    "steps_of (recovered t now w d) (wi_id v) = steps_of d (wi_id v)"
    "run_recoverable (recovered t now w d) v = run_recoverable d v"
proof -
  show "v \<in> set (wf_instances (recovered t now w d)) \<longleftrightarrow> v \<in> set (wf_instances d)"
    using assms by (auto simp: recovered_def replace_instance_def gave_back_def recounted_def back_all_def)
  have "step_key s \<notin> step_key ` set (held_steps d w)" if "s \<in> set (steps_of d (wi_id v))" for s
    using that assms by (auto simp: steps_of_def held_steps_def step_key_def)
  then show st: "steps_of (recovered t now w d) (wi_id v) = steps_of d (wi_id v)"
    by (simp add: recovered_def steps_of_gave_back cong: map_cong)
  show "run_recoverable (recovered t now w d) v = run_recoverable d v" by (simp add: run_recoverable_def has_step_def st)
qed

lemma recovered_row:
  assumes "w \<in> set (wf_instances d)"
  shows "\<exists>v \<in> set (wf_instances (recovered t now w d)). wi_identity v = wi_identity w \<and> wi_run v = None
    \<and> (wi_state v, wi_next_run v) = recovered_to d w t"
proof -
  let ?v = "run_released (fst (recovered_to d w t)) (snd (recovered_to d w t)) now (account (gave_back now w d) w)"
  have "?v \<in> set (wf_instances (recovered t now w d))"
    using assms by (auto simp: recovered_def replace_instance_def gave_back_def recounted_def back_all_def image_iff)
  then show ?thesis by (rule bexI [rotated]) (simp add: run_released_def)
qed

lemma keeps_recover_run: "keeps workflow_inv (recover_run now limits w)"
  unfolding recover_run_def by (intro consistent.keeps_step_parts consistent.keeps_release)+

lemma recover_page:
  assumes "workflow_inv d" "set ws \<subseteq> set (wf_instances d)" "distinct (map wi_id ws)"
    "\<forall>w \<in> set ws. wi_state w = Running \<and> before_or_at (map_option rl_until (wi_run w)) now"
    "lease_deadline now (wc_recovery_backoff_ms limits) = Inr t"
  shows "for_each (recover_run now limits) ws d
    = (if list_all (run_recoverable d) ws then Inr ((), fold (recovered t now) ws d) else Inl WorkflowInvariantViolation)"
  using assms
proof (induction ws arbitrary: d)
  case (Cons w ws)
  obtain l where l: "wi_run w = Some l" "rl_until l \<le> now"
    using Cons.prems(4) by (cases "wi_run w") (auto simp: before_or_at_def)
  have exact: "recover_run now limits w d = (if run_recoverable d w then Inr ((), recovered t now w d) else Inl WorkflowInvariantViolation)"
    by (rule recover_run_exact [OF _ _ _ l]) (use Cons.prems in auto)
  show ?case
  proof (cases "run_recoverable d w")
    case True
    have other: "wi_id v \<noteq> wi_id w" if "v \<in> set ws" for v
      using that Cons.prems(3) by (simp add: image_iff) metis
    have "workflow_inv (recovered t now w d)"
      using keepsD [OF keeps_recover_run Cons.prems(1), of now limits w] exact True by simp
    moreover have "set ws \<subseteq> set (wf_instances (recovered t now w d))" using Cons.prems(2) recovered_frame(1) [OF other] by auto
    moreover have "list_all (run_recoverable (recovered t now w d)) ws = list_all (run_recoverable d) ws"
      using recovered_frame(3) [OF other] by (simp add: list_all_iff)
    ultimately show ?thesis using Cons.IH [of "recovered t now w d"] Cons.prems exact True by (simp add: andthen_def)
  qed (simp add: andthen_def exact)
qed (simp add: ret_def)

section \<open>Recovery of a page\<close>

lemma recover_workflows_page:
  assumes inv: "workflow_inv d" and "workflows_config_validate limits = Inr ()" "1 \<le> limit" "limit \<le> 1000"
    and "lease_deadline now (wc_recovery_backoff_ms limits) = Inr t"
  shows "recover_workflows now limits limit d =
    (if list_all (run_recoverable d) (expired_runs d now limit)
     then Inr (length (expired_runs d now limit), fold (recovered t now) (expired_runs d now limit) d)
     else Inl WorkflowInvariantViolation)"
proof -
  let ?page = "expired_runs d now limit"
  have sub: "set ?page \<subseteq> set (wf_instances d)" "\<forall>w \<in> set ?page. wi_state w = Running \<and> before_or_at (map_option rl_until (wi_run w)) now"
    using set_order_limit_subset unfolding expired_runs_def by fastforce+
  have "distinct (map wi_id ?page)"
    unfolding expired_runs_def by (rule distinct_order_limit) (use inv rows_okD(1) in \<open>simp add: workflow_inv_def distinct_map_filter\<close>)
  from recover_page [OF inv sub(1) this sub(2) assms(5)] show ?thesis
    using assms(2-4) by (simp add: recover_workflows_def tx_runs bounded_page_def)
qed


text \<open>A run of a single instance whose forward sleep was cancelled by a rollback request.\<close>

definition sample_target :: workflow_target where
  "sample_target = \<lparr>tg_instance = 1, tg_definition = 2, tg_definition_name = [119], tg_version = 3, tg_worker = 4,
     tg_worker_version = 5, tg_worker_code = [], tg_class_name = [87], tg_loader_schema = 1, tg_descriptor = []\<rparr>"

definition sample_identity :: "nat \<Rightarrow> workflow_identity" where
  "sample_identity i = \<lparr>id_target = sample_target, id_instance = i, id_external = [97 + i], id_generation = 1, id_nonce = 7,
     id_operation = i, id_batch = i, id_created = 1000, id_schedule = None\<rparr>"

definition sample_creation :: "nat \<Rightarrow> workflow_creation" where
  "sample_creation i = \<lparr>cr_identity = sample_identity i, cr_input = durable_header @ [0, 0], cr_retention = Some retention_default\<rparr>"

definition sample_fence :: "nat \<Rightarrow> nat \<Rightarrow> workflow_fence" where
  "sample_fence i token = \<lparr>fc_instance = i, fc_generation = 1, fc_token = token\<rparr>"

definition sample_sleep :: step_descriptor where
  "sample_sleep = \<lparr>sd_ordinal = 0, sd_name = [115], sd_name_count = 1, sd_config = Sleep 600000, sd_rollback_config = None,
     sd_rollback_step = False, sd_dependencies = [], sd_batch_first = 0, sd_batch_size = 1\<rparr>"

definition plain_codec :: codec where
  "plain_codec = \<lparr>cd_b64_decode = Some, cd_b64_encode = (\<lambda>v. v), cd_config_json = (\<lambda>c. [123, 125]),
     cd_event_json = (\<lambda>ty payload t. ty @ payload), cd_sha256 = (\<lambda>v. replicate 32 0)\<rparr>"

definition sample_calls :: "(workflow_call \<times> int \<times> workflows_config) list" where
  "sample_calls = map (\<lambda>(c, now). (c, now, workflows_config_default))
    [(CallInsert [sample_creation 1], 1000), (CallClaim (sample_identity 1) 11, 1000),
     (CallBatch (sample_fence 1 11) [sample_sleep] 300000 (\<lambda>_. 21), 2000), (CallYield (sample_fence 1 11), 2000)]"

definition rollback_calls :: "(workflow_call \<times> int \<times> workflows_config) list" where
  "rollback_calls = sample_calls @ map (\<lambda>(c, now). (c, now, workflows_config_default))
    [(CallRollback (sample_identity 1), 3000), (CallClaim (sample_identity 1) 12, 4000)]"

lemma rollback_strands_run:
  "let d = workflow_run plain_codec (\<lambda>_. []) 1 rollback_calls
   in map wi_state (wf_instances d) = [Running] \<and> map st_state (wf_steps d) = [Cancelled]
      \<and> \<not> list_all (run_recoverable d) (expired_runs d 100000 32)"
  by code_simp

lemma sample_limits:
  "workflows_config_validate workflows_config_default = Inr ()"
  "lease_deadline 100000 (wc_recovery_backoff_ms workflows_config_default) = Inr 101000"
  by code_simp+

lemma sample_runs:
  "let d = workflow_run plain_codec (\<lambda>_. []) 1 (take 3 sample_calls); page = expired_runs d 100000 32
   in list_all (run_recoverable d) page \<and> map wi_state (wf_instances (fold (recovered 101000 100000) page d)) = [Waiting]
      \<and> length page = 1"
  by code_simp


section \<open>Rollback and pause\<close>

text \<open>
  C38. A paused instance whose steps are all settled or cancelled, at least one of them
  cancelled, cannot be resumed: such an instance has a rollback to run, but the resumption
  counts the cancelled steps as unsettled, finds no deadline to wait for, and fails.
\<close>

theorem stranded_never_resumes:
  assumes "w \<in> set (wf_instances (workflow_run cx vd owner calls))" "wi_state w = Paused"
    and "\<not> has_step (workflow_run cx vd owner calls) (wi_id w) unfinished_states"
    and "has_step (workflow_run cx vd owner calls) (wi_id w) {Cancelled}"
    and "workflows_config_validate limits = Inr ()" "durable_deadline now 0 = Inr t"
  shows "modify_workflow cx' (wi_identity w) Resume now limits (workflow_run cx vd owner calls) = Inl WorkflowInvariantViolation"
proof -
  let ?d = "workflow_run cx vd owner calls"
  have inv: "workflow_inv ?d" by (rule workflow_run_inv)
  have ok: "rows_ok ?d" and acc: "account ?d w = w" using inv assms(1) by (simp_all add: workflow_inv_def accounted_def)
  have find: "find_instance ?d (wi_id w) = Some w" using assms(1) by (simp add: find_instance_iff [OF ok])
  have "instance_checks w" using rows_okD(3) [OF ok assms(1)] by (simp add: instance_ok_def)
  then have alive: "wi_expires_at w = None"
    using assms(2) by (auto simp: instance_checks_def run_columns_ok_def expiry_ok_def split: option.splits)
  have quiet: "st_state s \<notin> unfinished_states" if "s \<in> set (steps_of ?d (wi_id w))" for s
    using that assms(3) by (auto simp: has_step_def list_ex_iff)
  have due: "resumable_due ?d (wi_id w) now = []"
    using quiet by (auto simp: resumable_due_def filter_empty_conv unfinished_states_def)
  have unsettled: "wi_registered w \<noteq> wi_settled w"
    using registered_settled [OF inv assms(1)] assms(4) by (auto simp: has_step_def list_ex_iff settled_state_def)
  have "\<not> has_step ?d (wi_id w) {Pending, DelayPending, StepRunning}" "\<not> has_step ?d (wi_id w) {StepWaiting, RetryWait}"
    using quiet by (auto simp: has_step_def list_ex_iff unfinished_states_def)
  from wake_exists [OF inv this(1)] this(2) have wake: "wi_next_wake w = None" using account_counts(4) [of ?d w] acc by simp
  have ready: "\<not> list_ex (\<lambda>s. st_state s \<in> {Pending, DelayPending} \<or> st_state s = RetryWait \<and> before_or_at (st_due s) now) (steps_of ?d (wi_id w))"
    using quiet by (auto simp: list_ex_iff unfinished_states_def)
  have "update_where True (wi_id w) (\<lambda>_. True) (\<lambda>v. v\<lparr>wi_state := Waiting, wi_next_run := None, wi_updated := now\<rparr>) ?d
      = Inl WorkflowInvariantViolation"
    using find wake by (simp add: update_where_def update_instance_def frontier_guard_def andthen_def)
  then have "resume_workflow cx' w now limits ?d = Inl WorkflowInvariantViolation"
    using assms(2) due find unsettled ready by (simp add: resume_workflow_def tx_runs)
  then show ?thesis using assms(2,5,6) find alive
    by (simp add: modify_workflow_def tx_runs ok_or_def before_or_at_def is_terminal_def)
qed

definition paused_calls :: "(workflow_call \<times> int \<times> workflows_config) list" where
  "paused_calls = sample_calls @ map (\<lambda>(c, now). (c, now, workflows_config_default))
    [(CallRollback (sample_identity 1), 3000), (CallModify (sample_identity 1) Pause, 3500)]"

lemma sample_paused:
  "let d = workflow_run plain_codec (\<lambda>_. []) 1 paused_calls; w = hd (wf_instances d)
   in wf_instances d \<noteq> [] \<and> wi_state w = Paused \<and> wi_identity w = sample_identity 1
      \<and> \<not> has_step d (wi_id w) unfinished_states \<and> has_step d (wi_id w) {Cancelled}"
  by code_simp

lemma sample_now: "durable_deadline 4000 0 = Inr 4000"
  by code_simp

theorem stranded_never_resumes_witness:
  "modify_workflow plain_codec (sample_identity 1) Resume 4000 workflows_config_default
     (workflow_run plain_codec (\<lambda>_. []) 1 paused_calls) = Inl WorkflowInvariantViolation"
proof -
  let ?d = "workflow_run plain_codec (\<lambda>_. []) 1 paused_calls"
  have p: "wf_instances ?d \<noteq> []" "wi_state (hd (wf_instances ?d)) = Paused" "wi_identity (hd (wf_instances ?d)) = sample_identity 1"
    "\<not> has_step ?d (wi_id (hd (wf_instances ?d))) unfinished_states" "has_step ?d (wi_id (hd (wf_instances ?d))) {Cancelled}"
    using sample_paused unfolding Let_def by blast+
  from stranded_never_resumes [OF hd_in_set [OF p(1)] p(2,4,5) sample_limits(1) sample_now, of plain_codec] show ?thesis
    unfolding p(3) .
qed

section \<open>Maintenance of due steps\<close>

lemma maintain_idle:
  assumes inv: "workflow_inv d" and s: "s \<in> set (wf_steps d)" "st_state s = DelayPending" "owner_is d s (\<lambda>w. wi_state w \<noteq> Waiting)"
  shows "maintain_step cx now limits (st_instance s, st_ordinal s) d = Inr ((), d)"
proof -
  have ok: "rows_ok d" using inv by (simp add: workflow_inv_def)
  obtain w where w: "find_instance d (st_instance s) = Some w" "wi_state w \<noteq> Waiting"
    using s(3) by (auto simp: owner_is_def split: option.splits)
  obtain v where v: "v \<in> set (wf_instances d)" "owned_by v s" using rows_okD(6) [OF ok s(1)] by blast
  then have "find_instance d (st_instance s) = Some v" by (simp add: find_instance_iff [OF ok] owned_by_def)
  then have "(st_instance s, wi_generation w, st_ordinal s) = step_key s" using w v by (simp add: owned_by_def step_key_def)
  then have "read_step d (st_instance s) (wi_generation w) (st_ordinal s) = Some s"
    using find_step_iff [OF ok] s(1) by (simp only: read_step_def)
  then show ?thesis using w s(2)
    by (simp add: maintain_step_def tx_runs ok_or_def wake_def update_where_def)
qed


text \<open>A paused instance with a timed-out callback, and a second one whose sleep is over.\<close>

definition sample_callback :: step_descriptor where
  "sample_callback = sample_sleep\<lparr>sd_config := Do \<lparr>sc_retries = \<lparr>rp_limit = 1, rp_delay = None, rp_backoff = Constant\<rparr>,
     sc_timeout = 1000, sc_sensitive = None\<rparr>\<rparr>"

definition starving_calls :: "(workflow_call \<times> int \<times> workflows_config) list" where
  "starving_calls = map (\<lambda>(c, now). (c, now, workflows_config_default))
    [(CallInsert [sample_creation 1], 1000), (CallClaim (sample_identity 1) 11, 1000),
     (CallBatch (sample_fence 1 11) [sample_callback] 300000 (\<lambda>_. 21), 2000),
     (CallSettle (sample_fence 1 11) \<lparr>at_ordinal = 0, at_attempt = 1, at_token = 21\<rparr> OutcomeTimeout, 3000),
     (CallModify (sample_identity 1) Pause, 3000), (CallYield (sample_fence 1 11), 3000),
     (CallInsert [sample_creation 2], 4000), (CallClaim (sample_identity 2) 12, 4000),
     (CallBatch (sample_fence 2 12) [sample_sleep] 300000 (\<lambda>_. 22), 4000), (CallYield (sample_fence 2 12), 4000)]"

lemma sample_starving:
  "let d = workflow_run plain_codec (\<lambda>_. []) 1 starving_calls; page = due_steps d 700000 1
   in list_all (\<lambda>k. list_ex (\<lambda>s. k = (st_instance s, st_ordinal s) \<and> st_state s = DelayPending
        \<and> owner_is d s (\<lambda>w. wi_state w \<noteq> Waiting)) (wf_steps d)) page
      \<and> length page = 1 \<and> (2, 0) \<in> set (due_steps d 700000 2)"
  by code_simp


section \<open>A lost run in the sample\<close>

definition reclaim_calls :: "(workflow_call \<times> int \<times> workflows_config) list" where
  "reclaim_calls = drop 4 rollback_calls"

lemma sample_stale:
  "stale (sample_fence 1 11) (workflow_run plain_codec (\<lambda>_. []) 1 sample_calls)"
  "\<forall>c \<in> set reclaim_calls. \<not> draws (fst c) (fc_token (sample_fence 1 11))"
  by code_simp+

theorem lost_run_stays_lost_witness:
  "let d = workflow_run plain_codec (\<lambda>_. []) 1 (sample_calls @ reclaim_calls)
   in map wi_state (wf_instances d) = [Running]
      \<and> perform plain_codec (\<lambda>_. []) d (CallHeartbeat (sample_fence 1 11), 5000, workflows_config_default) = d"
proof -
  have "map wi_state (wf_instances (workflow_run plain_codec (\<lambda>_. []) 1 (sample_calls @ reclaim_calls))) = [Running]" by code_simp
  then show ?thesis
    using lost_run_stays_lost [OF sample_stale, of "CallHeartbeat (sample_fence 1 11)"] by (simp add: Let_def)
qed

end
