(* ===== verification/Search_TopK.thy ===== *)
theory Search_TopK
  imports OC_Prelude "HOL-Library.Word" "HOL-Library.Product_Lexorder" "HOL-Library.List_Lexorder" "HOL-Library.Multiset"
begin

text \<open>
  Exact vector search (\<open>crates/search/src/{vector,metric,top_k}.rs\<close>). A float is its IEEE-754
  bit pattern, so that the two zeros are distinct values; the comparisons of the language
  are defined on the patterns, and its rounded arithmetic is the parameter \<open>f64_ops\<close>. A
  \<open>BinaryHeap\<close> is the list of its elements in ascending order of their \<open>Ord\<close>: \<open>peek\<close> is the
  last element and \<open>pop\<close> removes it. Identifiers are lists of bytes.
\<close>

section \<open>Floats\<close>

type_synonym f32 = "32 word"
type_synonym f64 = "64 word"

record f64_ops =
  f64_from :: "f32 \<Rightarrow> f64"
  f64_add :: "f64 \<Rightarrow> f64 \<Rightarrow> f64"
  f64_sub :: "f64 \<Rightarrow> f64 \<Rightarrow> f64"
  f64_mul :: "f64 \<Rightarrow> f64 \<Rightarrow> f64"
  f64_div :: "f64 \<Rightarrow> f64 \<Rightarrow> f64"
  f64_sqrt :: "f64 \<Rightarrow> f64"

definition f32_is_finite :: "f32 \<Rightarrow> bool" where
  "f32_is_finite x \<longleftrightarrow> unat x div 2 ^ 23 mod 2 ^ 8 \<noteq> 255"

definition f64_sign :: "f64 \<Rightarrow> bool" where
  "f64_sign x \<longleftrightarrow> 2 ^ 63 \<le> unat x"

definition f64_magnitude :: "f64 \<Rightarrow> nat" where
  "f64_magnitude x = unat x mod 2 ^ 63"

definition f64_is_nan :: "f64 \<Rightarrow> bool" where
  "f64_is_nan x \<longleftrightarrow> 9218868437227405312 < f64_magnitude x"

text \<open>Magnitudes are ordered as their patterns; the two zeros compare equal.\<close>

definition f64_rank :: "f64 \<Rightarrow> int" where
  "f64_rank x = (if f64_sign x then - int (f64_magnitude x) else int (f64_magnitude x))"

definition f64_gt :: "f64 \<Rightarrow> f64 \<Rightarrow> bool" where
  "f64_gt x y \<longleftrightarrow> \<not> f64_is_nan x \<and> \<not> f64_is_nan y \<and> f64_rank x > f64_rank y"

definition f64_eq :: "f64 \<Rightarrow> f64 \<Rightarrow> bool" where
  "f64_eq x y \<longleftrightarrow> \<not> f64_is_nan x \<and> \<not> f64_is_nan y \<and> f64_rank x = f64_rank y"

text \<open>The order of \<open>total_cmp\<close>, in which the negative zero precedes the positive one.\<close>

definition f64_total :: "f64 \<Rightarrow> int" where
  "f64_total x = (if f64_sign x then - int (f64_magnitude x) - 1 else int (f64_magnitude x))"

text \<open>Negation flips the sign bit, which addition of it to a 64-bit pattern does.\<close>

definition f64_neg :: "f64 \<Rightarrow> f64" where
  "f64_neg x = x + 2 ^ 63"

definition f64_zero :: f64 where "f64_zero = 0"
definition f64_neg_zero :: f64 where "f64_neg_zero = 2 ^ 63"
definition f64_one :: f64 where "f64_one = 4607182418800017408"

definition f64_clamp_unit :: "f64 \<Rightarrow> f64" where
  "f64_clamp_unit x = (if f64_gt (f64_neg f64_one) x then f64_neg f64_one else if f64_gt x f64_one then f64_one else x)"

section \<open>Vectors\<close>

datatype search_error = DimensionMismatch | NonFiniteVector | InvalidVectorEncoding | InvalidMetric
  | InvalidIdentity | InvalidMetadata | InvalidFilter | InvalidTopK

type_synonym 'a search_result = "search_error + 'a"

definition max_vector_dimensions :: nat where "max_vector_dimensions = 1536"
definition max_top_k :: nat where "max_top_k = 100"

definition validate_vector :: "f32 list \<Rightarrow> nat \<Rightarrow> unit search_result" where
  "validate_vector xs dimensions =
     (if dimensions = 0 \<or> dimensions > max_vector_dimensions \<or> length xs \<noteq> dimensions then Inl DimensionMismatch
      else if list_ex (\<lambda>x. \<not> f32_is_finite x) xs then Inl NonFiniteVector else Inr ())"

definition to_le_bytes :: "f32 \<Rightarrow> nat list" where
  "to_le_bytes x = map (\<lambda>i. unat x div 256 ^ i mod 256) [0, 1, 2, 3]"

definition from_le_bytes :: "nat list \<Rightarrow> f32" where
  "from_le_bytes bs = of_nat (foldr (\<lambda>b n. b + 256 * n) bs 0)"

definition encode_f32le :: "f32 list \<Rightarrow> nat \<Rightarrow> nat list search_result" where
  "encode_f32le xs dimensions =
     (case validate_vector xs dimensions of
        Inl e \<Rightarrow> Inl e
      | Inr _ \<Rightarrow> (case checked_mul_u64 dimensions 4 of
                   None \<Rightarrow> Inl DimensionMismatch
                 | Some byte_len \<Rightarrow> Inr (concat (map to_le_bytes xs))))"

fun as_chunks4 :: "'a list \<Rightarrow> 'a list list" where
  "as_chunks4 (a # b # c # d # xs) = [a, b, c, d] # as_chunks4 xs"
| "as_chunks4 xs = []"

definition decode_f32le :: "nat list \<Rightarrow> nat \<Rightarrow> f32 list search_result" where
  "decode_f32le bytes dimensions =
     (case checked_mul_u64 dimensions 4 of
        None \<Rightarrow> Inl InvalidVectorEncoding
      | Some expected \<Rightarrow>
          if dimensions = 0 \<or> dimensions > max_vector_dimensions \<or> length bytes \<noteq> expected then Inl InvalidVectorEncoding
          else let xs = map from_le_bytes (as_chunks4 bytes)
               in case validate_vector xs dimensions of Inl e \<Rightarrow> Inl e | Inr _ \<Rightarrow> Inr xs)"

section \<open>Metrics\<close>

datatype distance_metric = Cosine | Euclidean | DotProduct

definition f64_sum :: "f64_ops \<Rightarrow> f64 list \<Rightarrow> f64" where
  "f64_sum ops xs = foldl (f64_add ops) f64_neg_zero xs"

definition dot :: "f64_ops \<Rightarrow> f32 list \<Rightarrow> f32 list \<Rightarrow> f64" where
  "dot ops left right = f64_sum ops (map (\<lambda>(l, r). f64_mul ops (f64_from ops l) (f64_from ops r)) (zip left right))"

definition squared_sum :: "f64_ops \<Rightarrow> f32 list \<Rightarrow> f64" where
  "squared_sum ops xs = f64_sum ops (map (\<lambda>x. f64_mul ops (f64_from ops x) (f64_from ops x)) xs)"

definition squared_distance :: "f64_ops \<Rightarrow> f32 list \<Rightarrow> f32 list \<Rightarrow> f64" where
  "squared_distance ops left right =
     f64_sum ops (map (\<lambda>(l, r). let delta = f64_sub ops (f64_from ops l) (f64_from ops r) in f64_mul ops delta delta) (zip left right))"

record prepared_query =
  pq_metric :: distance_metric
  pq_values :: "f32 list"
  pq_norm :: f64

definition prepared_query_new :: "f64_ops \<Rightarrow> distance_metric \<Rightarrow> f32 list \<Rightarrow> nat \<Rightarrow> prepared_query search_result" where
  "prepared_query_new ops metric xs dimensions =
     (case validate_vector xs dimensions of
        Inl e \<Rightarrow> Inl e
      | Inr _ \<Rightarrow> Inr \<lparr>pq_metric = metric, pq_values = xs,
                     pq_norm = (if metric = Cosine then f64_sqrt ops (squared_sum ops xs) else f64_zero)\<rparr>)"

definition normalize_public_score :: "distance_metric \<Rightarrow> f64 \<Rightarrow> f64" where
  "normalize_public_score metric raw = (case metric of Cosine \<Rightarrow> f64_clamp_unit raw | _ \<Rightarrow> raw)"

definition prepared_score :: "f64_ops \<Rightarrow> prepared_query \<Rightarrow> f32 list \<Rightarrow> f64 search_result" where
  "prepared_score ops q candidate =
     (case validate_vector candidate (length (pq_values q)) of
        Inl e \<Rightarrow> Inl e
      | Inr _ \<Rightarrow>
          (let raw = (case pq_metric q of
                Cosine \<Rightarrow>
                  (let candidate_norm = f64_sqrt ops (squared_sum ops candidate)
                   in if f64_eq (pq_norm q) f64_zero \<or> f64_eq candidate_norm f64_zero then f64_neg f64_one
                      else f64_div ops (dot ops (pq_values q) candidate) (f64_mul ops (pq_norm q) candidate_norm))
              | Euclidean \<Rightarrow> f64_sqrt ops (squared_distance ops (pq_values q) candidate)
              | DotProduct \<Rightarrow> dot ops (pq_values q) candidate)
           in Inr (normalize_public_score (pq_metric q) raw)))"

section \<open>The accumulator\<close>

record exact_candidate =
  cand_id :: "nat list"
  cand_values :: "f32 list"

record scored_vector =
  sv_id :: "nat list"
  sv_score :: f64

record heap_entry =
  he_id :: "nat list"
  he_score :: f64
  he_rank :: f64

text \<open>The order of \<open>HeapEntry\<close>: a higher rank comes first, then the smaller identifier.\<close>

definition entry_key :: "heap_entry \<Rightarrow> int \<times> nat list" where
  "entry_key e = (- f64_total (he_rank e), he_id e)"

record exact_top_k =
  tk_metric :: distance_metric
  tk_prepared :: prepared_query
  tk_top_k :: nat
  tk_heap :: "heap_entry list"

definition top_k_new :: "f64_ops \<Rightarrow> distance_metric \<Rightarrow> f32 list \<Rightarrow> nat \<Rightarrow> exact_top_k search_result" where
  "top_k_new ops metric query top_k =
     (if top_k = 0 \<or> top_k > max_top_k then Inl InvalidTopK
      else case prepared_query_new ops metric query (length query) of
          Inl e \<Rightarrow> Inl e
        | Inr q \<Rightarrow> Inr \<lparr>tk_metric = metric, tk_prepared = q, tk_top_k = top_k, tk_heap = []\<rparr>)"

definition better :: "f64 \<Rightarrow> nat list \<Rightarrow> heap_entry \<Rightarrow> bool" where
  "better rank i r \<longleftrightarrow> f64_gt rank (he_rank r) \<or> f64_eq rank (he_rank r) \<and> i < he_id r"

definition rank_of :: "distance_metric \<Rightarrow> f64 \<Rightarrow> f64" where
  "rank_of metric score = (case metric of Euclidean \<Rightarrow> f64_neg score | _ \<Rightarrow> score)"

definition heap_push :: "nat \<Rightarrow> heap_entry \<Rightarrow> heap_entry list \<Rightarrow> heap_entry list" where
  "heap_push k e heap =
     (if length heap < k \<or> heap \<noteq> [] \<and> better (he_rank e) (he_id e) (last heap)
      then insort_key entry_key e (if length heap = k then butlast heap else heap) else heap)"

definition top_k_push :: "f64_ops \<Rightarrow> exact_candidate \<Rightarrow> exact_top_k \<Rightarrow> exact_top_k search_result" where
  "top_k_push ops c t =
     (case prepared_score ops (tk_prepared t) (cand_values c) of
        Inl e \<Rightarrow> Inl e
      | Inr score \<Rightarrow>
          Inr (t\<lparr>tk_heap := heap_push (tk_top_k t)
             \<lparr>he_id = cand_id c, he_score = score, he_rank = rank_of (tk_metric t) score\<rparr> (tk_heap t)\<rparr>))"

text \<open>The key under which \<open>finish\<close> sorts: \<open>compare_scores\<close> of the right score with the left one, then identifiers.\<close>

definition score_key :: "distance_metric \<Rightarrow> scored_vector \<Rightarrow> int \<times> nat list" where
  "score_key metric v = ((case metric of Euclidean \<Rightarrow> f64_total (sv_score v) | _ \<Rightarrow> - f64_total (sv_score v)), sv_id v)"

definition top_k_finish :: "exact_top_k \<Rightarrow> scored_vector list" where
  "top_k_finish t = sort_key (score_key (tk_metric t)) (map (\<lambda>e. \<lparr>sv_id = he_id e, sv_score = he_score e\<rparr>) (tk_heap t))"

text \<open>One exact search: the accumulator fed with the candidates in the order of the scan.\<close>

primrec push_all :: "f64_ops \<Rightarrow> exact_candidate list \<Rightarrow> exact_top_k \<Rightarrow> exact_top_k search_result" where
  "push_all ops [] t = Inr t"
| "push_all ops (c # cs) t = (case top_k_push ops c t of Inl e \<Rightarrow> Inl e | Inr t' \<Rightarrow> push_all ops cs t')"

definition exact_search :: "f64_ops \<Rightarrow> distance_metric \<Rightarrow> f32 list \<Rightarrow> nat \<Rightarrow> exact_candidate list \<Rightarrow> scored_vector list search_result" where
  "exact_search ops metric query k cs =
     (case top_k_new ops metric query k of
        Inl e \<Rightarrow> Inl e
      | Inr t \<Rightarrow> (case push_all ops cs t of Inl e \<Rightarrow> Inl e | Inr t' \<Rightarrow> Inr (top_k_finish t')))"

section \<open>The two orders of floats\<close>

lemma unat_f64: "unat x = (if f64_sign x then 2 ^ 63 + f64_magnitude x else f64_magnitude x)" for x :: f64
proof -
  have "unat x < 2 * 2 ^ 63" using unsigned_less [of x] by simp
  then show ?thesis by (auto simp: f64_sign_def f64_magnitude_def le_mod_geq)
qed

lemma f64_total_inj: "f64_total x = f64_total y \<longleftrightarrow> x = y"
proof
  assume "f64_total x = f64_total y"
  then have "f64_sign x = f64_sign y" "f64_magnitude x = f64_magnitude y" by (auto simp: f64_total_def split: if_splits)
  then have "unat x = unat y" by (simp only: unat_f64)
  then show "x = y" by (rule unsigned_word_eqI)
qed simp

lemma f64_neg_parts: "f64_sign (f64_neg x) \<longleftrightarrow> \<not> f64_sign x" "f64_magnitude (f64_neg x) = f64_magnitude x"
proof -
  have "unat (f64_neg x) = (unat x + 2 ^ 63) mod (2 * 2 ^ 63)"
    by (simp add: f64_neg_def unat_word_ariths)
  moreover have m: "f64_magnitude x < 2 ^ 63" by (simp add: f64_magnitude_def)
  ultimately have u: "unat (f64_neg x) = (if f64_sign x then f64_magnitude x else 2 ^ 63 + f64_magnitude x)"
    unfolding unat_f64 [of x] by (auto simp: le_mod_geq)
  show "f64_sign (f64_neg x) \<longleftrightarrow> \<not> f64_sign x" "f64_magnitude (f64_neg x) = f64_magnitude x"
    unfolding f64_sign_def [of "f64_neg x"] f64_magnitude_def [of "f64_neg x"] u using m by simp_all
qed

lemma f64_total_neg: "f64_total (f64_neg x) = - 1 - f64_total x"
  by (simp add: f64_total_def f64_neg_parts)

lemma f64_zero_parts:
  "x = f64_zero \<longleftrightarrow> \<not> f64_sign x \<and> f64_magnitude x = 0"
  "x = f64_neg_zero \<longleftrightarrow> f64_sign x \<and> f64_magnitude x = 0"
proof -
  have "f64_total f64_zero = 0" "f64_total f64_neg_zero = - 1"
    by (simp_all add: f64_total_def f64_sign_def f64_magnitude_def f64_zero_def f64_neg_zero_def)
  then show "x = f64_zero \<longleftrightarrow> \<not> f64_sign x \<and> f64_magnitude x = 0"
    "x = f64_neg_zero \<longleftrightarrow> f64_sign x \<and> f64_magnitude x = 0"
    using f64_total_inj [of x f64_zero] f64_total_inj [of x f64_neg_zero] by (auto simp: f64_total_def split: if_splits)
qed

text \<open>The orders agree on a set that does not hold both zeros.\<close>

definition zeros_mixed :: "f64 \<Rightarrow> f64 \<Rightarrow> bool" where
  "zeros_mixed x y \<longleftrightarrow> x = f64_zero \<and> y = f64_neg_zero \<or> x = f64_neg_zero \<and> y = f64_zero"

lemma f64_orders_agree:
  assumes "\<not> zeros_mixed x y"
  shows "f64_rank x > f64_rank y \<longleftrightarrow> f64_total x > f64_total y" "f64_rank x = f64_rank y \<longleftrightarrow> f64_total x = f64_total y"
  using assms unfolding zeros_mixed_def f64_zero_parts by (auto simp: f64_rank_def f64_total_def)

lemma better_iff:
  assumes "\<not> f64_is_nan (he_rank e)" "\<not> f64_is_nan (he_rank w)" "\<not> zeros_mixed (he_rank e) (he_rank w)"
  shows "better (he_rank e) (he_id e) w \<longleftrightarrow> entry_key e < entry_key w"
  using assms(1, 2) f64_orders_agree [OF assms(3)] by (auto simp: better_def f64_gt_def f64_eq_def entry_key_def less_prod_simp)

section \<open>Sorted prefixes\<close>

lemma sorted_inj_unique:
  assumes "sorted (map f xs)" "sorted (map f ys)" "mset xs = mset ys" "inj_on f (set xs)"
  shows "xs = ys"
proof -
  have "mset (map f xs) = mset (map f ys)" using assms(3) by simp
  then have "map f xs = map f ys"
    using properties_for_sort [of "map f xs" "map f ys"] sorted_sort_id [OF assms(2)] assms(1) by metis
  moreover have "inj_on f (set xs \<union> set ys)" using assms(3, 4) mset_eq_setD by fastforce
  ultimately show ?thesis by (simp add: inj_on_map_eq_map)
qed

lemma take_insort_key: "take k (insort_key f x xs) = take k (insort_key f x (take k xs))"
proof (induction xs arbitrary: k)
  case (Cons y ys)
  have "take n (y # ys) = take n (y # take n ys)" for n by (cases n) (simp_all add: min_def)
  then show ?case using Cons by (cases k) simp_all
qed simp

lemma insort_key_snoc:
  "sorted (map f (b @ [l])) \<Longrightarrow> insort_key f x (b @ [l]) = (if f x \<le> f l then insort_key f x b @ [l] else b @ [l, x])"
  by (induction b) (auto simp: sorted_append)

lemma take_insort_full:
  assumes "sorted (map f h)" "h \<noteq> []" "inj_on f (insert x (set h))"
  shows "take (length h) (insort_key f x h) = (if f x < f (last h) then insort_key f x (butlast h) else h)"
proof -
  define b l where "b = butlast h" and "l = last h"
  have h: "h = b @ [l]" using assms(2) by (simp add: b_def l_def)
  have snoc: "insort_key f x h = (if f x \<le> f l then insort_key f x b @ [l] else b @ [l, x])"
    unfolding h by (rule insort_key_snoc) (use assms(1) h in simp)
  have "insort_key f x b = h" if "f x = f l"
  proof (rule sorted_inj_unique [where f = f])
    have "x = l" using that assms(3) by (simp add: h inj_on_eq_iff)
    then show "mset (insort_key f x b) = mset h" "inj_on f (set (insort_key f x b))"
      using assms(3) by (auto simp: h set_insort_key intro: inj_on_subset)
    show "sorted (map f (insort_key f x b))" "sorted (map f h)"
      using assms(1) by (simp_all add: h sorted_append sorted_insort_key)
  qed
  moreover have "length h = Suc (length b)" by (simp add: h)
  ultimately show ?thesis using snoc unfolding b_def [symmetric] l_def [symmetric] by (auto simp: h)
qed

section \<open>Search is sort and take\<close>

definition entry_for :: "distance_metric \<Rightarrow> scored_vector \<Rightarrow> heap_entry" where
  "entry_for metric v = \<lparr>he_id = sv_id v, he_score = sv_score v, he_rank = rank_of metric (sv_score v)\<rparr>"

definition scored :: "heap_entry \<Rightarrow> scored_vector" where
  "scored e = \<lparr>sv_id = he_id e, sv_score = he_score e\<rparr>"

lemma scored_entry [simp]: "scored (entry_for metric v) = v"
  by (simp add: scored_def entry_for_def)

lemma entry_key_eq:
  "entry_key (entry_for metric v)
    = (fst (score_key metric v) + (case metric of Euclidean \<Rightarrow> 1 | _ \<Rightarrow> 0), snd (score_key metric v))"
  by (cases metric) (simp_all add: entry_key_def entry_for_def score_key_def rank_of_def f64_total_neg)

lemma score_key_inj: "inj (score_key metric)"
proof (rule injI)
  fix v w assume "score_key metric v = score_key metric w"
  then show "v = w"
    by (cases v; cases w; cases metric) (simp_all add: score_key_def f64_total_inj)
qed

lemma entry_key_inj: "inj_on entry_key (set (map (entry_for metric) vs))"
proof (rule inj_onI)
  fix x y assume xy: "x \<in> set (map (entry_for metric) vs)" "y \<in> set (map (entry_for metric) vs)" "entry_key x = entry_key y"
  then obtain v w where "x = entry_for metric v" "y = entry_for metric w" by auto
  moreover from this xy(3) have "score_key metric v = score_key metric w" by (simp add: entry_key_eq prod_eq_iff)
  ultimately show "x = y" using score_key_inj by (simp add: inj_eq)
qed

lemma entry_key_le_iff: "entry_key (entry_for metric v) \<le> entry_key (entry_for metric w) \<longleftrightarrow> score_key metric v \<le> score_key metric w"
  unfolding entry_key_eq by (simp add: less_eq_prod_def)

lemma sort_entries: "sort_key entry_key (map (entry_for metric) vs) = map (entry_for metric) (sort_key (score_key metric) vs)"
proof (rule sorted_inj_unique [where f = entry_key])
  have "sorted_wrt (\<lambda>v w. score_key metric v \<le> score_key metric w) (sort_key (score_key metric) vs)"
    using sorted_sort_key [of "score_key metric" vs] by (simp only: sorted_map)
  then show "sorted (map entry_key (map (entry_for metric) (sort_key (score_key metric) vs)))"
    by (simp add: sorted_map sorted_wrt_map entry_key_le_iff)
qed (use entry_key_inj [of metric vs] in simp_all)

lemma heap_push_step:
  assumes "0 < k" "h = take k (sort_key entry_key es)" "inj_on entry_key (set (es @ [e]))"
    and "\<And>w. w \<in> set es \<Longrightarrow> better (he_rank e) (he_id e) w \<longleftrightarrow> entry_key e < entry_key w"
  shows "heap_push k e h = take k (sort_key entry_key (es @ [e]))"
proof -
  have "sort_key entry_key (es @ [e]) = insort_key entry_key e (sort_key entry_key es)"
    by (rule sorted_inj_unique [where f = entry_key]) (use assms(3) in \<open>simp_all add: sorted_insort_key\<close>)
  then have goal: "take k (sort_key entry_key (es @ [e])) = take k (insort_key entry_key e h)"
    using take_insort_key assms(2) by metis
  have sub: "set h \<subseteq> set es" unfolding assms(2) using set_take_subset [of k "sort_key entry_key es"] by simp
  have sorted: "sorted (map entry_key h)" unfolding assms(2) take_map [symmetric] by (rule sorted_wrt_take) simp
  show ?thesis
  proof (cases "length h < k")
    case True
    then show ?thesis unfolding goal by (simp add: heap_push_def)
  next
    case False
    then have len: "length h = k" using assms(2) by simp
    then have ne: "h \<noteq> []" using assms(1) by auto
    have inj: "inj_on entry_key (insert e (set h))" using assms(3) sub by (auto intro: inj_on_subset)
    have "better (he_rank e) (he_id e) (last h) \<longleftrightarrow> entry_key e < entry_key (last h)"
      using sub last_in_set [OF ne] by (intro assms(4)) blast
    then show ?thesis
      using take_insort_full [OF sorted ne inj] ne len unfolding goal by (auto simp: heap_push_def)
  qed
qed

lemma heap_fold:
  assumes "0 < k" "\<And>v. v \<in> set vs \<Longrightarrow> \<not> f64_is_nan (rank_of metric (sv_score v))"
    and "\<And>v w. v \<in> set vs \<Longrightarrow> w \<in> set vs \<Longrightarrow> \<not> zeros_mixed (rank_of metric (sv_score v)) (rank_of metric (sv_score w))"
  shows "foldl (\<lambda>h e. heap_push k e h) [] (map (entry_for metric) vs) = take k (sort_key entry_key (map (entry_for metric) vs))"
  using assms(2, 3)
proof (induction vs rule: rev_induct)
  case (snoc v vs)
  have "better (he_rank (entry_for metric v)) (he_id (entry_for metric v)) w \<longleftrightarrow> entry_key (entry_for metric v) < entry_key w"
    if w: "w \<in> set (map (entry_for metric) vs)" for w
  proof -
    obtain u where "w = entry_for metric u" "u \<in> set vs" using w by auto
    then show ?thesis using snoc.prems by (intro better_iff) (simp_all add: entry_for_def)
  qed
  note step = heap_push_step [OF assms(1) refl _ this]
  have "inj_on entry_key (set (map (entry_for metric) vs @ [entry_for metric v]))"
    using entry_key_inj [of metric "vs @ [v]"] by simp
  from step [OF this] snoc show ?case by simp
qed simp

lemma push_all_eq:
  assumes "map (\<lambda>c. prepared_score ops (tk_prepared t) (cand_values c)) cs = map Inr scores"
  shows "push_all ops cs t = Inr (t\<lparr>tk_heap := foldl (\<lambda>h e. heap_push (tk_top_k t) e h) (tk_heap t)
     (map2 (\<lambda>c s. entry_for (tk_metric t) \<lparr>sv_id = cand_id c, sv_score = s\<rparr>) cs scores)\<rparr>)"
  using assms
proof (induction cs arbitrary: t scores)
  case (Cons c cs)
  obtain s ss where "scores = s # ss" "prepared_score ops (tk_prepared t) (cand_values c) = Inr s"
    "map (\<lambda>c. prepared_score ops (tk_prepared t) (cand_values c)) cs = map Inr ss"
    using Cons.prems by (cases scores) auto
  then show ?case using Cons.IH by (simp add: top_k_push_def entry_for_def)
qed simp

lemma rank_zeros:
  "f64_is_nan (rank_of metric x) \<longleftrightarrow> f64_is_nan x"
  "zeros_mixed (rank_of metric x) (rank_of metric y) \<longleftrightarrow> zeros_mixed x y"
  unfolding zeros_mixed_def f64_zero_parts
  by (cases metric; auto simp: rank_of_def f64_is_nan_def f64_neg_parts)+

text \<open>
  C11. Exact search with a bounded heap is sort-and-take: for a valid query and candidates whose
  scores are numbers and do not hold both a positive and a negative zero, the result is the
  first \<open>k\<close> vectors of all the candidates in the public order, best score first and
  identifiers ascending among equal scores, whatever the order of the scan.
\<close>

theorem exact_search_sort_take:
  assumes "top_k_new ops metric query k = Inr t"
    and "map (\<lambda>c. prepared_score ops (tk_prepared t) (cand_values c)) cs = map Inr scores"
    and "list_all (\<lambda>s. \<not> f64_is_nan s) scores" "\<not> (f64_zero \<in> set scores \<and> f64_neg_zero \<in> set scores)"
  shows "exact_search ops metric query k cs
    = Inr (take k (sort_key (score_key metric) (map2 (\<lambda>c s. \<lparr>sv_id = cand_id c, sv_score = s\<rparr>) cs scores)))"
proof -
  define vs where "vs = map2 (\<lambda>c s. \<lparr>sv_id = cand_id c, sv_score = s\<rparr>) cs scores"
  have t: "tk_metric t = metric" "tk_top_k t = k" "tk_heap t = []" "0 < k"
    using assms(1) by (auto simp: top_k_new_def split: if_splits sum.splits)
  have mem: "sv_score v \<in> set scores" if "v \<in> set vs" for v
    using that unfolding vs_def by (auto dest: set_zip_rightD)
  have "foldl (\<lambda>h e. heap_push k e h) [] (map (entry_for metric) vs)
      = take k (sort_key entry_key (map (entry_for metric) vs))"
  proof (rule heap_fold [OF t(4)])
    show "\<not> f64_is_nan (rank_of metric (sv_score v))" if "v \<in> set vs" for v
      using assms(3) mem [OF that] unfolding rank_zeros(1) by (simp add: list_all_iff)
    show "\<not> zeros_mixed (rank_of metric (sv_score v)) (rank_of metric (sv_score w))" if "v \<in> set vs" "w \<in> set vs" for v w
      using assms(4) mem [OF that(1)] mem [OF that(2)] unfolding rank_zeros(2) by (auto simp: zeros_mixed_def)
  qed
  then have "map scored (foldl (\<lambda>h e. heap_push k e h) [] (map (entry_for metric) vs)) = take k (sort_key (score_key metric) vs)"
    by (simp add: sort_entries take_map comp_def)
  moreover have "sort_key (score_key metric) (take k (sort_key (score_key metric) vs)) = take k (sort_key (score_key metric) vs)"
    by (rule sort_key_id_if_sorted) (simp add: take_map [symmetric] sorted_wrt_take)
  moreover have "map2 (\<lambda>c s. entry_for metric \<lparr>sv_id = cand_id c, sv_score = s\<rparr>) cs scores = map (entry_for metric) vs"
    by (simp add: vs_def case_prod_unfold)
  ultimately show ?thesis
    using push_all_eq [OF assms(2)] unfolding exact_search_def assms(1) vs_def [symmetric]
    by (simp add: t top_k_finish_def scored_def [abs_def])
qed

text \<open>Arithmetic on the patterns of zero and one, and a placeholder elsewhere, for examples.\<close>

definition zero_ops :: f64_ops where
  "zero_ops = \<lparr>f64_from = (\<lambda>x. if x = 0 then f64_zero else if x = 2147483648 then f64_neg_zero else f64_one),
     f64_add = (\<lambda>x y. if x = f64_neg_zero then y else x), f64_sub = (\<lambda>x y. x),
     f64_mul = (\<lambda>x y. if x = f64_one then y else x), f64_div = (\<lambda>x y. x), f64_sqrt = (\<lambda>x. x)\<rparr>"

text \<open>
  C40. With both zeros among the scores the result depends on the order of the scan. Whenever
  the arithmetic has \<open>1 * 0 = 0\<close>, \<open>1 * -0 = -0\<close> and \<open>-0 + x = x\<close> on the zeros, as IEEE-754
  prescribes, three vectors of one component are ranked by \<open>DotProduct\<close> against the query
  \<open>[1.0]\<close> with \<open>k = 2\<close>: scanned as \<open>a, c, b\<close> the result is \<open>c, a\<close>, scanned as \<open>b, c, a\<close> it
  is \<open>b, a\<close>. The heap orders its entries by \<open>total_cmp\<close>, but \<open>better\<close> compares with \<open>==\<close>.
\<close>

theorem exact_search_order_dependent:
  assumes "f64_from ops one = f64_one" "f32_is_finite one"
    and "f64_from ops 0 = f64_zero" "f64_from ops (2147483648) = f64_neg_zero"
    and "f64_mul ops f64_one f64_zero = f64_zero" "f64_mul ops f64_one f64_neg_zero = f64_neg_zero"
    and "f64_add ops f64_neg_zero f64_zero = f64_zero" "f64_add ops f64_neg_zero f64_neg_zero = f64_neg_zero"
  shows "(let a = \<lparr>cand_id = [97], cand_values = [2147483648]\<rparr>; b = \<lparr>cand_id = [98], cand_values = [0]\<rparr>;
              c = \<lparr>cand_id = [99], cand_values = [0]\<rparr>
          in exact_search ops DotProduct [one] 2 [a, c, b]
               = Inr [\<lparr>sv_id = [99], sv_score = f64_zero\<rparr>, \<lparr>sv_id = [97], sv_score = f64_neg_zero\<rparr>]
           \<and> exact_search ops DotProduct [one] 2 [b, c, a]
               = Inr [\<lparr>sv_id = [98], sv_score = f64_zero\<rparr>, \<lparr>sv_id = [97], sv_score = f64_neg_zero\<rparr>])"
proof -
  have z: "f64_total f64_zero = 0" "f64_total f64_neg_zero = - 1" "f64_rank f64_zero = 0" "f64_rank f64_neg_zero = 0"
    "\<not> f64_is_nan f64_zero" "\<not> f64_is_nan f64_neg_zero"
    by (simp_all add: f64_total_def f64_rank_def f64_is_nan_def f64_sign_def f64_magnitude_def f64_zero_def f64_neg_zero_def)
  have fin: "f32_is_finite 0" "f32_is_finite (2147483648)" by (simp_all add: f32_is_finite_def)
  have q: "top_k_new ops DotProduct [one] 2 = Inr \<lparr>tk_metric = DotProduct, tk_prepared = \<lparr>pq_metric = DotProduct,
      pq_values = [one], pq_norm = f64_zero\<rparr>, tk_top_k = 2, tk_heap = []\<rparr>"
    using assms(2) by (simp add: top_k_new_def prepared_query_new_def validate_vector_def max_top_k_def max_vector_dimensions_def)
  have d: "dot ops [one] [0] = f64_zero" "dot ops [one] [2147483648] = f64_neg_zero"
    using assms by (simp_all add: dot_def f64_sum_def)
  have s: "prepared_score ops \<lparr>pq_metric = DotProduct, pq_values = [one], pq_norm = f64_zero\<rparr> [0] = Inr f64_zero"
    "prepared_score ops \<lparr>pq_metric = DotProduct, pq_values = [one], pq_norm = f64_zero\<rparr> [2147483648] = Inr f64_neg_zero"
    using fin by (simp_all add: prepared_score_def validate_vector_def max_vector_dimensions_def d normalize_public_score_def)
  show ?thesis
    by (simp add: Let_def exact_search_def q top_k_push_def s heap_push_def entry_key_def rank_of_def z better_def f64_gt_def f64_eq_def
        top_k_finish_def score_key_def)
qed

theorem exact_search_sort_take_witness:
  "exact_search zero_ops DotProduct [1065353216] 1 [\<lparr>cand_id = [98], cand_values = [0]\<rparr>, \<lparr>cand_id = [97], cand_values = [0]\<rparr>]
    = Inr [\<lparr>sv_id = [97], sv_score = f64_zero\<rparr>]"
proof -
  let ?cs = "[\<lparr>cand_id = [98], cand_values = [0]\<rparr>, \<lparr>cand_id = [97], cand_values = [0]\<rparr>]"
  let ?t = "\<lparr>tk_metric = DotProduct, tk_prepared = \<lparr>pq_metric = DotProduct, pq_values = [1065353216], pq_norm = f64_zero\<rparr>,
    tk_top_k = 1, tk_heap = []\<rparr>"
  have t: "top_k_new zero_ops DotProduct [1065353216] 1 = Inr ?t"
    by (simp add: top_k_new_def prepared_query_new_def validate_vector_def max_top_k_def max_vector_dimensions_def f32_is_finite_def)
  have d: "dot zero_ops [1065353216] [0] = f64_zero"
    by (simp add: dot_def f64_sum_def zero_ops_def f64_one_def f64_zero_def f64_neg_zero_def)
  have s: "map (\<lambda>c. prepared_score zero_ops (tk_prepared ?t) (cand_values c)) ?cs = map Inr [f64_zero, f64_zero]"
    by (simp add: prepared_score_def validate_vector_def max_vector_dimensions_def d normalize_public_score_def f32_is_finite_def)
  have "\<not> f64_is_nan f64_zero" "f64_zero \<noteq> f64_neg_zero"
    by (simp_all add: f64_is_nan_def f64_magnitude_def f64_zero_def f64_neg_zero_def)
  then show ?thesis using exact_search_sort_take [OF t s] by (simp add: score_key_def)
qed

theorem exact_search_order_dependent_witness:
  "exact_search zero_ops DotProduct [1065353216] 2 [\<lparr>cand_id = [97], cand_values = [2147483648]\<rparr>,
     \<lparr>cand_id = [99], cand_values = [0]\<rparr>, \<lparr>cand_id = [98], cand_values = [0]\<rparr>]
    = Inr [\<lparr>sv_id = [99], sv_score = f64_zero\<rparr>, \<lparr>sv_id = [97], sv_score = f64_neg_zero\<rparr>]"
proof -
  have z: "f64_zero \<noteq> f64_neg_zero" "f64_one \<noteq> f64_neg_zero" "f64_neg_zero \<noteq> f64_one"
    by (simp_all add: f64_zero_def f64_neg_zero_def f64_one_def)
  have "f32_is_finite 1065353216" by (simp add: f32_is_finite_def)
  then show ?thesis
    using exact_search_order_dependent [of zero_ops 1065353216] z by (simp add: zero_ops_def Let_def)
qed

section \<open>The stored encoding\<close>

lemma from_to_le_bytes: "from_le_bytes (to_le_bytes x) = x"
proof -
  define n where "n = unat x"
  have "n < 2 ^ 32" unfolding n_def using unsigned_less [of x] by simp
  then have top: "n div 256 div 256 div 256 < 256" by (simp add: div_mult2_eq [symmetric] less_mult_imp_div_less)
  have "foldr (\<lambda>b m. b + 256 * m) (to_le_bytes x) 0
      = n mod 256 + 256 * (n div 256 mod 256 + 256 * (n div 256 div 256 mod 256 + 256 * (n div 256 div 256 div 256 mod 256)))"
    by (simp add: to_le_bytes_def n_def div_mult2_eq [symmetric])
  also have "\<dots> = n" using top by (simp only: mod_less mod_mult_div_eq)
  finally show ?thesis by (simp add: from_le_bytes_def n_def)
qed

lemma as_chunks4_encoded: "as_chunks4 (concat (map to_le_bytes xs)) = map to_le_bytes xs"
  by (induction xs) (simp_all add: to_le_bytes_def)

text \<open>Whatever is encoded decodes to the same bit patterns.\<close>

lemma encode_decode_f32le: "encode_f32le xs n = Inr bytes \<Longrightarrow> decode_f32le bytes n = Inr xs"
proof -
  assume enc: "encode_f32le xs n = Inr bytes"
  then have b: "bytes = concat (map to_le_bytes xs)" "validate_vector xs n = Inr ()" "checked_mul_u64 n 4 = Some (n * 4)"
    by (auto simp: encode_f32le_def rust_arith split: sum.splits option.splits)
  have "length bytes = n * 4" "0 < n" "n \<le> max_vector_dimensions"
    using b(2) by (auto simp: b(1) length_concat to_le_bytes_def comp_def sum_list_triv validate_vector_def split: if_splits)
  moreover have "map from_le_bytes (as_chunks4 bytes) = xs"
    by (simp add: b(1) as_chunks4_encoded comp_def from_to_le_bytes)
  ultimately show ?thesis using b(2, 3) by (simp add: decode_f32le_def)
qed

end
