(* ===== verification/Spec2Isabelle.thy ===== *)
theory Spec2Isabelle
  imports Admission Scheduler_System Cron_Syntax Pins Workflow_Recovery Search_TopK
begin

text \<open>
  Verification of open-compute, a self-hosted compute platform written in Rust. Paths below
  are relative to \<open>src/crates\<close>; each theory opens with the files it models.

  \<^bold>\<open>The program.\<close> A service process keeps the state of the platform in SQLite and runs
  tenant code in a supervised \<open>workerd\<close>. The part modelled here is what decides when work
  runs and what happens to it: the scheduler's run loop claims due alarms, queue batches,
  cron runs and workflow runs from its store within permits, the runtime executes them, and
  their results are written back; producers enqueue messages, the control plane projects
  queues, consumers and schedules into the store, and a restart releases what was in
  flight. A workflow run is activated under a lease and registers, settles and replays its
  steps in the same database. Around it are the admission of storage writes, the pins that
  keep versions and resources from being deleted under running work, and exact vector
  search.

  \<^bold>\<open>Conventions\<close> (\<open>OC_Prelude\<close>, \<open>Transactions\<close>). A \<open>Result\<close> is \<open>'a result\<close> with the error code
  on the left; integers are \<open>nat\<close> or \<open>int\<close> with the checked, saturating or wrapping
  operation of the source written out; floats are their bit patterns. A store operation is
  a state transformer that may fail, and \<open>transaction\<close> rolls a failed one back, as the
  SQLite transactions of the code do. A table is the list of its rows; an \<open>INSERT\<close>,
  \<open>UPDATE\<close> or \<open>DELETE\<close> is a function that applies the table's checks, keys and triggers
  and fails as SQLite would. Random identities are drawn from an argument \<open>gen\<close>. Locales
  state the contracts that several components share: \<open>invariant_system\<close> and
  \<open>monotone_system\<close> (components driven by events), \<open>claim_store\<close> (claims hand work out
  exclusively and within a limit; interpreted for alarms, queues and cron),
  \<open>pin_registry\<close> (interpreted for versions and resources) and \<open>workflow_contract\<close> (what every
  statement on the workflow tables keeps, every operation keeps; interpreted for the
  consistency of the tables, the growth of the history and the loss of a fence).

  \<^bold>\<open>Parts and theories.\<close>
    \<^item> Storage admission, \<open>core/src/admission.rs\<close>: \<open>Admission\<close>. \<open>admit\<close>, \<open>reserve\<close>, \<open>release\<close> and
      the guard; admission is decided exactly by the headroom, and the reserved total is
      always the sum of the live guards.
    \<^item> Scheduler, \<open>service/src/scheduler/{fairness,kernel,runner}.rs\<close> and \<open>core/src/scheduler.rs\<close>:
      \<open>Sched_Fairness\<close> (deficit round robin: permits, work conservation, no starvation),
      \<open>Sched_Kernel\<close> (admission tracker, backoff, circuits), \<open>Sched_Runner\<close> (one cycle of the
      loop over the answers of the stores; in-flight work within its caps in every run).
    \<^item> Queues, \<open>storage/src/scheduler/queue.rs\<close>, \<open>queue_consumer.rs\<close>, their helpers and the
      migrations that define the tables: \<open>Queue_Tables\<close> and \<open>Queue_Inv\<close> (rows, triggers,
      the invariant every statement keeps), \<open>Queue_Producer\<close> (lifecycle, enqueue, retention),
      \<open>Queue_Consumer\<close> (claims, completion, dead letters), and the properties of each in
      \<open>Queue_Producer_Proofs\<close>, \<open>Queue_Retention\<close>, \<open>Queue_Claim\<close>, \<open>Queue_Completion\<close>, \<open>Queue_Dlq\<close>: a
      repeated request enqueues once, claims are exact and exclusive, completion, forwarding
      and retention neither lose nor duplicate messages.
    \<^item> Alarms, \<open>storage/src/scheduler.rs\<close>: \<open>Alarm_Store\<close>, \<open>Alarm_Proofs\<close>; the table refines a map
      from objects to alarms, and overwriting an alarm fences the claim in flight.
    \<^item> Cron, \<open>core/src/cron.rs\<close> and \<open>storage/src/scheduler/cron.rs\<close>: \<open>Cron_Schedule\<close>, \<open>Cron_Slots\<close>,
      \<open>Cron_Syntax\<close> (expressions and their slots), \<open>Cron_Store\<close>, \<open>Cron_Claims\<close>, \<open>Cron_Projection\<close>,
      \<open>Cron_Delivery\<close>, \<open>Cron_Results\<close> (slots become runs once, runs are claimed, retried and
      collected within their bounds).
    \<^item> Recovery, \<open>storage/src/scheduler/recovery.rs\<close> and \<open>reset_claims.sql\<close>: \<open>Recovery\<close>.
    \<^item> The scheduler as a whole: \<open>Scheduler_System\<close>. All store operations as one step relation
      with its reachable states, and the run loop over the claims of the stores.
    \<^item> Pins and deletion fences, \<open>workers/src/{pins,resource_pins}.rs\<close>: \<open>Pins\<close>.
    \<^item> Workflow durations and policy, \<open>core/src/workflow/{duration,policy}.rs\<close>: \<open>Workflow_Duration\<close>
      (parsing equals the exact ceiling of the denoted number), \<open>Workflow_Policy\<close>.
    \<^item> Durable workflows, \<open>storage/src/scheduler/workflow.rs\<close>, the files of
      \<open>storage/src/scheduler/workflow\<close>, \<open>core/src/workflow/{descriptor,value,event}.rs\<close> and the
      migrations V21 and V24: \<open>Workflow_Tables\<close> (rows, checks, the accounting view, triggers,
      leases and capacity), \<open>Workflow_Steps\<close> (batches and grants, settlement of attempts, waits
      and the event inbox), \<open>Workflow_Runs\<close> (creation, activation, recovery, completion,
      lifecycle, maintenance of deadlines), \<open>Workflow_Inv\<close> (the invariant and every statement),
      \<open>Workflow_Reach\<close> (all operations as calls, and the contract they share), \<open>Workflow_History\<close>
      (the tables stay consistent, settled history never changes, a lost run has no effect)
      and \<open>Workflow_Recovery\<close> (exactly when expired runs are recovered, and the instances that
      block recovery, resumption or maintenance).
    \<^item> Exact vector search, \<open>search/src/{vector,metric,top_k}.rs\<close>: \<open>Search_TopK\<close> (the bounded heap
      equals sort-and-take unless both zeros occur among the scores).

  \<^bold>\<open>Parameters.\<close> The croner pattern matcher and the jiff calendar (record \<open>croner\<close>), SHA-256 and
  the formatting of fingerprints, the enum deserialisers of serde, base64 and the JSON
  renderings of the workflow tables (record \<open>codec\<close>), the digest of a workflow version,
  random tokens, and rounded float arithmetic (record \<open>f64_ops\<close>) are arguments of the
  definitions that use them.

  \<^bold>\<open>Bounds and fuel.\<close> Loops are structural recursions or folds over finite tables. The
  search for the next cron slot and for the newest one is bounded by the horizon of the
  code itself, and \<open>Cron_Slots\<close> proves that it returns within it. Waiting for pins to drain is
  polling between steps of others; its deadline is not modelled.

  \<^bold>\<open>Not modelled.\<close> Restart, purge and retention of workflow instances (operations across two
  databases, driven by control records), inspection reports, the asynchronous drivers of
  the pools, the HTTP, socket and command-line surfaces, process supervision, artifact and resource storage
  (D1, KV, R2, Vectorize), encryption, backup, containers, browser, images, documents,
  observability, and the TypeScript packages: they are I/O and libraries around the
  modelled decisions, or large relational components of their own. Real time, the
  SQLite engine below the statements, and the wake-up notifications are abstracted.
\<close>

end
